(* ===== verification/Rag_Prelude.thy ===== *)
theory Rag_Prelude
  imports Complex_Main "HOL-Library.AList" "HOL-Library.Char_ord" "HOL-Library.List_Lexorder"
    "HOL-Library.Product_Lexorder" "HOL-Library.Sublist" "HOL-Library.Code_Target_Numeral" "HOL-Library.FSet"
begin

text \<open>
  The shared base of the development: the Python values every component uses.

  \<^item> A Python \<open>str\<close> is a \<^typ>\<open>string\<close>: a list of code points U+0000 to U+00FF. On that
    range the character classes below (\<open>str.isspace\<close>, \<open>str.lower\<close>, \<open>str.isdigit\<close>, the
    classes \<open>\s\<close>, \<open>\w\<close>, \<open>\d\<close> of \<open>re\<close>, the line boundaries of \<open>str.splitlines\<close>) are those
    of Python 3.12, not only their ASCII part.
  \<^item> An exception is a value of \<^term>\<open>exn\<close>; a fallible function returns a sum with the
    exception on the left.
  \<^item> A \<open>dict\<close> whose order matters is an association list, updated by \<^const>\<open>AList.update\<close>,
    which keeps the place of an existing key and appends a new one, as Python does.
  \<^item> A \<open>float\<close> is a \<^typ>\<open>real\<close>: rounding, infinities and NaN are not modelled.
  \<^item> \<open>sorted(xs, key=f)\<close> is \<^const>\<open>sort_key\<close>, which is stable as Python's is.
\<close>

section \<open>Collections of facts\<close>

named_theorems py_str \<open>definitions of Python's string functions\<close>
named_theorems acl \<open>group visibility rules\<close>
named_theorems store_simps \<open>how store operations look through the accessors\<close>
named_theorems inv_intros \<open>invariant preservation\<close>

declare Let_def [simp]

section \<open>Exceptions\<close>

text \<open>The exception classes the program raises or catches; a message where one is observable.\<close>

datatype exn =
    ValueError string
  | UnicodeError string
  | UnsafeQueryError string
  | UnsupportedDocumentError string
  | LlmSettingsError string
  | RuntimeError string
  | KeyError string
  | HTTPError int "string option"
  | URLError
  | TimeoutError
  | ConnectionError
  | ApiError int string "(string \<times> string) list"
  | OtherError string

type_synonym 'a res = "exn + 'a"

text \<open>
  \<open>isinstance(exc, ValueError)\<close>: \<open>UnicodeError\<close> is a subclass of \<open>ValueError\<close> in Python,
  and the program derives its own input errors from \<open>ValueError\<close>.
\<close>

fun is_value_error :: "exn \<Rightarrow> bool" where
  "is_value_error (ValueError _) = True"
| "is_value_error (UnicodeError _) = True"
| "is_value_error (UnsafeQueryError _) = True"
| "is_value_error (UnsupportedDocumentError _) = True"
| "is_value_error (LlmSettingsError _) = True"
| "is_value_error _ = False"

text \<open>\<open>str(exc)\<close> for the errors whose text reaches a user.\<close>

fun exn_str :: "exn \<Rightarrow> string" where
  "exn_str (ValueError m) = m"
| "exn_str (UnicodeError m) = m"
| "exn_str (UnsafeQueryError m) = m"
| "exn_str (UnsupportedDocumentError m) = m"
| "exn_str (LlmSettingsError m) = m"
| "exn_str (RuntimeError m) = m"
| "exn_str (KeyError m) = m"
| "exn_str (ApiError _ m _) = m"
| "exn_str (OtherError m) = m"
| "exn_str _ = []"

text \<open>Sequencing of fallible steps: the first exception ends the computation.\<close>

definition bind_res :: "'a res \<Rightarrow> ('a \<Rightarrow> 'b res) \<Rightarrow> 'b res" where
  "bind_res m f = (case m of Inl e \<Rightarrow> Inl e | Inr x \<Rightarrow> f x)"

lemma bind_res_simps [simp]:
  "bind_res (Inl e) f = Inl e"
  "bind_res (Inr x) f = f x"
  by (simp_all add: bind_res_def)

lemma bind_res_Inr_iff [simp]:
  "bind_res m f = Inr y \<longleftrightarrow> (\<exists>x. m = Inr x \<and> f x = Inr y)"
  by (cases m) auto

lemma bind_res_Inl_iff:
  "bind_res m f = Inl e \<longleftrightarrow> m = Inl e \<or> (\<exists>x. m = Inr x \<and> f x = Inl e)"
  by (cases m) auto

text \<open>A comprehension whose element expression can raise.\<close>

fun map_res :: "('a \<Rightarrow> 'b res) \<Rightarrow> 'a list \<Rightarrow> 'b list res" where
  "map_res f [] = Inr []"
| "map_res f (x # xs) = bind_res (f x) (\<lambda>y. bind_res (map_res f xs) (\<lambda>ys. Inr (y # ys)))"

lemma map_res_Inr [simp]: "map_res (\<lambda>x. Inr (f x)) xs = Inr (map f xs)"
  by (induction xs) auto

lemma map_res_length: "map_res f xs = Inr ys \<Longrightarrow> length ys = length xs"
  by (induction xs arbitrary: ys) auto

lemma map_res_set: "map_res f xs = Inr ys \<Longrightarrow> y \<in> set ys \<Longrightarrow> \<exists>x\<in>set xs. f x = Inr y"
  by (induction xs arbitrary: ys) auto

lemma map_res_mem: "map_res f xs = Inr ys \<Longrightarrow> x \<in> set xs \<Longrightarrow> \<exists>y\<in>set ys. f x = Inr y"
  by (induction xs arbitrary: ys) auto

lemma map_res_cong [fundef_cong]:
  "xs = ys \<Longrightarrow> (\<And>x. x \<in> set ys \<Longrightarrow> f x = g x) \<Longrightarrow> map_res f xs = map_res g ys"
proof (induction ys arbitrary: xs)
  case (Cons y ys)
  then have "map_res f ys = map_res g ys" by simp
  with Cons show ?case by simp
qed simp

section \<open>JSON values\<close>

datatype json =
    JNull
  | JBool bool
  | JInt int
  | JFloat real
  | JStr string
  | JList "json list"
  | JObj "(string \<times> json) list"

type_synonym jobj = "(string \<times> json) list"

text \<open>\<open>d.get(k)\<close>: a missing key and a null value both read as \<open>None\<close>.\<close>

definition jget :: "jobj \<Rightarrow> string \<Rightarrow> json" where
  "jget d k = (case map_of d k of None \<Rightarrow> JNull | Some v \<Rightarrow> v)"

text \<open>\<open>d.get(k, default)\<close> and \<open>k in d\<close>.\<close>

definition jget_or :: "jobj \<Rightarrow> string \<Rightarrow> json \<Rightarrow> json" where
  "jget_or d k v = (case map_of d k of None \<Rightarrow> v | Some x \<Rightarrow> x)"

definition jhas :: "jobj \<Rightarrow> string \<Rightarrow> bool" where
  "jhas d k = (map_of d k \<noteq> None)"

text \<open>\<open>isinstance(v, str)\<close>, with the string.\<close>

fun jstr :: "json \<Rightarrow> string option" where
  "jstr (JStr s) = Some s"
| "jstr _ = None"

lemma jstr_Some_iff [simp]: "jstr j = Some s \<longleftrightarrow> j = JStr s"
  by (cases j) auto

section \<open>Characters\<close>

abbreviation ord :: "char \<Rightarrow> nat" where
  "ord c \<equiv> of_char c"

definition is_space :: "char \<Rightarrow> bool" where
  "is_space c = (let n = ord c in (9 \<le> n \<and> n \<le> 13) \<or> (28 \<le> n \<and> n \<le> 32) \<or> n = 133 \<or> n = 160)"

definition is_line_break :: "char \<Rightarrow> bool" where
  "is_line_break c = (let n = ord c in (10 \<le> n \<and> n \<le> 13) \<or> (28 \<le> n \<and> n \<le> 30) \<or> n = 133)"

definition is_decimal :: "char \<Rightarrow> bool" where
  "is_decimal c = (48 \<le> ord c \<and> ord c \<le> 57)"

text \<open>\<open>str.isdigit\<close> also accepts the superscripts U+00B2, U+00B3 and U+00B9.\<close>

definition is_digit :: "char \<Rightarrow> bool" where
  "is_digit c = (is_decimal c \<or> ord c \<in> {178, 179, 185})"

definition is_ascii_alnum :: "char \<Rightarrow> bool" where
  "is_ascii_alnum c = (let n = ord c in
     (48 \<le> n \<and> n \<le> 57) \<or> (65 \<le> n \<and> n \<le> 90) \<or> (97 \<le> n \<and> n \<le> 122))"

definition is_word :: "char \<Rightarrow> bool" where
  "is_word c = (let n = ord c in
     is_ascii_alnum c \<or> n = 95 \<or> n \<in> {170, 178, 179, 181, 185, 186, 188, 189, 190}
     \<or> (192 \<le> n \<and> n \<noteq> 215 \<and> n \<noteq> 247))"

definition lower_char :: "char \<Rightarrow> char" where
  "lower_char c = (let n = ord c in
     if (65 \<le> n \<and> n \<le> 90) \<or> (192 \<le> n \<and> n \<le> 222 \<and> n \<noteq> 215) then char_of (n + 32) else c)"

section \<open>Strings\<close>

definition lower :: "string \<Rightarrow> string" where
  "lower s = map lower_char s"

definition lstrip :: "string \<Rightarrow> string" where
  "lstrip s = dropWhile is_space s"

definition rstrip :: "string \<Rightarrow> string" where
  "rstrip s = rev (dropWhile is_space (rev s))"

definition strip :: "string \<Rightarrow> string" where
  "strip s = rstrip (lstrip s)"

text \<open>\<open>sep.join(parts)\<close>\<close>

fun join :: "string \<Rightarrow> string list \<Rightarrow> string" where
  "join sep [] = []"
| "join sep [x] = x"
| "join sep (x # y # xs) = x @ sep @ join sep (y # xs)"

text \<open>\<open>s.split()\<close>, \<open>re.findall(r"\S+", s)\<close> and \<open>re.findall(r"[a-z]+", s)\<close> all return the
  maximal runs of characters of a class.\<close>

function runs :: "(char \<Rightarrow> bool) \<Rightarrow> string \<Rightarrow> string list" where
  "runs p s = (case dropWhile (\<lambda>c. \<not> p c) s of
       [] \<Rightarrow> []
     | c # cs \<Rightarrow> (c # takeWhile p cs) # runs p (dropWhile p cs))"
  by pat_completeness auto
termination
proof (relation "measure (\<lambda>(p, s). length s)")
  fix p s c cs assume "dropWhile (\<lambda>c. \<not> p c) s = c # cs"
  then have "Suc (length cs) \<le> length s"
    by (metis length_Cons length_dropWhile_le)
  moreover have "length (dropWhile p cs) \<le> length cs" by (rule length_dropWhile_le)
  ultimately show "((p, dropWhile p cs), (p, s)) \<in> measure (\<lambda>(p, s). length s)" by simp
qed simp

declare runs.simps [simp del]

lemma runs_Nil [simp]: "runs p [] = []"
  by (subst runs.simps) simp

lemma runs_in [simp]: "p c \<Longrightarrow> runs p (c # cs) = (c # takeWhile p cs) # runs p (dropWhile p cs)"
  by (subst runs.simps) simp

lemma runs_out [simp]: "\<not> p c \<Longrightarrow> runs p (c # cs) = runs p cs"
  by (subst (1 2) runs.simps) simp

lemma runs_set: "w \<in> set (runs p s) \<Longrightarrow> w \<noteq> [] \<and> list_all p w"
proof (induction s rule: length_induct)
  case (1 s)
  show ?case
  proof (cases s)
    case (Cons c cs)
    have rest: "w \<in> set (runs p (dropWhile p cs)) \<Longrightarrow> w \<noteq> [] \<and> list_all p w"
      using "1.IH" Cons length_dropWhile_le[of p cs] by (metis length_Cons less_Suc_eq_le)
    show ?thesis
    proof (cases "p c")
      case True
      with Cons "1.prems" rest show ?thesis by (auto simp: list_all_iff dest: set_takeWhileD)
    next
      case False
      with Cons "1.prems" "1.IH"[rule_format, of cs] show ?thesis by simp
    qed
  qed (use 1 in auto)
qed

text \<open>A character outside the class separates the runs on its two sides.\<close>

lemma runs_sep: "\<not> p c \<Longrightarrow> runs p (u @ c # v) = runs p u @ runs p v"
proof (induction u rule: length_induct)
  case (1 u)
  show ?case
  proof (cases u)
    case (Cons x u')
    show ?thesis
    proof (cases "p x")
      case True
      show ?thesis
      proof (cases "\<forall>y\<in>set u'. p y")
        case all: True
        then have "takeWhile p (u' @ c # v) = u'" "dropWhile p (u' @ c # v) = c # v"
          using "1.prems" by (simp_all add: takeWhile_append2)
        with all True Cons "1.prems" show ?thesis
          by (simp add: takeWhile_eq_all_conv[THEN iffD2] dropWhile_eq_Nil_conv[THEN iffD2])
      next
        case False
        then have d: "dropWhile p (u' @ c # v) = dropWhile p u' @ c # v"
          "takeWhile p (u' @ c # v) = takeWhile p u'"
          by (auto simp: dropWhile_append1 takeWhile_append1)
        have "length (dropWhile p u') < length u"
          using Cons length_dropWhile_le[of p u'] by simp
        with "1.IH" "1.prems" d True Cons show ?thesis by simp
      qed
    next
      case False
      with 1 Cons show ?thesis by simp
    qed
  qed (use "1.prems" in simp)
qed

lemma runs_all: "s \<noteq> [] \<Longrightarrow> list_all p s \<Longrightarrow> runs p s = [s]"
  by (cases s) (simp_all add: list_all_iff takeWhile_eq_all_conv[THEN iffD2]
      dropWhile_eq_Nil_conv[THEN iffD2])

lemma runs_none: "list_all (\<lambda>c. \<not> p c) s \<Longrightarrow> runs p s = []"
  by (induction s) auto

definition split_ws :: "string \<Rightarrow> string list" where
  "split_ws s = runs (\<lambda>c. \<not> is_space c) s"

text \<open>\<open>s.split(c)\<close> for a one-character separator: empty parts are kept.\<close>

fun split_on :: "char \<Rightarrow> string \<Rightarrow> string list" where
  "split_on d [] = [[]]"
| "split_on d (c # cs) =
     (if c = d then [] # split_on d cs
      else case split_on d cs of [] \<Rightarrow> [[c]] | p # ps \<Rightarrow> (c # p) # ps)"

text \<open>\<open>s.splitlines()\<close>: \<open>\r\n\<close> is one boundary and a final boundary adds no empty line.\<close>

fun splitlines_aux :: "string \<Rightarrow> string \<Rightarrow> string list" where
  "splitlines_aux acc [] = (if acc = [] then [] else [rev acc])"
| "splitlines_aux acc [c] = (if is_line_break c then [rev acc] else [rev (c # acc)])"
| "splitlines_aux acc (c # d # cs) =
     (if ord c = 13 \<and> ord d = 10 then rev acc # splitlines_aux [] cs
      else if is_line_break c then rev acc # splitlines_aux [] (d # cs)
      else splitlines_aux (c # acc) (d # cs))"

definition splitlines :: "string \<Rightarrow> string list" where
  "splitlines s = splitlines_aux [] s"

text \<open>Decimal rendering of a non-negative integer, as in an f-string.\<close>

function show_nat :: "nat \<Rightarrow> string" where
  "show_nat n = (if n < 10 then [char_of (48 + n)] else show_nat (n div 10) @ [char_of (48 + n mod 10)])"
  by pat_completeness auto
termination by (relation "measure id") auto

declare show_nat.simps [simp del]

definition show_int :: "int \<Rightarrow> string" where
  "show_int i = (if i < 0 then CHR ''-'' # show_nat (nat (- i)) else show_nat (nat i))"

text \<open>
  \<open>int(s)\<close>: white space around an optional sign and decimal digits, underscores allowed between
  digits. CPython refuses more than
  4300 digits (\<open>sys.int_info.default_max_str_digits\<close>) with a \<open>ValueError\<close>.
\<close>

definition digits_val :: "string \<Rightarrow> nat" where
  "digits_val s = foldl (\<lambda>n c. 10 * n + (ord c - 48)) 0 s"

definition max_str_digits :: nat where
  "max_str_digits = 4300"

definition sign_split :: "string \<Rightarrow> bool \<times> string" where
  "sign_split s = (case s of c # r \<Rightarrow> if c = CHR ''-'' then (True, r) else if c = CHR ''+'' then (False, r)
     else (False, s) | [] \<Rightarrow> (False, []))"

definition digit_run :: "string \<Rightarrow> string option" where
  "digit_run u = (let parts = split_on (CHR ''_'') u in
     if list_all (\<lambda>p. p \<noteq> [] \<and> list_all is_decimal p) parts then Some (concat parts) else None)"

definition py_int :: "string \<Rightarrow> int res" where
  "py_int s = (case sign_split (strip s) of (neg, u) \<Rightarrow>
     case digit_run u of
       None \<Rightarrow> Inl (ValueError ''invalid literal for int()'')
     | Some ds \<Rightarrow> if length ds > max_str_digits
         then Inl (ValueError ''Exceeds the limit (4300 digits) for integer string conversion'')
         else Inr (if neg then - int (digits_val ds) else int (digits_val ds)))"

text \<open>
  \<open>float(s)\<close> for decimal notation; the special values \<open>inf\<close> and \<open>nan\<close> have no counterpart
  among the reals and are reported as an error of the model.
\<close>

definition break_at :: "(char \<Rightarrow> bool) \<Rightarrow> string \<Rightarrow> string \<times> string option" where
  "break_at p s = (let rest = dropWhile (\<lambda>c. \<not> p c) s in
     (takeWhile (\<lambda>c. \<not> p c) s, if rest = [] then None else Some (tl rest)))"

definition opt_digits :: "string \<Rightarrow> string option" where
  "opt_digits u = (if u = [] then Some [] else digit_run u)"

definition float_mantissa :: "string \<Rightarrow> real option" where
  "float_mantissa m = (case break_at (\<lambda>c. c = CHR ''.'') m of (ip, fp) \<Rightarrow>
     case (opt_digits ip, opt_digits (case fp of None \<Rightarrow> [] | Some f \<Rightarrow> f)) of
       (Some i, Some f) \<Rightarrow> if i = [] \<and> f = [] then None
          else Some (real (digits_val i) + real (digits_val f) / 10 ^ length f)
     | _ \<Rightarrow> None)"

definition float_exponent :: "string option \<Rightarrow> real option" where
  "float_exponent e = (case e of None \<Rightarrow> Some 1
     | Some x \<Rightarrow> (case sign_split x of (neg, u) \<Rightarrow>
         map_option (\<lambda>d. if neg then 1 / 10 ^ digits_val d else 10 ^ digits_val d) (digit_run u)))"

definition py_float :: "string \<Rightarrow> real res" where
  "py_float s = (case sign_split (strip s) of (neg, u) \<Rightarrow>
     if lower u \<in> {''inf'', ''infinity'', ''nan''} then Inl (OtherError ''special float'')
     else case break_at (\<lambda>c. c = CHR ''e'' \<or> c = CHR ''E'') u of (m, e) \<Rightarrow>
       case (float_mantissa m, float_exponent e) of
         (Some v, Some x) \<Rightarrow> Inr (if neg then - (v * x) else v * x)
       | _ \<Rightarrow> Inl (ValueError ''could not convert string to float''))"

lemma split_on_single: "c \<notin> set s \<Longrightarrow> split_on c s = [s]"
  by (induction s) auto

lemmas strip_defs [py_str] = strip_def lstrip_def rstrip_def

subsection \<open>White space\<close>

lemma strip_empty_iff: "strip s = [] \<longleftrightarrow> list_all is_space s"
proof
  assume "strip s = []"
  then have "\<forall>c\<in>set (dropWhile is_space s). is_space c"
    by (simp add: py_str)
  then have "dropWhile is_space s = []"
    by (metis hd_dropWhile hd_in_set)
  then show "list_all is_space s" by (simp add: list_all_iff)
next
  assume "list_all is_space s"
  then show "strip s = []" by (auto simp: py_str list_all_iff dest: set_dropWhileD)
qed

lemma dropWhile_rev_ends:
  assumes "s \<noteq> []" "\<not> p (last s)"
  shows "rev (dropWhile p (rev s)) = s"
  using assms by (cases s rule: rev_cases) auto

lemma rstrip_ends: "rstrip s \<noteq> [] \<Longrightarrow> \<not> is_space (last (rstrip s))"
  unfolding rstrip_def
  by (metis hd_dropWhile last_rev rev_is_Nil_conv)

lemma rstrip_hd: "rstrip s \<noteq> [] \<Longrightarrow> hd (rstrip s) = hd s"
proof -
  assume ne: "rstrip s \<noteq> []"
  have "s = rstrip s @ rev (takeWhile is_space (rev s))"
    unfolding rstrip_def by (metis rev_append rev_rev_ident takeWhile_dropWhile_id)
  with ne show ?thesis by (metis hd_append2)
qed

lemma strip_hd_last:
  assumes "strip s \<noteq> []"
  shows "\<not> is_space (hd (strip s))" and "\<not> is_space (last (strip s))"
proof -
  have "lstrip s \<noteq> []" using assms by (auto simp: strip_def rstrip_def)
  then have "\<not> is_space (hd (lstrip s))" by (simp add: lstrip_def hd_dropWhile)
  then show "\<not> is_space (hd (strip s))" using assms rstrip_hd[of "lstrip s"] by (simp add: strip_def)
  show "\<not> is_space (last (strip s))" using assms rstrip_ends[of "lstrip s"] by (simp add: strip_def)
qed

lemma strip_id: "s \<noteq> [] \<Longrightarrow> \<not> is_space (hd s) \<Longrightarrow> \<not> is_space (last s) \<Longrightarrow> strip s = s"
  using dropWhile_rev_ends[of s is_space] by (cases s) (simp_all add: py_str)

lemma decimal_run:
  assumes "ds \<noteq> []" "list_all is_decimal ds"
  shows "strip ds = ds" "sign_split ds = (False, ds)" "digit_run ds = Some ds"
    "c \<in> set ds \<Longrightarrow> is_decimal c"
proof -
  have d: "is_decimal c" if "c \<in> set ds" for c using assms(2) that by (simp add: list_all_iff)
  show "strip ds = ds" using assms(1) d[of "hd ds"] d[of "last ds"]
    by (intro strip_id) (auto simp: is_decimal_def is_space_def)
  show "sign_split ds = (False, ds)"
    using assms by (cases ds) (auto simp: sign_split_def is_decimal_def)
  have "split_on (CHR ''_'') ds = [ds]"
    using d[of "CHR ''_''"] by (intro split_on_single) (auto simp: is_decimal_def)
  then show "digit_run ds = Some ds" using assms by (simp add: digit_run_def)
  show "c \<in> set ds \<Longrightarrow> is_decimal c" by (rule d)
qed

lemma py_int_digits:
  assumes "ds \<noteq> []" "list_all is_decimal ds"
  shows "py_int ds = (if length ds > max_str_digits
    then Inl (ValueError ''Exceeds the limit (4300 digits) for integer string conversion'')
    else Inr (int (digits_val ds)))"
  using assms decimal_run[OF assms] by (simp add: py_int_def)

lemma py_float_digits:
  assumes "ds \<noteq> []" "list_all is_decimal ds"
  shows "py_float ds = Inr (real (digits_val ds))"
proof -
  note run = decimal_run[OF assms]
  have brk: "break_at p ds = (ds, None)" if "\<And>c. is_decimal c \<Longrightarrow> \<not> p c" for p
    using that run(4) by (auto simp: break_at_def dropWhile_eq_Nil_conv takeWhile_eq_all_conv)
  have "lower ds \<notin> {''inf'', ''infinity'', ''nan''}"
    using assms by (cases ds) (auto simp: lower_def lower_char_def is_decimal_def)
  moreover have "break_at (\<lambda>c. c = CHR ''e'' \<or> c = CHR ''E'') ds = (ds, None)"
    "break_at (\<lambda>c. c = CHR ''.'') ds = (ds, None)"
    by (rule brk; auto simp: is_decimal_def)+
  ultimately show ?thesis
    using assms(1) run(1-3) by (simp add: py_float_def float_mantissa_def float_exponent_def opt_digits_def
        digits_val_def)
qed

lemma strip_Nil [simp]: "strip [] = []"
  by (simp add: py_str)

lemma strip_strip [simp]: "strip (strip s) = strip s"
proof (cases "strip s = []")
  case True
  then show ?thesis by simp
next
  case False
  then show ?thesis using strip_hd_last[OF False] by (intro strip_id)
qed

lemma set_strip: "set (strip s) \<subseteq> set s"
  unfolding py_str using set_dropWhileD by (metis set_rev subsetI)

lemma length_strip: "length (strip s) \<le> length s"
proof -
  have "length (strip s) \<le> length (dropWhile is_space s)"
    unfolding py_str by (metis length_dropWhile_le length_rev)
  then show ?thesis using length_dropWhile_le[of is_space s] by linarith
qed

section \<open>Reading JSON values the way Python does\<close>

text \<open>\<open>str(value)\<close>; \<open>rep\<close> is \<open>repr\<close> of floats and containers.\<close>

fun json_str :: "(json \<Rightarrow> string) \<Rightarrow> json \<Rightarrow> string" where
  "json_str rep JNull = ''None''"
| "json_str rep (JBool b) = (if b then ''True'' else ''False'')"
| "json_str rep (JInt i) = show_int i"
| "json_str rep (JStr s) = s"
| "json_str rep j = rep j"

text \<open>Truthiness, \<open>v[key]\<close>, \<open>v[0]\<close>, \<open>v.get(key)\<close> and \<open>int(v)\<close>.\<close>

fun jtruthy :: "json \<Rightarrow> bool" where
  "jtruthy JNull = False"
| "jtruthy (JBool b) = b"
| "jtruthy (JInt i) = (i \<noteq> 0)"
| "jtruthy (JFloat x) = (x \<noteq> 0)"
| "jtruthy (JStr s) = (s \<noteq> [])"
| "jtruthy (JList xs) = (xs \<noteq> [])"
| "jtruthy (JObj d) = (d \<noteq> [])"

fun jsub_key :: "json \<Rightarrow> string \<Rightarrow> json res" where
  "jsub_key (JObj d) k = (case map_of d k of None \<Rightarrow> Inl (KeyError k) | Some v \<Rightarrow> Inr v)"
| "jsub_key _ k = Inl (OtherError ''TypeError'')"

fun jsub_0 :: "json \<Rightarrow> json res" where
  "jsub_0 (JList (x # _)) = Inr x"
| "jsub_0 (JList []) = Inl (OtherError ''IndexError'')"
| "jsub_0 (JStr (c # _)) = Inr (JStr [c])"
| "jsub_0 (JStr []) = Inl (OtherError ''IndexError'')"
| "jsub_0 (JObj _) = Inl (KeyError ''0'')"
| "jsub_0 _ = Inl (OtherError ''TypeError'')"

fun jget_attr :: "json \<Rightarrow> string \<Rightarrow> json res" where
  "jget_attr (JObj d) k = Inr (jget d k)"
| "jget_attr _ k = Inl (OtherError ''AttributeError'')"

fun json_int :: "json \<Rightarrow> int res" where
  "json_int (JInt i) = Inr i"
| "json_int (JBool b) = Inr (if b then 1 else 0)"
| "json_int (JFloat x) = Inr (if 0 \<le> x then \<lfloor>x\<rfloor> else \<lceil>x\<rceil>)"
| "json_int (JStr s) = py_int s"
| "json_int _ = Inl (OtherError ''TypeError'')"

section \<open>Environment variables\<close>

type_synonym environ = "string \<Rightarrow> string option"

definition getenv :: "environ \<Rightarrow> string \<Rightarrow> string \<Rightarrow> string" where
  "getenv env k d = (case env k of None \<Rightarrow> d | Some v \<Rightarrow> v)"

end
