(* ===== verification/Py_Regex.thy ===== *)
theory Py_Regex
  imports Rag_Prelude
begin

text \<open>
  The part of Python's \<open>re\<close> module the program uses, as a backtracking matcher. A context is
  the character before the position (\<open>None\<close> at the start of the text) and the text that
  follows. \<open>mt r ctx\<close> lists the contexts after a match of \<open>r\<close>, in the order in which a
  backtracking engine tries them, so its head is the match \<open>re\<close> reports. \<open>den\<close> is the
  language-level meaning, and \<open>mt_iff_den\<close> shows that the matcher finds exactly the matches
  the meaning allows. On top of it stand \<open>re.search\<close>, \<open>fullmatch\<close>, \<open>findall\<close> and
  \<open>sub\<close> (for patterns that never match the empty string, as all patterns of the program).
\<close>

section \<open>Patterns and the matcher\<close>

datatype rx =
    Eps
  | Cls "char \<Rightarrow> bool"
  | Seq rx rx
  | Alt rx rx
  | Star rx
  | Bol
  | Bos
  | WordB

type_synonym ctx = "char option \<times> string"

text \<open>\<open>^\<close> under \<open>(?m)\<close> (\<open>Bol\<close>), \<open>^\<close> without it (\<open>Bos\<close>) and \<open>\b\<close>.\<close>

definition at_bol :: "char option \<Rightarrow> bool" where
  "at_bol pv = (case pv of None \<Rightarrow> True | Some c \<Rightarrow> ord c = 10)"

definition word_before :: "char option \<Rightarrow> bool" where
  "word_before pv = (case pv of None \<Rightarrow> False | Some c \<Rightarrow> is_word c)"

definition word_after :: "string \<Rightarrow> bool" where
  "word_after s = (case s of [] \<Rightarrow> False | c # _ \<Rightarrow> is_word c)"

text \<open>Greedy iteration: an iteration that consumes nothing is not repeated.\<close>

fun star_iter :: "nat \<Rightarrow> (ctx \<Rightarrow> ctx list) \<Rightarrow> ctx \<Rightarrow> ctx list" where
  "star_iter 0 f s = [s]"
| "star_iter (Suc n) f s =
     concat (map (\<lambda>t. if length (snd t) < length (snd s) then star_iter n f t else []) (f s)) @ [s]"

primrec mt :: "rx \<Rightarrow> ctx \<Rightarrow> ctx list" where
  "mt Eps s = [s]"
| "mt (Cls p) s = (case snd s of [] \<Rightarrow> [] | c # cs \<Rightarrow> if p c then [(Some c, cs)] else [])"
| "mt (Seq a b) s = concat (map (mt b) (mt a s))"
| "mt (Alt a b) s = mt a s @ mt b s"
| "mt (Star r) s = star_iter (length (snd s)) (mt r) s"
| "mt Bol s = (if at_bol (fst s) then [s] else [])"
| "mt Bos s = (if fst s = None then [s] else [])"
| "mt WordB s = (if word_before (fst s) \<noteq> word_after (snd s) then [s] else [])"

definition Opt :: "rx \<Rightarrow> rx" where
  "Opt r = Alt r Eps"

definition Plus :: "rx \<Rightarrow> rx" where
  "Plus r = Seq r (Star r)"

text \<open>A literal, exactly and under \<open>re.I\<close>.\<close>

fun Lit :: "string \<Rightarrow> rx" where
  "Lit [] = Eps"
| "Lit [c] = Cls (\<lambda>d. d = c)"
| "Lit (c # cs) = Seq (Cls (\<lambda>d. d = c)) (Lit cs)"

fun LitI :: "string \<Rightarrow> rx" where
  "LitI [] = Eps"
| "LitI [c] = Cls (\<lambda>d. lower_char d = lower_char c)"
| "LitI (c # cs) = Seq (Cls (\<lambda>d. lower_char d = lower_char c)) (LitI cs)"

fun Alts :: "rx list \<Rightarrow> rx" where
  "Alts [] = Cls (\<lambda>_. False)"
| "Alts [r] = r"
| "Alts (r # rs) = Alt r (Alts rs)"

fun Seqs :: "rx list \<Rightarrow> rx" where
  "Seqs [] = Eps"
| "Seqs [r] = r"
| "Seqs (r # rs) = Seq r (Seqs rs)"

section \<open>The meaning of a pattern\<close>

definition after :: "char option \<Rightarrow> string \<Rightarrow> char option" where
  "after pv w = (if w = [] then pv else Some (last w))"

lemma after_simps [simp]:
  "after pv [] = pv"
  "after pv (c # cs) = after (Some c) cs"
  by (simp_all add: after_def)

lemma after_append [simp]: "after pv (u @ v) = after (after pv u) v"
  by (induction u arbitrary: pv) simp_all

text \<open>\<open>den r pv w k\<close>: with \<open>pv\<close> before it and \<open>k\<close> after it, the text \<open>w\<close> matches \<open>r\<close>.\<close>

inductive den :: "rx \<Rightarrow> char option \<Rightarrow> string \<Rightarrow> string \<Rightarrow> bool" where
  den_eps: "den Eps pv [] k"
| den_cls: "p c \<Longrightarrow> den (Cls p) pv [c] k"
| den_seq: "den a pv u (v @ k) \<Longrightarrow> den b (after pv u) v k \<Longrightarrow> den (Seq a b) pv (u @ v) k"
| den_alt1: "den a pv w k \<Longrightarrow> den (Alt a b) pv w k"
| den_alt2: "den b pv w k \<Longrightarrow> den (Alt a b) pv w k"
| den_star0: "den (Star r) pv [] k"
| den_star1: "u \<noteq> [] \<Longrightarrow> den r pv u (v @ k) \<Longrightarrow> den (Star r) (after pv u) v k \<Longrightarrow>
     den (Star r) pv (u @ v) k"
| den_bol: "at_bol pv \<Longrightarrow> den Bol pv [] k"
| den_bos: "den Bos None [] k"
| den_wordb: "word_before pv \<noteq> word_after k \<Longrightarrow> den WordB pv [] k"

inductive_simps den_eps_iff [simp]: "den Eps pv w k"
inductive_simps den_cls_iff [simp]: "den (Cls p) pv w k"
inductive_simps den_seq_iff: "den (Seq a b) pv w k"
inductive_simps den_alt_iff [simp]: "den (Alt a b) pv w k"
inductive_simps den_bol_iff [simp]: "den Bol pv w k"
inductive_simps den_bos_iff [simp]: "den Bos pv w k"
inductive_simps den_wordb_iff [simp]: "den WordB pv w k"
inductive_cases den_starE: "den (Star r) pv w k"

lemma star_iter_sound:
  assumes f: "\<And>pv s t. t \<in> set (f (pv, s)) \<Longrightarrow> \<exists>w. s = w @ snd t \<and> fst t = after pv w \<and> den r pv w (snd t)"
    and t: "t \<in> set (star_iter n f (pv, s))"
  shows "\<exists>w. s = w @ snd t \<and> fst t = after pv w \<and> den (Star r) pv w (snd t)"
  using t
proof (induction n arbitrary: pv s)
  case 0
  then show ?case by (auto intro!: den_star0)
next
  case (Suc n)
  show ?case
  proof (cases "t = (pv, s)")
    case True
    then show ?thesis by (auto intro!: den_star0)
  next
    case False
    with Suc.prems obtain x where x: "x \<in> set (f (pv, s))" "length (snd x) < length s"
      and t: "t \<in> set (star_iter n f x)"
      by (auto split: if_splits)
    obtain u where u: "s = u @ snd x" "fst x = after pv u" "den r pv u (snd x)"
      using f[OF x(1)] by blast
    obtain v where v: "snd x = v @ snd t" "fst t = after (fst x) v" "den (Star r) (fst x) v (snd t)"
      using Suc.IH[of "fst x" "snd x"] t by auto
    have "u \<noteq> []" using x(2) u(1) by auto
    then have "den (Star r) pv (u @ v) (snd t)"
      using u v by (intro den_star1) auto
    with u v show ?thesis by (intro exI[of _ "u @ v"]) auto
  qed
qed

lemma mt_sound:
  "t \<in> set (mt r (pv, s)) \<Longrightarrow> \<exists>w. s = w @ snd t \<and> fst t = after pv w \<and> den r pv w (snd t)"
proof (induction r arbitrary: pv s t)
  case (Seq a b)
  then obtain x where x: "x \<in> set (mt a (pv, s))" "t \<in> set (mt b x)" by auto
  obtain u where u: "s = u @ snd x" "fst x = after pv u" "den a pv u (snd x)"
    using Seq.IH(1)[OF x(1)] by blast
  obtain v where v: "snd x = v @ snd t" "fst t = after (fst x) v" "den b (fst x) v (snd t)"
    using Seq.IH(2)[of t "fst x" "snd x"] x(2) by auto
  with u show ?case by (intro exI[of _ "u @ v"]) (auto intro: den_seq)
next
  case (Alt a b)
  from Alt.prems consider "t \<in> set (mt a (pv, s))" | "t \<in> set (mt b (pv, s))" by auto
  then show ?case
  proof cases
    case 1
    then show ?thesis using Alt.IH(1)[of t pv s] by (metis den_alt1)
  next
    case 2
    then show ?thesis using Alt.IH(2)[of t pv s] by (metis den_alt2)
  qed
next
  case (Star r)
  then show ?case using star_iter_sound[of "mt r" r t "length s" pv s] by auto
qed (auto split: list.splits if_splits)

lemma star_iter_complete:
  assumes f: "\<And>pv w k. den r pv w k \<Longrightarrow> (after pv w, k) \<in> set (f (pv, w @ k))"
    and d: "den R pv w k"
  shows "R = Star r \<Longrightarrow> length w \<le> n \<Longrightarrow> (after pv w, k) \<in> set (star_iter n f (pv, w @ k))"
  using d
proof (induction arbitrary: n rule: den.induct)
  case (den_star0 r' pv k)
  then show ?case by (cases n) auto
next
  case (den_star1 u r' pv v k)
  then obtain m where n: "n = Suc m" and m: "length v \<le> m"
    by (cases n) (auto simp: neq_Nil_conv)
  have "(after pv u, v @ k) \<in> set (f (pv, u @ v @ k))"
    using den_star1 by (intro f) simp
  moreover have "(after (after pv u) v, k) \<in> set (star_iter m f (after pv u, v @ k))"
    using den_star1 m by simp
  ultimately show ?case using den_star1.hyps(1) n by force
qed auto

lemma mt_complete: "den r pv w k \<Longrightarrow> (after pv w, k) \<in> set (mt r (pv, w @ k))"
proof (induction r arbitrary: pv w k)
  case (Seq a b)
  then obtain u v where w: "w = u @ v" "den a pv u (v @ k)" "den b (after pv u) v k"
    by (auto simp: den_seq_iff)
  then have "(after pv u, v @ k) \<in> set (mt a (pv, u @ v @ k))"
    "(after (after pv u) v, k) \<in> set (mt b (after pv u, v @ k))"
    using Seq.IH by blast+
  with w show ?case by force
next
  case (Star r)
  then show ?case using star_iter_complete[of r "mt r" "Star r" pv w k "length (w @ k)"] by simp
qed auto

text \<open>The matcher finds exactly the matches of the pattern's meaning.\<close>

theorem mt_iff_den:
  "t \<in> set (mt r (pv, s)) \<longleftrightarrow> (\<exists>w. s = w @ snd t \<and> fst t = after pv w \<and> den r pv w (snd t))"
proof
  assume "\<exists>w. s = w @ snd t \<and> fst t = after pv w \<and> den r pv w (snd t)"
  then obtain w where "s = w @ snd t" "fst t = after pv w" "den r pv w (snd t)" by blast
  then show "t \<in> set (mt r (pv, s))" using mt_complete[of r pv w "snd t"] by (cases t) auto
qed (rule mt_sound)

lemma mt_empty_iff: "mt r (pv, s) = [] \<longleftrightarrow> (\<nexists>w k. s = w @ k \<and> den r pv w k)"
proof -
  have "mt r (pv, s) = [] \<longleftrightarrow> (\<forall>t. t \<notin> set (mt r (pv, s)))" by (cases "mt r (pv, s)") auto
  then show ?thesis unfolding mt_iff_den by auto
qed

text \<open>The characters a pattern can consume, and patterns that do not look at their context.\<close>

primrec may_eat :: "rx \<Rightarrow> char \<Rightarrow> bool" where
  "may_eat Eps c = False"
| "may_eat (Cls p) c = p c"
| "may_eat (Seq a b) c = (may_eat a c \<or> may_eat b c)"
| "may_eat (Alt a b) c = (may_eat a c \<or> may_eat b c)"
| "may_eat (Star r) c = may_eat r c"
| "may_eat Bol c = False"
| "may_eat Bos c = False"
| "may_eat WordB c = False"

primrec ctx_free :: "rx \<Rightarrow> bool" where
  "ctx_free Eps = True"
| "ctx_free (Cls p) = True"
| "ctx_free (Seq a b) = (ctx_free a \<and> ctx_free b)"
| "ctx_free (Alt a b) = (ctx_free a \<and> ctx_free b)"
| "ctx_free (Star r) = ctx_free r"
| "ctx_free Bol = False"
| "ctx_free Bos = False"
| "ctx_free WordB = False"

lemma den_chars: "den r pv w k \<Longrightarrow> c \<in> set w \<Longrightarrow> may_eat r c"
  by (induction rule: den.induct) auto

lemma den_ctx_free: "den r pv w k \<Longrightarrow> ctx_free r \<Longrightarrow> den r pv' w k'"
proof (induction arbitrary: pv' k' rule: den.induct)
  case (den_star1 u r pv v k)
  then show ?case by (intro den.den_star1) auto
qed (auto intro: den.intros)

primrec nullable :: "rx \<Rightarrow> bool" where
  "nullable Eps = True"
| "nullable (Cls p) = False"
| "nullable (Seq a b) = (nullable a \<and> nullable b)"
| "nullable (Alt a b) = (nullable a \<or> nullable b)"
| "nullable (Star r) = True"
| "nullable Bol = True"
| "nullable Bos = True"
| "nullable WordB = True"

lemma den_nullable: "den r pv w k \<Longrightarrow> w = [] \<Longrightarrow> nullable r"
  by (induction rule: den.induct) auto

section \<open>Search, fullmatch, findall and sub\<close>

fun re_search :: "rx \<Rightarrow> char option \<Rightarrow> string \<Rightarrow> bool" where
  "re_search r pv [] = (mt r (pv, []) \<noteq> [])"
| "re_search r pv (c # cs) = (mt r (pv, c # cs) \<noteq> [] \<or> re_search r (Some c) cs)"

definition re_fullmatch :: "rx \<Rightarrow> string \<Rightarrow> bool" where
  "re_fullmatch r s = list_ex (\<lambda>t. snd t = []) (mt r (None, s))"

text \<open>The match at a position, if it consumes anything, and the text it consumed.\<close>

definition first_match :: "rx \<Rightarrow> ctx \<Rightarrow> ctx option" where
  "first_match r s = (case mt r s of [] \<Rightarrow> None
     | t # _ \<Rightarrow> if length (snd t) < length (snd s) then Some t else None)"

definition consumed :: "ctx \<Rightarrow> ctx \<Rightarrow> string" where
  "consumed s t = take (length (snd s) - length (snd t)) (snd s)"

lemma first_match_shorter: "first_match r s = Some t \<Longrightarrow> length (snd t) < length (snd s)"
  by (auto simp: first_match_def split: list.splits if_splits)

function re_findall :: "rx \<Rightarrow> ctx \<Rightarrow> string list" where
  "re_findall r s = (case first_match r s of
       Some t \<Rightarrow> consumed s t # re_findall r t
     | None \<Rightarrow> (case snd s of [] \<Rightarrow> [] | c # cs \<Rightarrow> re_findall r (Some c, cs)))"
  by pat_completeness auto
termination
  by (relation "measure (\<lambda>(r, s). length (snd s))") (auto dest: first_match_shorter)

function re_sub :: "rx \<Rightarrow> (string \<Rightarrow> string) \<Rightarrow> ctx \<Rightarrow> string" where
  "re_sub r f s = (case first_match r s of
       Some t \<Rightarrow> f (consumed s t) @ re_sub r f t
     | None \<Rightarrow> (case snd s of [] \<Rightarrow> [] | c # cs \<Rightarrow> c # re_sub r f (Some c, cs)))"
  by pat_completeness auto
termination
  by (relation "measure (\<lambda>(r, f, s). length (snd s))") (auto dest: first_match_shorter)

declare re_findall.simps [simp del] re_sub.simps [simp del]

lemma first_match_Nil [simp]: "first_match r (pv, []) = None"
  by (simp add: first_match_def split: list.splits)

lemma re_findall_Nil [simp]: "re_findall r (pv, []) = []"
  by (subst re_findall.simps) simp

lemma re_sub_Nil [simp]: "re_sub r f (pv, []) = []"
  by (subst re_sub.simps) simp

lemma re_sub_skip: "first_match r (pv, c # cs) = None \<Longrightarrow>
    re_sub r f (pv, c # cs) = c # re_sub r f (Some c, cs)"
  by (subst re_sub.simps) simp

lemma re_sub_match: "first_match r s = Some t \<Longrightarrow>
    re_sub r f s = f (consumed s t) @ re_sub r f t"
  by (subst re_sub.simps) simp

lemma first_match_Some:
  assumes "first_match r (pv, s) = Some t"
  shows "\<exists>w. w \<noteq> [] \<and> s = w @ snd t \<and> fst t = after pv w \<and> den r pv w (snd t) \<and> consumed (pv, s) t = w"
proof -
  obtain ts where ts: "mt r (pv, s) = t # ts" and len: "length (snd t) < length s"
    using assms by (auto simp: first_match_def split: list.splits if_splits)
  then have "t \<in> set (mt r (pv, s))" by simp
  then obtain w where w: "s = w @ snd t" "fst t = after pv w" "den r pv w (snd t)"
    unfolding mt_iff_den by blast
  moreover have "consumed (pv, s) t = w" by (subst w(1)) (simp add: consumed_def)
  moreover have "w \<noteq> []" using len w(1) by auto
  ultimately show ?thesis by blast
qed

lemma first_match_None:
  assumes "\<not> nullable r"
  shows "first_match r (pv, s) = None \<longleftrightarrow> mt r (pv, s) = []"
proof
  assume none: "first_match r (pv, s) = None"
  show "mt r (pv, s) = []"
  proof (cases "mt r (pv, s)")
    case (Cons t ts)
    then have "t \<in> set (mt r (pv, s))" by simp
    then obtain w where "s = w @ snd t" "den r pv w (snd t)" unfolding mt_iff_den by blast
    then have "length (snd t) < length s" using assms den_nullable by (cases w) auto
    with none Cons show ?thesis by (simp add: first_match_def)
  qed
qed (simp add: first_match_def)

lemma re_search_iff:
  "re_search r pv s \<longleftrightarrow> (\<exists>u w k. s = u @ w @ k \<and> den r (after pv u) w k)"
proof (induction s arbitrary: pv)
  case Nil
  show ?case by (simp add: mt_empty_iff)
next
  case (Cons c cs)
  have "(\<exists>u w k. c # cs = u @ w @ k \<and> den r (after pv u) w k) \<longleftrightarrow>
      (\<exists>w k. c # cs = w @ k \<and> den r pv w k)
      \<or> (\<exists>u w k. cs = u @ w @ k \<and> den r (after (Some c) u) w k)" (is "?L \<longleftrightarrow> ?A \<or> ?B")
  proof
    assume ?L
    then obtain u w k where *: "c # cs = u @ w @ k" "den r (after pv u) w k" by blast
    then show "?A \<or> ?B" by (cases u) auto
  next
    assume "?A \<or> ?B"
    then show ?L by (metis after_simps append_Cons append_Nil)
  qed
  then show ?case using Cons.IH by (auto simp: mt_empty_iff)
qed

lemma re_fullmatch_iff: "re_fullmatch r s \<longleftrightarrow> den r None s []"
proof -
  have "re_fullmatch r s \<longleftrightarrow> (\<exists>t\<in>set (mt r (None, s)). snd t = [])"
    by (simp add: re_fullmatch_def list_ex_iff)
  also have "\<dots> \<longleftrightarrow> den r None s []" by (auto simp: mt_iff_den Bex_def)
  finally show ?thesis .
qed

text \<open>Where nothing matches, a substitution changes nothing.\<close>

lemma re_sub_no_match: "\<not> re_search r pv s \<Longrightarrow> re_sub r f (pv, s) = s"
proof (induction s arbitrary: pv)
  case Nil
  then show ?case by simp
next
  case (Cons c cs)
  then have "first_match r (pv, c # cs) = None" by (simp add: first_match_def)
  with Cons show ?case by (simp add: re_sub_skip)
qed

text \<open>
  What a substitution copies: if every replacement starts with a character that \<open>w\<close> does not
  contain, a prefix \<open>w\<close> of the result is a prefix of the input, and the rest of the result is the
  substitution of the rest.
\<close>

lemma re_sub_copied_prefix:
  assumes f: "\<And>m. \<exists>z. f m = d # z"
  shows "prefix w (re_sub r f (pv, s)) \<Longrightarrow> d \<notin> set w \<Longrightarrow>
    \<exists>v. s = w @ v \<and> re_sub r f (pv, s) = w @ re_sub r f (after pv w, v)"
proof (induction w arbitrary: pv s)
  case (Cons x w)
  show ?case
  proof (cases "first_match r (pv, s)")
    case (Some t)
    obtain z where "f (consumed (pv, s) t) = d # z" using f by blast
    with Some Cons.prems show ?thesis by (auto simp: re_sub_match)
  next
    case None
    show ?thesis
    proof (cases s)
      case Nil
      with Cons.prems show ?thesis by simp
    next
      case (Cons c cs)
      with None have sub: "re_sub r f (pv, s) = c # re_sub r f (Some c, cs)"
        by (simp add: re_sub_skip)
      with Cons.prems have "x = c" "prefix w (re_sub r f (Some c, cs))" "d \<notin> set w" by auto
      with Cons.IH[of "Some c" cs] sub Cons show ?thesis by auto
    qed
  qed
qed simp

lemma set_re_sub: "set (re_sub r f (pv, s)) \<subseteq> set s \<union> (\<Union>m. set (f m))"
proof (induction s arbitrary: pv rule: length_induct)
  case (1 s)
  show ?case
  proof (cases "first_match r (pv, s)")
    case (Some t)
    obtain w where w: "s = w @ snd t" using first_match_Some[OF Some] by blast
    have "set (re_sub r f t) \<subseteq> set (snd t) \<union> (\<Union>m. set (f m))"
      using "1.IH" first_match_shorter[OF Some] by (metis prod.collapse snd_conv)
    moreover have "set s = set w \<union> set (snd t)" using w by (metis set_append)
    ultimately show ?thesis by (auto simp: re_sub_match[OF Some])
  next
    case None
    show ?thesis
    proof (cases s)
      case (Cons c cs)
      have "set (re_sub r f (Some c, cs)) \<subseteq> set cs \<union> (\<Union>m. set (f m))" using "1.IH" Cons by simp
      with None Cons show ?thesis by (auto simp: re_sub_skip)
    qed simp
  qed
qed

lemma den_star_cls: "den (Star (Cls p)) pv w k \<longleftrightarrow> list_all p w"
proof
  have "den R pv w k \<Longrightarrow> R = Star (Cls p) \<Longrightarrow> list_all p w" for R
    by (induction rule: den.induct) auto
  then show "den (Star (Cls p)) pv w k \<Longrightarrow> list_all p w" by blast
next
  show "list_all p w \<Longrightarrow> den (Star (Cls p)) pv w k"
  proof (induction w arbitrary: pv)
    case (Cons c w)
    then show ?case using den_star1[of "[c]" "Cls p" pv w k] by simp
  qed (rule den_star0)
qed

text \<open>A substitution whose replacement function can raise: the matches are those of \<open>findall\<close>.\<close>

definition re_sub_res :: "rx \<Rightarrow> (string \<Rightarrow> string res) \<Rightarrow> string \<Rightarrow> string res" where
  "re_sub_res r f s = bind_res (map_res f (re_findall r (None, s)))
     (\<lambda>_. Inr (re_sub r (\<lambda>m. case f m of Inr x \<Rightarrow> x | Inl _ \<Rightarrow> []) (None, s)))"

text \<open>\<open>findall\<close> of a repeated class returns the maximal runs of the class.\<close>

lemma star_iter_cls:
  "length s \<le> n \<Longrightarrow> \<exists>ts. star_iter n (mt (Cls p)) (pv, s) =
     (after pv (takeWhile p s), dropWhile p s) # ts"
proof (induction s arbitrary: n pv)
  case Nil
  then show ?case by (cases n) auto
next
  case (Cons c cs)
  then obtain m where m: "n = Suc m" "length cs \<le> m" by (cases n) auto
  obtain ts where "star_iter m (mt (Cls p)) (Some c, cs) =
      (after (Some c) (takeWhile p cs), dropWhile p cs) # ts"
    using Cons.IH[OF m(2)] by blast
  with m show ?case by (cases "p c") (simp_all del: mt.simps(2), simp_all add: mt.simps(2)[of p "(pv, c # cs)"])
qed

lemma first_match_plus_cls:
  "first_match (Plus (Cls p)) (pv, s) = (case s of [] \<Rightarrow> None
     | c # cs \<Rightarrow> if p c then Some (after (Some c) (takeWhile p cs), dropWhile p cs) else None)"
proof (cases s)
  case (Cons c cs)
  obtain ts where "star_iter (length cs) (mt (Cls p)) (Some c, cs) =
      (after (Some c) (takeWhile p cs), dropWhile p cs) # ts"
    using star_iter_cls[of cs "length cs"] by blast
  moreover have "length (dropWhile p cs) < Suc (length cs)"
    using length_dropWhile_le[of p cs] by simp
  ultimately show ?thesis using Cons by (simp add: first_match_def Plus_def)
qed (simp add: first_match_def Plus_def)

lemma findall_plus_cls: "re_findall (Plus (Cls p)) (pv, s) = runs p s"
proof (induction s arbitrary: pv rule: length_induct)
  case (1 s)
  show ?case
  proof (cases s)
    case Nil
    then show ?thesis by simp
  next
    case (Cons c cs)
    show ?thesis
    proof (cases "p c")
      case True
      have len: "length (dropWhile p cs) < length s"
        using Cons length_dropWhile_le[of p cs] by simp
      have take: "take (Suc (length cs) - length (dropWhile p cs)) (c # cs) = c # takeWhile p cs"
      proof -
        have "Suc (length cs) - length (dropWhile p cs) = length (c # takeWhile p cs)"
          by (metis add_diff_cancel_right' length_Cons length_append plus_nat.simps(2)
              takeWhile_dropWhile_id)
        then show ?thesis by (metis append_Cons append_eq_conv_conj takeWhile_dropWhile_id)
      qed
      have "re_findall (Plus (Cls p)) (pv, s) = (c # takeWhile p cs) # runs p (dropWhile p cs)"
        using True Cons len "1.IH" take
        by (subst re_findall.simps) (simp add: first_match_plus_cls consumed_def)
      then show ?thesis using True Cons by simp
    next
      case False
      with Cons "1.IH" show ?thesis
        by (subst re_findall.simps) (simp add: first_match_plus_cls)
    qed
  qed
qed

end
