(* ===== verification/Py_Codec.thy ===== *)
theory Py_Codec
  imports Rag_Prelude
begin

text \<open>
  The two codecs uploads pass through: strict UTF-8 and base64. A \<open>bytes\<close> value is a list of
  characters read as bytes. Decoding to code points is exact for every byte string; a text with a
  code point above U+00FF is outside the modelled strings and is reported as such, never as a
  Unicode error.
\<close>

type_synonym bytes = string

section \<open>UTF-8\<close>

definition cont_byte :: "nat \<Rightarrow> bool" where
  "cont_byte b = (128 \<le> b \<and> b < 192)"

definition utf8_error :: exn where
  "utf8_error = UnicodeError ''invalid utf-8''"

text \<open>The second byte of a three- or four-byte sequence: no overlong forms, no surrogates,
  nothing above U+10FFFF.\<close>

definition second3_ok :: "nat \<Rightarrow> nat \<Rightarrow> bool" where
  "second3_ok b0 b1 = (if b0 = 224 then 160 \<le> b1 \<and> b1 < 192
     else if b0 = 237 then 128 \<le> b1 \<and> b1 < 160 else cont_byte b1)"

definition second4_ok :: "nat \<Rightarrow> nat \<Rightarrow> bool" where
  "second4_ok b0 b1 = (if b0 = 240 then 144 \<le> b1 \<and> b1 < 192
     else if b0 = 244 then 128 \<le> b1 \<and> b1 < 144 else cont_byte b1)"

fun utf8_points :: "nat list \<Rightarrow> nat list res" where
  "utf8_points [] = Inr []"
| "utf8_points (b # bs) =
     (if b < 128 then bind_res (utf8_points bs) (\<lambda>ps. Inr (b # ps))
      else if 194 \<le> b \<and> b < 224 then
        (case bs of c # cs \<Rightarrow>
           if cont_byte c
           then bind_res (utf8_points cs) (\<lambda>ps. Inr (((b - 192) * 64 + (c - 128)) # ps))
           else Inl utf8_error
         | [] \<Rightarrow> Inl utf8_error)
      else if 224 \<le> b \<and> b < 240 then
        (case bs of c # d # cs \<Rightarrow>
           if second3_ok b c \<and> cont_byte d
           then bind_res (utf8_points cs)
                  (\<lambda>ps. Inr (((b - 224) * 4096 + (c - 128) * 64 + (d - 128)) # ps))
           else Inl utf8_error
         | _ \<Rightarrow> Inl utf8_error)
      else if 240 \<le> b \<and> b < 245 then
        (case bs of c # d # e # cs \<Rightarrow>
           if second4_ok b c \<and> cont_byte d \<and> cont_byte e
           then bind_res (utf8_points cs)
                  (\<lambda>ps. Inr (((b - 240) * 262144 + (c - 128) * 4096 + (d - 128) * 64 + (e - 128)) # ps))
           else Inl utf8_error
         | _ \<Rightarrow> Inl utf8_error)
      else Inl utf8_error)"

definition outside_model :: exn where
  "outside_model = OtherError ''code point above U+00FF''"

definition utf8_decode :: "bytes \<Rightarrow> string res" where
  "utf8_decode bs = bind_res (utf8_points (map ord bs)) (\<lambda>ps.
     if list_all (\<lambda>p. p < 256) ps then Inr (map char_of ps) else Inl outside_model)"

fun utf8_encode :: "string \<Rightarrow> bytes" where
  "utf8_encode [] = []"
| "utf8_encode (c # cs) =
     (if ord c < 128 then c # utf8_encode cs
      else char_of (192 + ord c div 64) # char_of (128 + ord c mod 64) # utf8_encode cs)"

lemma ord_less_256 [simp]: "ord c < (256::nat)"
  using range_nat_of_char by (metis atLeastLessThan_iff rangeI)

lemma ord_char_of [simp]: "n < 256 \<Longrightarrow> ord (char_of n) = (n::nat)"
  by simp

lemma utf8_points_encode: "utf8_points (map ord (utf8_encode s)) = Inr (map ord s)"
proof (induction s)
  case (Cons c s)
  show ?case
  proof (cases "ord c < (128::nat)")
    case True
    with Cons show ?thesis by simp
  next
    case False
    have lt: "ord c < (256::nat)" by simp
    let ?hi = "192 + ord c div 64 :: nat" and ?lo = "128 + ord c mod 64 :: nat"
    have hi: "194 \<le> ?hi" "?hi < 224" "?hi < 256" "\<not> ?hi < 128"
      using False lt less_mult_imp_div_less[of "ord c" 4 64] by auto
    have lo: "?lo < 256" "cont_byte ?lo" by (auto simp: cont_byte_def)
    have "(?hi - 192) * 64 + (?lo - 128) = ord c" by simp
    with False hi lo Cons show ?thesis by simp
  qed
qed simp

text \<open>Text that was encoded decodes to itself.\<close>

lemma utf8_roundtrip: "utf8_decode (utf8_encode s) = Inr s"
  by (simp add: utf8_decode_def utf8_points_encode list_all_iff comp_def)

section \<open>Base64\<close>

definition b64_char :: "nat \<Rightarrow> char" where
  "b64_char n =
     (if n < 26 then char_of (n + 65) else if n < 52 then char_of (n + 71)
      else if n < 62 then char_of (n - 4) else if n = 62 then CHR ''+'' else CHR ''/'')"

definition b64_val :: "char \<Rightarrow> nat option" where
  "b64_val c = (let n = ord c in
     if 65 \<le> n \<and> n \<le> 90 then Some (n - 65)
     else if 97 \<le> n \<and> n \<le> 122 then Some (n - 71)
     else if 48 \<le> n \<and> n \<le> 57 then Some (n + 4)
     else if n = 43 then Some 62 else if n = 47 then Some 63 else None)"

fun b64_encode :: "bytes \<Rightarrow> string" where
  "b64_encode [] = []"
| "b64_encode [a] = [b64_char (ord a div 4), b64_char (ord a mod 4 * 16), CHR ''='', CHR ''='']"
| "b64_encode [a, b] = [b64_char (ord a div 4), b64_char (ord a mod 4 * 16 + ord b div 16),
     b64_char (ord b mod 16 * 4), CHR ''='']"
| "b64_encode (a # b # c # bs) =
     b64_char (ord a div 4) # b64_char (ord a mod 4 * 16 + ord b div 16) #
     b64_char (ord b mod 16 * 4 + ord c div 64) # b64_char (ord c mod 64) # b64_encode bs"

text \<open>\<open>base64.b64decode(s, validate=True)\<close>: groups of four, padding in the last group only.\<close>

definition b64_error :: exn where
  "b64_error = ValueError ''invalid base64''"

fun b64_decode :: "string \<Rightarrow> bytes res" where
  "b64_decode [] = Inr []"
| "b64_decode (a # b # c # d # rest) =
     (case (b64_val a, b64_val b, b64_val c, b64_val d) of
        (Some w, Some x, Some y, Some z) \<Rightarrow>
          bind_res (b64_decode rest) (\<lambda>bs. Inr (char_of (w * 4 + x div 16) #
            char_of (x mod 16 * 16 + y div 4) # char_of (y mod 4 * 64 + z) # bs))
      | (Some w, Some x, Some y, None) \<Rightarrow>
          if d = CHR ''='' \<and> rest = []
          then Inr [char_of (w * 4 + x div 16), char_of (x mod 16 * 16 + y div 4)] else Inl b64_error
      | (Some w, Some x, None, None) \<Rightarrow>
          if c = CHR ''='' \<and> d = CHR ''='' \<and> rest = []
          then Inr [char_of (w * 4 + x div 16)] else Inl b64_error
      | _ \<Rightarrow> Inl b64_error)"
| "b64_decode _ = Inl b64_error"

lemma b64_val_char [simp]: "n < 64 \<Longrightarrow> b64_val (b64_char n) = Some n"
  by (auto simp: b64_val_def b64_char_def Let_def)

lemma b64_val_pad [simp]: "b64_val (CHR ''='') = None"
  by (simp add: b64_val_def)

lemma ord_div4_less [simp]: "ord c div 4 < (64::nat)"
  using ord_less_256[of c] by linarith

lemma ord_div16_less [simp]: "ord c div 16 < (16::nat)"
  using ord_less_256[of c] by linarith

lemma ord_div64_less [simp]: "ord c div 64 < (4::nat)"
  using ord_less_256[of c] by linarith

lemma b64_mix [simp]:
  fixes x y :: nat
  shows "y < 16 \<Longrightarrow> (x mod 4 * 16 + y) div 16 = x mod 4"
    and "y < 16 \<Longrightarrow> (x mod 4 * 16 + y) mod 16 = y"
    and "y < 4 \<Longrightarrow> (x mod 16 * 4 + y) div 4 = x mod 16"
    and "y < 4 \<Longrightarrow> (x mod 16 * 4 + y) mod 4 = y"
  by simp_all

lemma b64_mix_less [simp]:
  fixes x y :: nat
  shows "y < 16 \<Longrightarrow> x mod 4 * 16 + y < 64"
    and "y < 4 \<Longrightarrow> x mod 16 * 4 + y < 64"
  using mod_less_divisor[of 4 x] mod_less_divisor[of 16 x] by linarith+

lemma char_of_parts:
  "char_of (ord c div 4 * 4 + ord c mod 4) = c"
  "char_of (ord c div 16 * 16 + ord c mod 16) = c"
  "char_of (ord c div 64 * 64 + ord c mod 64) = c"
  by simp_all

text \<open>Bytes that were encoded decode to themselves, for every length of the last group.\<close>

lemma b64_roundtrip: "b64_decode (b64_encode bs) = Inr bs"
proof (induction bs rule: b64_encode.induct)
  case (2 a)
  have "x mod 4 * 16 div 16 = x mod 4" for x :: nat by simp
  then show ?case by simp
next
  case (3 a b)
  have "x mod 16 * 4 div 4 = x mod 16" for x :: nat by simp
  then show ?case by simp
qed simp_all

end
