(* ===== verification/Ingestion.thy ===== *)
theory Ingestion
  imports Py_Regex Py_Codec
begin

text \<open>
  The ingestion pipeline of \<open>rag.py\<close>: sanitisation of role labels, tokenisation, the
  overlapping token windows, and the content-addressed chunk records of one document. SHA-256,
  the wall clock and the UUID source are parameters.
\<close>

section \<open>Records\<close>

record chunk =
  chunk_text :: string
  chunk_document_id :: string
  chunk_index :: nat
  chunk_tenant_id :: string
  chunk_source :: string
  chunk_id :: string
  chunk_created_at :: int
  chunk_page :: "int option"

record ingest_result =
  ir_document_id :: string
  ir_content_sha256 :: string
  ir_chunks :: "chunk list"

record pipeline =
  chunk_size :: nat
  overlap :: nat

text \<open>\<open>RagIngestionPipeline.__init__\<close>\<close>

definition mk_pipeline :: "int \<Rightarrow> int \<Rightarrow> pipeline res" where
  "mk_pipeline sz ov =
     (if sz \<le> 0 \<or> ov < 0 \<or> ov \<ge> sz
      then Inl (ValueError ''chunk_size must be positive and overlap must be smaller'')
      else Inr \<lparr>chunk_size = nat sz, overlap = nat ov\<rparr>)"

definition default_pipeline :: pipeline where
  "default_pipeline = \<lparr>chunk_size = 400, overlap = 50\<rparr>"

section \<open>Sanitising and normalising\<close>

text \<open>\<open>(?im)^\s*(system|assistant|developer)\s*:\s*\<close>\<close>

definition LABEL_TAIL_RE :: rx where
  "LABEL_TAIL_RE = Seqs [Star (Cls is_space),
     Alts [LitI ''system'', LitI ''assistant'', LitI ''developer''],
     Star (Cls is_space), Lit '':'', Star (Cls is_space)]"

definition LABEL_RE :: rx where
  "LABEL_RE = Seq Bol LABEL_TAIL_RE"

definition untrusted_label :: string where
  "untrusted_label = ''[untrusted-document-label]: ''"

definition sanitize_document :: "string \<Rightarrow> string" where
  "sanitize_document t = re_sub LABEL_RE (\<lambda>_. untrusted_label) (None, t)"

definition normalize_identifier :: "string \<Rightarrow> string \<Rightarrow> string res" where
  "normalize_identifier v fld = (let n = strip v in
     if n = [] then Inl (ValueError (fld @ '' is required''))
     else if list_ex (\<lambda>c. ord c < 32) n then Inl (ValueError (fld @ '' contains control characters''))
     else Inr n)"

section \<open>Token windows\<close>

definition is_blank :: "char \<Rightarrow> bool" where
  "is_blank c = (c = CHR '' '' \<or> ord c = 9)"

text \<open>The lines, normalised, joined and cut into tokens, as \<open>_split\<close> does.\<close>

definition normalized_lines :: "string \<Rightarrow> string list" where
  "normalized_lines t =
     map (\<lambda>line. strip (re_sub (Plus (Cls is_blank)) (\<lambda>_. '' '') (None, line))) (splitlines t)"

definition split_tokens :: "string \<Rightarrow> string list" where
  "split_tokens t =
     re_findall (Plus (Cls (\<lambda>c. \<not> is_space c)))
       (None, join [char_of (10::nat)] (filter (\<lambda>l. l \<noteq> []) (normalized_lines t)))"

definition ends_sentence :: "string \<Rightarrow> bool" where
  "ends_sentence tok = (tok \<noteq> [] \<and> last tok \<in> set ''.!?:'')"

text \<open>\<open>max(xs, default=d)\<close>\<close>

fun max_default :: "nat list \<Rightarrow> nat \<Rightarrow> nat" where
  "max_default [] d = d"
| "max_default (x # xs) d = foldl max x xs"

definition boundaries :: "string list \<Rightarrow> nat \<Rightarrow> nat \<Rightarrow> nat list" where
  "boundaries toks start fin =
     map Suc (filter (\<lambda>i. ends_sentence (toks ! i)) [start..<fin])"

definition window_end :: "pipeline \<Rightarrow> string list \<Rightarrow> nat \<Rightarrow> nat" where
  "window_end P toks start = (let fin = min (start + chunk_size P) (length toks) in
     if fin < length toks
     then (let floor = start + max 1 (chunk_size P div 2); bs = boundaries toks start fin in
           max_default (filter (\<lambda>b. b \<ge> floor) bs) (max_default bs fin))
     else fin)"

definition next_start :: "pipeline \<Rightarrow> nat \<Rightarrow> nat \<Rightarrow> nat" where
  "next_start P start fin = max (fin - overlap P) (start + 1)"

definition slice :: "nat \<Rightarrow> nat \<Rightarrow> 'a list \<Rightarrow> 'a list" where
  "slice i j xs = take (j - i) (drop i xs)"

text \<open>The \<open>while\<close> loop of \<open>_split\<close>; it stops because \<open>start\<close> grows.\<close>

function split_loop :: "pipeline \<Rightarrow> string list \<Rightarrow> nat \<Rightarrow> string list" where
  "split_loop P toks start =
     (if start < length toks
      then (let fin = window_end P toks start in
            join '' '' (slice start fin toks) #
            (if fin = length toks then [] else split_loop P toks (next_start P start fin)))
      else [])"
  by pat_completeness auto
termination
  by (relation "measure (\<lambda>(P, toks, start). length toks - start)") (auto simp: next_start_def)

declare split_loop.simps [simp del]

definition split_text :: "pipeline \<Rightarrow> string \<Rightarrow> string list" where
  "split_text P t = (let toks = split_tokens t in if toks = [] then [] else split_loop P toks 0)"

section \<open>Documents\<close>

type_synonym segment = "int option \<times> string"

definition py_truthy :: "string option \<Rightarrow> bool" where
  "py_truthy s = (case s of None \<Rightarrow> False | Some x \<Rightarrow> x \<noteq> [])"

definition document_id_of :: "(string \<Rightarrow> string) \<Rightarrow> string option \<Rightarrow> string \<Rightarrow> string" where
  "document_id_of sha256 identity digest =
     (if py_truthy identity then take 24 (sha256 (utf8_encode (the identity @ [char_of (0::nat)] @ digest)))
      else take 24 digest)"

definition pieces_of :: "pipeline \<Rightarrow> segment list \<Rightarrow> (int option \<times> string) list" where
  "pieces_of P segments =
     concat (map (\<lambda>(page, t). map (Pair page) (split_text P (sanitize_document t))) segments)"

definition mk_chunks ::
  "(nat \<Rightarrow> string) \<Rightarrow> int \<Rightarrow> string \<Rightarrow> string \<Rightarrow> string \<Rightarrow> (int option \<times> string) list \<Rightarrow> chunk list" where
  "mk_chunks uuid now doc tenant filename ps =
     map (\<lambda>(i, page, piece). \<lparr>chunk_text = piece, chunk_document_id = doc, chunk_index = i,
         chunk_tenant_id = tenant, chunk_source = filename, chunk_id = uuid i,
         chunk_created_at = now, chunk_page = page\<rparr>) (enumerate 0 ps)"

text \<open>\<open>ingest_segments\<close>: \<open>sha256\<close> is \<open>hashlib.sha256(\<dots>).hexdigest()\<close> on the bytes.\<close>

definition ingest_segments ::
  "(string \<Rightarrow> string) \<Rightarrow> (nat \<Rightarrow> string) \<Rightarrow> int \<Rightarrow> pipeline \<Rightarrow> string \<Rightarrow> segment list \<Rightarrow>
   string \<Rightarrow> string \<Rightarrow> string option \<Rightarrow> ingest_result res" where
  "ingest_segments sha256 uuid now P original segments filename tenant identity =
     bind_res (normalize_identifier filename ''filename'') (\<lambda>fn.
     bind_res (normalize_identifier tenant ''tenant_id'') (\<lambda>tn.
       let digest = sha256 original; doc = document_id_of sha256 identity digest in
       Inr \<lparr>ir_document_id = doc, ir_content_sha256 = digest,
            ir_chunks = mk_chunks uuid now doc tn fn (pieces_of P segments)\<rparr>))"

section \<open>Tokenisation is splitting at white space\<close>

lemma line_break_space: "is_line_break c \<Longrightarrow> is_space c"
  by (auto simp: is_line_break_def is_space_def Let_def)

lemma blank_space: "is_blank c \<Longrightarrow> is_space c"
  by (auto simp: is_blank_def is_space_def Let_def)

lemma re_sub_plus_cls:
  "re_sub (Plus (Cls p)) f (pv, s) = takeWhile (\<lambda>c. \<not> p c) s @
     (case dropWhile (\<lambda>c. \<not> p c) s of [] \<Rightarrow> []
      | c # cs \<Rightarrow> f (c # takeWhile p cs) @
          re_sub (Plus (Cls p)) f (after (Some c) (takeWhile p cs), dropWhile p cs))"
proof (induction s arbitrary: pv)
  case (Cons c cs)
  show ?case
  proof (cases "p c")
    case True
    have "take (Suc (length cs) - length (dropWhile p cs)) (c # cs) = c # takeWhile p cs"
      by (metis Cons_eq_appendI add_diff_cancel_right' append_eq_conv_conj length_Cons length_append
          takeWhile_dropWhile_id)
    with True show ?thesis
      by (simp add: re_sub_match[of _ "(pv, c # cs)"] first_match_plus_cls consumed_def)
  next
    case False
    with Cons.IH show ?thesis by (simp add: re_sub_skip first_match_plus_cls)
  qed
qed simp

abbreviation visible :: "char \<Rightarrow> bool" where
  "visible c \<equiv> \<not> is_space c"

lemma runs_drop_blanks: "(\<And>c. p c \<Longrightarrow> is_space c) \<Longrightarrow> runs visible (dropWhile p s) = runs visible s"
  by (induction s) auto

lemma runs_collapse:
  assumes "\<And>c. p c \<Longrightarrow> is_space c"
  shows "runs visible (re_sub (Plus (Cls p)) (\<lambda>_. '' '') (pv, s)) = runs visible s"
proof (induction s arbitrary: pv rule: length_induct)
  case (1 s)
  let ?u = "takeWhile (\<lambda>c. \<not> p c) s"
  show ?case
  proof (cases "dropWhile (\<lambda>c. \<not> p c) s")
    case Nil
    then have "?u = s" by (metis append_Nil2 takeWhile_dropWhile_id)
    with Nil show ?thesis by (subst re_sub_plus_cls) (simp only: list.case append_Nil2)
  next
    case (Cons c cs)
    then have s: "s = ?u @ c # cs" and c: "p c"
      by (metis takeWhile_dropWhile_id, metis (mono_tags, lifting) dropWhile_eq_Cons_conv)
    have "length (dropWhile p cs) < length s"
      using s length_dropWhile_le[of p cs] by (metis le_imp_less_Suc length_Cons
          length_append trans_less_add2)
    then have "runs visible (re_sub (Plus (Cls p)) (\<lambda>_. '' '') (pv', dropWhile p cs))
        = runs visible cs" for pv'
      using "1.IH" runs_drop_blanks[of p cs] assms by simp
    moreover have "is_space (CHR '' '')" by (simp add: is_space_def)
    ultimately have "runs visible (re_sub (Plus (Cls p)) (\<lambda>_. '' '') (pv, s))
        = runs visible ?u @ runs visible cs"
      using Cons by (subst re_sub_plus_cls) (simp add: runs_sep)
    also have "\<dots> = runs visible s"
      using assms[OF c] runs_sep[of visible c ?u cs] s by simp
    finally show ?thesis .
  qed
qed

lemma runs_collapse_blanks: "runs visible (re_sub (Plus (Cls is_blank)) (\<lambda>_. '' '') (pv, s)) = runs visible s"
  by (rule runs_collapse) (rule blank_space)

lemma runs_rstrip: "runs visible (rstrip s) = runs visible s"
proof (induction s rule: rev_induct)
  case (snoc c s)
  then show ?case
    using runs_sep[of visible c s "[]"] by (cases "is_space c") (auto simp: rstrip_def)
qed (simp add: rstrip_def)

lemma runs_strip: "runs visible (strip s) = runs visible s"
  using runs_drop_blanks[of is_space s] by (simp add: strip_def runs_rstrip lstrip_def)

lemma runs_splitlines_aux:
  "concat (map (runs visible) (splitlines_aux acc s)) = runs visible (rev acc @ s)"
proof (induction acc s rule: splitlines_aux.induct)
  case (2 acc c)
  then show ?case using line_break_space[of c] runs_sep[of visible c "rev acc" "[]"] by auto
next
  case (3 acc c d cs)
  have cr: "ord c = (13::nat) \<Longrightarrow> is_space c" "ord d = (10::nat) \<Longrightarrow> is_space d"
    by (auto simp: is_space_def)
  show ?case
    using 3 line_break_space[of c] cr runs_sep[of visible c "rev acc" "d # cs"] by auto
qed auto

lemma runs_join: "is_space c \<Longrightarrow> runs visible (join [c] ls) = concat (map (runs visible) ls)"
  by (induction "[c]" ls rule: join.induct) (auto simp: runs_sep)

lemma concat_filter_nonempty:
  "f [] = [] \<Longrightarrow> concat (map f (filter (\<lambda>l. l \<noteq> []) ls)) = concat (map f ls)"
  by (induction ls) auto

text \<open>The line normalisation of \<open>_split\<close> does not change the tokens.\<close>

lemma split_tokens_eq: "split_tokens t = split_ws t"
proof -
  have nl: "is_space (char_of (10::nat))" by (simp add: is_space_def)
  have "split_tokens t = concat (map (runs visible) (filter (\<lambda>l. l \<noteq> []) (normalized_lines t)))"
    by (simp add: split_tokens_def findall_plus_cls runs_join[OF nl])
  also have "\<dots> = concat (map (runs visible) (normalized_lines t))"
    by (rule concat_filter_nonempty) simp
  also have "\<dots> = concat (map (runs visible) (splitlines t))"
    by (simp add: normalized_lines_def comp_def runs_strip runs_collapse_blanks)
  also have "\<dots> = split_ws t"
    using runs_splitlines_aux[of "[]" t] by (simp add: splitlines_def split_ws_def)
  finally show ?thesis .
qed

section \<open>The windows\<close>

lemma max_default_mem: "max_default xs d = d \<and> xs = [] \<or> max_default xs d \<in> set xs"
proof (cases xs)
  case (Cons x ys)
  have "foldl max x ys \<in> set (x # ys)"
    by (induction ys arbitrary: x) (auto simp: max_def)
  with Cons show ?thesis by simp
qed simp

lemma boundaries_bounds: "b \<in> set (boundaries toks i j) \<Longrightarrow> i < b \<and> b \<le> j"
  by (auto simp: boundaries_def)

lemma window_end_bounds:
  assumes "i < length toks" "0 < chunk_size P"
  shows "i < window_end P toks i" "window_end P toks i \<le> i + chunk_size P"
    "window_end P toks i \<le> length toks"
proof -
  define fin where "fin = min (i + chunk_size P) (length toks)"
  define bs where "bs = boundaries toks i fin"
  define ls where "ls = filter (\<lambda>b. b \<ge> i + max 1 (chunk_size P div 2)) bs"
  have fin: "i < fin" "fin \<le> i + chunk_size P" "fin \<le> length toks"
    using assms by (auto simp: fin_def)
  have bs: "i < b \<and> b \<le> fin" if "b \<in> set bs" for b
    using that boundaries_bounds unfolding bs_def by blast
  have inner: "i < max_default bs fin \<and> max_default bs fin \<le> fin"
    using max_default_mem[of bs fin] bs fin by auto
  have "set ls \<subseteq> set bs" by (auto simp: ls_def)
  then have outer: "i < max_default ls (max_default bs fin) \<and> max_default ls (max_default bs fin) \<le> fin"
    using max_default_mem[of ls "max_default bs fin"] bs inner by fastforce
  have "window_end P toks i = (if fin < length toks then max_default ls (max_default bs fin) else fin)"
    by (simp add: window_end_def Let_def fin_def bs_def ls_def)
  with outer fin show "i < window_end P toks i" "window_end P toks i \<le> i + chunk_size P"
    "window_end P toks i \<le> length toks" by (auto split: if_splits)
qed

text \<open>The index pairs behind the chunks.\<close>

function windows :: "pipeline \<Rightarrow> string list \<Rightarrow> nat \<Rightarrow> (nat \<times> nat) list" where
  "windows P toks start =
     (if start < length toks
      then (let fin = window_end P toks start in
            (start, fin) # (if fin = length toks then [] else windows P toks (next_start P start fin)))
      else [])"
  by pat_completeness auto
termination
  by (relation "measure (\<lambda>(P, toks, start). length toks - start)") (auto simp: next_start_def)

declare windows.simps [simp del]

lemma split_loop_windows:
  "split_loop P toks i = map (\<lambda>(a, b). join '' '' (slice a b toks)) (windows P toks i)"
proof (induction P toks i rule: windows.induct)
  case (1 P toks i)
  show ?case
  proof (cases "i < length toks")
    case True
    with 1 show ?thesis
      by (subst split_loop.simps, subst windows.simps) (simp add: Let_def)
  next
    case False
    then show ?thesis by (subst split_loop.simps, subst windows.simps) simp
  qed
qed

text \<open>
  A chain of windows from \<open>i\<close> to \<open>n\<close>: each is non-empty and at most \<open>k\<close> long, the next one
  starts later, but not after the end of the one before nor more than \<open>v\<close> before that end.
\<close>

fun window_chain :: "nat \<Rightarrow> nat \<Rightarrow> nat \<Rightarrow> nat \<Rightarrow> (nat \<times> nat) list \<Rightarrow> bool" where
  "window_chain k v n i [] = False"
| "window_chain k v n i [(a, b)] = (a = i \<and> a < b \<and> b \<le> a + k \<and> b = n)"
| "window_chain k v n i ((a, b) # w # ws) =
     (a = i \<and> a < b \<and> b \<le> a + k \<and> b < n \<and> a < fst w \<and> fst w \<le> b \<and> b \<le> fst w + v
      \<and> window_chain k v n (fst w) (w # ws))"

lemma windows_hd: "i < length toks \<Longrightarrow> \<exists>ws. windows P toks i = (i, window_end P toks i) # ws"
  by (subst windows.simps) (simp add: Let_def)

lemma windows_chain:
  "0 < chunk_size P \<Longrightarrow> i < length toks \<Longrightarrow>
     window_chain (chunk_size P) (overlap P) (length toks) i (windows P toks i)"
proof (induction P toks i rule: windows.induct)
  case (1 P toks i)
  let ?e = "window_end P toks i" and ?j = "next_start P i (window_end P toks i)"
  note b = window_end_bounds[OF "1.prems"(2,1)]
  show ?case
  proof (cases "?e = length toks")
    case True
    with "1.prems" b show ?thesis by (subst windows.simps) (simp add: Let_def)
  next
    case False
    have j: "i < ?j" "?j \<le> ?e" "?e \<le> ?j + overlap P" and lt: "?j < length toks"
      using b False by (auto simp: next_start_def)
    obtain ws where ws: "windows P toks ?j = (?j, window_end P toks ?j) # ws"
      using windows_hd[OF lt] by blast
    have "window_chain (chunk_size P) (overlap P) (length toks) ?j (windows P toks ?j)"
      using "1.IH" "1.prems" False lt by simp
    with ws j b False "1.prems" show ?thesis
      by (subst windows.simps) (simp add: Let_def)
  qed
qed

lemma window_chain_covers:
  "window_chain k v n i ws \<Longrightarrow> i \<le> x \<Longrightarrow> x < n \<Longrightarrow> \<exists>(a, b)\<in>set ws. a \<le> x \<and> x < b"
proof (induction k v n i ws rule: window_chain.induct)
  case (3 k v n i a b w ws)
  then show ?case by (cases "x < b") auto
qed auto

lemma mk_pipeline_Inr: "mk_pipeline sz ov = Inr P \<Longrightarrow> 0 < chunk_size P \<and> overlap P < chunk_size P"
  by (auto simp: mk_pipeline_def split: if_splits)

section \<open>No role label survives sanitising\<close>

lemma may_eat_label: "\<not> may_eat LABEL_TAIL_RE (CHR ''['')"
  by (simp add: LABEL_TAIL_RE_def is_space_def lower_char_def)

lemma ctx_free_label: "ctx_free LABEL_TAIL_RE"
  by (simp add: LABEL_TAIL_RE_def)

lemma not_nullable_label: "\<not> nullable LABEL_RE"
  by (simp add: LABEL_RE_def LABEL_TAIL_RE_def)

lemma den_label_iff: "den LABEL_RE pv w k \<longleftrightarrow> at_bol pv \<and> den LABEL_TAIL_RE pv w k"
  by (auto simp: LABEL_RE_def den_seq_iff)

lemma den_label_nonempty: "den LABEL_RE pv w k \<Longrightarrow> w \<noteq> []"
  using den_nullable not_nullable_label by blast

lemma untrusted_label_not_bol: "c \<in> set untrusted_label \<Longrightarrow> \<not> at_bol (Some c)"
  by (auto simp: untrusted_label_def at_bol_def)

lemma search_skip:
  "(\<And>c. c \<in> set u \<Longrightarrow> \<not> at_bol (Some c)) \<Longrightarrow> u \<noteq> [] \<Longrightarrow> mt LABEL_RE (pv, u @ v) = [] \<Longrightarrow>
   re_search LABEL_RE pv (u @ v) = re_search LABEL_RE (Some (last u)) v"
proof (induction u arbitrary: pv)
  case (Cons c u)
  show ?case
  proof (cases u)
    case Nil
    with Cons.prems show ?thesis by simp
  next
    case (Cons d u')
    have "\<not> at_bol (Some c)" using Cons.prems by simp
    then have "mt LABEL_RE (Some c, u @ v) = []"
      by (simp add: mt_empty_iff den_label_iff)
    with Cons Cons.IH[of "Some c"] Cons.prems show ?thesis by simp
  qed
qed simp

lemma sanitize_leaves_no_label:
  "(at_bol pv' \<longrightarrow> at_bol pv) \<Longrightarrow>
   \<not> re_search LABEL_RE pv' (re_sub LABEL_RE (\<lambda>_. untrusted_label) (pv, s))"
proof (induction s arbitrary: pv pv' rule: length_induct)
  case (1 s)
  let ?out = "\<lambda>c. re_sub LABEL_RE (\<lambda>_. untrusted_label) c"
  show ?case
  proof (cases "first_match LABEL_RE (pv, s)")
    case (Some t)
    have "mt LABEL_RE (pv', untrusted_label @ ?out t) = []"
    proof -
      have "den LABEL_RE pv' w k \<Longrightarrow> untrusted_label @ ?out t = w @ k \<Longrightarrow> False" for w k
        using den_label_nonempty[of pv' w k] den_chars[of LABEL_TAIL_RE pv' w k "CHR ''[''"]
          may_eat_label by (cases w) (auto simp: untrusted_label_def den_label_iff)
      then show ?thesis by (auto simp: mt_empty_iff)
    qed
    then have "re_search LABEL_RE pv' (untrusted_label @ ?out t)
        = re_search LABEL_RE (Some (last untrusted_label)) (?out t)"
      by (intro search_skip untrusted_label_not_bol) (auto simp: untrusted_label_def)
    moreover have "\<not> at_bol (Some (last untrusted_label))"
      by (simp add: untrusted_label_def at_bol_def)
    ultimately show ?thesis
      using "1.IH" first_match_shorter[OF Some] re_sub_match[OF Some] by (cases t) simp
  next
    case None
    show ?thesis
    proof (cases s)
      case Nil
      then show ?thesis by (auto simp: mt_empty_iff dest: den_label_nonempty)
    next
      case (Cons c cs)
      have out: "?out (pv, s) = c # ?out (Some c, cs)"
        using None Cons by (simp add: re_sub_skip)
      have none: "mt LABEL_RE (pv, s) = []"
        using None first_match_None[OF not_nullable_label] by simp
      have "den LABEL_RE pv' w k \<Longrightarrow> ?out (pv, s) = w @ k \<Longrightarrow> False" for w k
      proof -
        assume d: "den LABEL_RE pv' w k" and eq: "?out (pv, s) = w @ k"
        have "CHR ''['' \<notin> set w"
          using d den_chars may_eat_label by (auto simp: den_label_iff)
        moreover have "prefix w (?out (pv, s))" using eq by simp
        ultimately obtain k' where "s = w @ k'"
          using re_sub_copied_prefix[of "\<lambda>_. untrusted_label" "CHR ''[''"]
          by (metis untrusted_label_def)
        moreover have "den LABEL_RE pv w k'"
          using d "1.prems" den_ctx_free[OF _ ctx_free_label] by (auto simp: den_label_iff)
        ultimately show False using none by (auto simp: mt_empty_iff)
      qed
      then have "mt LABEL_RE (pv', ?out (pv, s)) = []" by (auto simp: mt_empty_iff)
      moreover have "\<not> re_search LABEL_RE (Some c) (?out (Some c, cs))"
        using "1.IH" Cons by simp
      ultimately show ?thesis using out by simp
    qed
  qed
qed

section \<open>Properties of the pipeline\<close>

lemma split_text_loop: "split_text P t = split_loop P (split_ws t) 0"
  by (simp add: split_text_def split_tokens_eq split_loop.simps[of P "[]"])


definition sample_text :: string where
  "sample_text = ''One two. Three four five six''"

lemma sample_tokens: "split_ws sample_text = [''One'', ''two.'', ''Three'', ''four'', ''five'', ''six'']"
  by (simp add: sample_text_def split_ws_def is_space_def)



lemma normalize_identifier_Inr_iff:
  "normalize_identifier v fld = Inr n \<longleftrightarrow>
     n = strip v \<and> strip v \<noteq> [] \<and> (\<forall>c\<in>set (strip v). \<not> ord c < 32)"
  by (auto simp: normalize_identifier_def list_ex_iff)

lemma mk_chunks_index: "map chunk_index (mk_chunks u n d t f ps) = [0..<length ps]"
  by (simp add: mk_chunks_def comp_def case_prod_unfold enumerate_eq_zip)

lemma length_mk_chunks [simp]: "length (mk_chunks u n d t f ps) = length ps"
  by (simp add: mk_chunks_def)

lemma mk_chunks_fields:
  assumes "c \<in> set (mk_chunks u n d t f ps)"
  shows "chunk_document_id c = d" "chunk_tenant_id c = t" "chunk_source c = f"
    "(chunk_page c, chunk_text c) \<in> set ps"
  using assms by (auto simp: mk_chunks_def in_set_enumerate_eq) (metis nth_mem)

text \<open>C17. What a successful ingestion returns: the digest of the original bytes, the document ID
  derived from it and the identity, and chunks numbered 0, 1, 2, \<dots> that all carry that ID and
  the trimmed tenant and file name, each cut from the sanitised text of a single page.\<close>

theorem ingest_segments_result:
  assumes "ingest_segments sha256 uuid now P original segments filename tenant identity = Inr r"
  shows "ir_content_sha256 r = sha256 original
    \<and> ir_document_id r = document_id_of sha256 identity (sha256 original)
    \<and> map chunk_index (ir_chunks r) = [0..<length (ir_chunks r)]
    \<and> (\<forall>c\<in>set (ir_chunks r). chunk_document_id c = ir_document_id r
        \<and> chunk_tenant_id c = strip tenant \<and> chunk_source c = strip filename
        \<and> (\<exists>t. (chunk_page c, t) \<in> set segments
              \<and> chunk_text c \<in> set (split_text P (sanitize_document t))))"
proof -
  let ?d = "document_id_of sha256 identity (sha256 original)"
  have r: "r = \<lparr>ir_document_id = ?d, ir_content_sha256 = sha256 original,
      ir_chunks = mk_chunks uuid now ?d (strip tenant) (strip filename) (pieces_of P segments)\<rparr>"
    using assms by (auto simp: ingest_segments_def normalize_identifier_Inr_iff Let_def)
  have "\<exists>t. (p, t) \<in> set segments \<and> x \<in> set (split_text P (sanitize_document t))"
    if "(p, x) \<in> set (pieces_of P segments)" for p x
    using that by (auto simp: pieces_of_def)
  with r show ?thesis using mk_chunks_fields mk_chunks_index by fastforce
qed

lemma ingest_segments_result_witness:
  "map chunk_index (ir_chunks \<lparr>ir_document_id = ''ab'', ir_content_sha256 = ''ab'', ir_chunks =
      mk_chunks (\<lambda>_. ''u'') 0 ''ab'' ''acme'' ''f'' [(Some 1, ''x''), (Some 2, ''y'')]\<rparr>) = [0, 1]"
proof -
  have tok: "split_tokens ''x'' = [''x'']" "split_tokens ''y'' = [''y'']"
    by (simp_all add: split_tokens_eq split_ws_def is_space_def)
  have san: "sanitize_document ''x'' = ''x''" "sanitize_document ''y'' = ''y''"
    unfolding sanitize_document_def
    by (rule re_sub_no_match;
        simp add: LABEL_RE_def LABEL_TAIL_RE_def at_bol_def is_space_def lower_char_def)+
  have "pieces_of default_pipeline [(Some 1, ''x''), (Some 2, ''y'')] = [(Some 1, ''x''), (Some 2, ''y'')]"
    by (simp add: pieces_of_def san split_text_def tok split_loop.simps window_end_def
        default_pipeline_def slice_def)
  then have "ingest_segments (\<lambda>_. ''ab'') (\<lambda>_. ''u'') 0 default_pipeline ''xy''
      [(Some 1, ''x''), (Some 2, ''y'')] ''f '' '' acme'' None
    = Inr \<lparr>ir_document_id = ''ab'', ir_content_sha256 = ''ab'', ir_chunks =
        mk_chunks (\<lambda>_. ''u'') 0 ''ab'' ''acme'' ''f'' [(Some 1, ''x''), (Some 2, ''y'')]\<rparr>"
    by (simp add: ingest_segments_def normalize_identifier_def document_id_of_def py_truthy_def
        py_str is_space_def)
  from ingest_segments_result[OF this] show ?thesis by simp
qed

text \<open>Ingestion refuses exactly the blank identifiers and those that contain control
  characters once trimmed; every other input yields a result.\<close>

theorem ingest_segments_error_iff:
  "(\<exists>e. ingest_segments sha256 uuid now P original segments filename tenant identity = Inl e)
   \<longleftrightarrow> list_all is_space filename \<or> list_all is_space tenant
     \<or> (\<exists>c\<in>set (strip filename) \<union> set (strip tenant). ord c < 32)"
proof -
  have norm: "(\<exists>e. normalize_identifier v fld = Inl e) \<longleftrightarrow>
      list_all is_space v \<or> (\<exists>c\<in>set (strip v). ord c < 32)" for v fld
    by (auto simp: normalize_identifier_def Let_def list_ex_iff strip_empty_iff)
  have "(\<exists>e. ingest_segments sha256 uuid now P original segments filename tenant identity = Inl e)
     \<longleftrightarrow> (\<exists>e. normalize_identifier filename ''filename'' = Inl e)
       \<or> (\<exists>e. normalize_identifier tenant ''tenant_id'' = Inl e)"
    by (cases "normalize_identifier filename ''filename''";
        cases "normalize_identifier tenant ''tenant_id''") (auto simp: ingest_segments_def)
  with norm show ?thesis by auto
qed

text \<open>A weakness of the window rule: when the only sentence end of a window comes early, the
  overlap exceeds what the window advanced, so the next window starts one token later and ends at
  the same place. Its chunk is a piece of the chunk before it and adds nothing. With
  \<open>chunk_size = 6\<close> and \<open>overlap = 2\<close>, ten tokens give such a chunk.\<close>

theorem split_text_redundant_chunk:
  "split_text \<lparr>chunk_size = 6, overlap = 2\<rparr> ''a b. c d e f g h i j''
     = [''a b.'', ''b.'', ''c d e f g h'', ''g h i j'']"
proof -
  have tok: "split_tokens ''a b. c d e f g h i j''
      = [''a'', ''b.'', ''c'', ''d'', ''e'', ''f'', ''g'', ''h'', ''i'', ''j'']"
    by (simp add: split_tokens_eq split_ws_def is_space_def)
  show ?thesis
    by (simp add: split_text_def tok split_loop.simps window_end_def next_start_def
        boundaries_def ends_sentence_def slice_def upt_rec numeral_eq_Suc Let_def)
qed

end
