(* ===== verification/Permissions.thy ===== *)
theory Permissions
  imports Rag_Prelude
begin

text \<open>
  Principals and document ACLs (\<open>permissions.py\<close>): who is calling, how a client-supplied group
  list is normalised, and which documents a caller may read.
\<close>

record principal =
  p_tenant_id :: string
  p_user_id :: string
  p_groups :: "string fset"

text \<open>\<open>sorted(principal.groups)\<close>, the list every store operation is given.\<close>

definition caller_groups :: "principal \<Rightarrow> string list" where
  "caller_groups p = sorted_list_of_fset (p_groups p)"

lemma set_caller_groups [simp]: "set (caller_groups p) = fset (p_groups p)"
  by (simp add: caller_groups_def)

fun group_name :: "json \<Rightarrow> string option" where
  "group_name (JStr g) = (if strip g = [] then None else Some (strip g))"
| "group_name _ = None"

definition normalize_groups :: "json \<Rightarrow> string list res" where
  "normalize_groups v = (case v of
       JNull \<Rightarrow> Inr []
     | JList gs \<Rightarrow>
         if list_all (\<lambda>g. group_name g \<noteq> None) gs
         then Inr (sort (remdups (map (the \<circ> group_name) gs)))
         else Inl (ValueError ''allowed_groups must be a list of non-empty strings'')
     | _ \<Rightarrow> Inl (ValueError ''allowed_groups must be a list of non-empty strings''))"

text \<open>An empty ACL is tenant-wide; otherwise the caller needs one shared group.\<close>

definition can_read_groups :: "string list option \<Rightarrow> principal \<Rightarrow> bool" where
  "can_read_groups allowed p =
     (let gs = (case allowed of None \<Rightarrow> [] | Some a \<Rightarrow> a) in
      gs = [] \<or> list_ex (\<lambda>g. g |\<in>| p_groups p) gs)"

definition can_read :: "string option \<Rightarrow> string list option \<Rightarrow> principal \<Rightarrow> bool" where
  "can_read row_tenant row_groups p = (row_tenant = Some (p_tenant_id p) \<and> can_read_groups row_groups p)"

section \<open>Group visibility\<close>

text \<open>The rule every implementation of the ACL check is compared with.\<close>

definition acl_admits :: "string set \<Rightarrow> string set \<Rightarrow> bool" where
  "acl_admits allowed groups = (allowed = {} \<or> allowed \<inter> groups \<noteq> {})"

lemma can_read_groups_iff [acl]:
  "can_read_groups (Some a) p \<longleftrightarrow> acl_admits (set a) (fset (p_groups p))"
  by (auto simp: can_read_groups_def acl_admits_def list_ex_iff)

lemma can_read_groups_None [simp]: "can_read_groups None p"
  by (simp add: can_read_groups_def)

lemma acl_admits_empty [simp]: "acl_admits {} g"
  by (simp add: acl_admits_def)

lemma acl_admits_mono: "acl_admits a g \<Longrightarrow> g \<subseteq> h \<Longrightarrow> acl_admits a h"
  by (auto simp: acl_admits_def)

lemma group_name_Some: "group_name j = Some g \<Longrightarrow> g \<noteq> [] \<and> strip g = g"
  by (cases j) (auto split: if_splits)

lemma normalize_groups_sorted:
  "normalize_groups v = Inr gs \<Longrightarrow>
     sorted gs \<and> distinct gs \<and> (\<forall>g\<in>set gs. g \<noteq> [] \<and> strip g = g)"
proof (cases v)
  case (JList js)
  assume "normalize_groups v = Inr gs"
  with JList have all: "\<forall>j\<in>set js. group_name j \<noteq> None"
    and gs: "gs = sort (remdups (map (the \<circ> group_name) js))"
    by (auto simp: normalize_groups_def list_all_iff split: if_splits)
  have "g \<noteq> [] \<and> strip g = g" if "g \<in> set gs" for g
  proof -
    obtain j where "j \<in> set js" "g = the (group_name j)" using \<open>g \<in> set gs\<close> gs by auto
    with all group_name_Some show ?thesis by (metis option.collapse)
  qed
  with gs show ?thesis by auto
qed (auto simp: normalize_groups_def)

end
