(* ===== verification/Auth.thy ===== *)
theory Auth
  imports Permissions Py_Codec
begin

text \<open>
  API keys (\<open>auth.py\<close>): the server-side map from key digests to principals, how it is built
  from JSON entries or from the environment, and authentication by digest. SHA-256 and the JSON
  and file readers are parameters; \<open>rep\<close> is Python's \<open>str\<close> on floats, lists and objects.
\<close>

type_synonym key_store = "(string \<times> principal) list"

definition DEVELOPMENT_KEY :: string where
  "DEVELOPMENT_KEY = ''local-development-key''"

definition hash_key :: "(bytes \<Rightarrow> string) \<Rightarrow> string \<Rightarrow> string" where
  "hash_key sha256 key = sha256 (utf8_encode key)"

definition mk_key_store :: "key_store \<Rightarrow> key_store res" where
  "mk_key_store m = (if m = [] then Inl (ValueError ''at least one API key must be configured'') else Inr m)"

definition single_key :: "(bytes \<Rightarrow> string) \<Rightarrow> string \<Rightarrow> string \<Rightarrow> key_store res" where
  "single_key sha256 key tenant =
     mk_key_store [(hash_key sha256 key,
       \<lparr>p_tenant_id = tenant, p_user_id = ''api'', p_groups = {||}\<rparr>)]"

definition is_hex_digest :: "string \<Rightarrow> bool" where
  "is_hex_digest d = (length d = 64 \<and> list_all (\<lambda>c. c \<in> set ''0123456789abcdef'') d)"

fun str_list :: "json \<Rightarrow> string list option" where
  "str_list (JList js) =
     (if list_all (\<lambda>j. jstr j \<noteq> None) js then Some (map (the \<circ> jstr) js) else None)"
| "str_list _ = None"

text \<open>One round of the loop of \<open>from_entries\<close>.\<close>

definition entry_key :: "(json \<Rightarrow> string) \<Rightarrow> jobj \<Rightarrow> string" where
  "entry_key rep e = lower (json_str rep (jget_or e ''key_sha256'' (JStr [])))"

definition entry_field :: "(json \<Rightarrow> string) \<Rightarrow> jobj \<Rightarrow> string \<Rightarrow> string" where
  "entry_field rep e k = strip (json_str rep (jget_or e k (JStr [])))"

definition add_entry :: "(json \<Rightarrow> string) \<Rightarrow> key_store \<Rightarrow> json \<Rightarrow> key_store res" where
  "add_entry rep ps j = (case j of
       JObj e \<Rightarrow>
         (let digest = entry_key rep e; tenant = entry_field rep e ''tenant_id'';
              user = entry_field rep e ''user_id'' in
          if \<not> is_hex_digest digest
          then Inl (ValueError ''key_sha256 must be a 64-character hex digest'')
          else if tenant = [] \<or> user = []
          then Inl (ValueError ''tenant_id and user_id are required for every key'')
          else case str_list (jget_or e ''groups'' (JList [])) of
            None \<Rightarrow> Inl (ValueError ''groups must be a list of strings'')
          | Some gs \<Rightarrow>
              if map_of ps digest \<noteq> None then Inl (ValueError ''duplicate API key digest'')
              else Inr (ps @ [(digest, \<lparr>p_tenant_id = tenant, p_user_id = user,
                                        p_groups = fset_of_list gs\<rparr>)]))
     | _ \<Rightarrow> Inl (ValueError ''each API key entry must be an object''))"

fun add_entries :: "(json \<Rightarrow> string) \<Rightarrow> key_store \<Rightarrow> json list \<Rightarrow> key_store res" where
  "add_entries rep ps [] = Inr ps"
| "add_entries rep ps (j # js) = bind_res (add_entry rep ps j) (\<lambda>qs. add_entries rep qs js)"

definition from_entries :: "(json \<Rightarrow> string) \<Rightarrow> json \<Rightarrow> key_store res" where
  "from_entries rep v = (case v of
       JList js \<Rightarrow> bind_res (add_entries rep [] js) mk_key_store
     | _ \<Rightarrow> Inl (ValueError ''API key configuration must be a JSON list''))"

text \<open>\<open>environ.get(k) or default\<close>: an unset and an empty variable are both falsy.\<close>

definition env_or :: "(string \<rightharpoonup> string) \<Rightarrow> string \<Rightarrow> string \<Rightarrow> string" where
  "env_or env k d = (case env k of None \<Rightarrow> d | Some v \<Rightarrow> if v = [] then d else v)"

definition from_environment ::
  "(bytes \<Rightarrow> string) \<Rightarrow> (json \<Rightarrow> string) \<Rightarrow> (string \<Rightarrow> json res) \<Rightarrow> (string \<Rightarrow> string res) \<Rightarrow>
   (string \<rightharpoonup> string) \<Rightarrow> key_store res" where
  "from_environment sha256 rep loads read_text env =
     (let production = (case env ''APP_ENV'' of None \<Rightarrow> False | Some v \<Rightarrow> v = ''production'') in
      if env_or env ''RAG_API_KEYS_FILE'' [] \<noteq> []
      then bind_res (read_text (env_or env ''RAG_API_KEYS_FILE'' []))
             (\<lambda>t. bind_res (loads t) (from_entries rep))
      else if env_or env ''RAG_API_KEYS_JSON'' [] \<noteq> []
      then (case loads (env_or env ''RAG_API_KEYS_JSON'' []) of
              Inl _ \<Rightarrow> Inl (ValueError ''RAG_API_KEYS_JSON is not valid JSON'')
            | Inr v \<Rightarrow> from_entries rep v)
      else (let key = env_or env ''RAG_API_KEY'' DEVELOPMENT_KEY in
            if production \<and> key = DEVELOPMENT_KEY
            then Inl (RuntimeError ''set RAG_API_KEYS_JSON, RAG_API_KEYS_FILE, or a non-default RAG_API_KEY in production'')
            else single_key sha256 key (strip (env_or env ''RAG_TENANT_ID'' ''default''))))"

definition authenticate :: "(bytes \<Rightarrow> string) \<Rightarrow> key_store \<Rightarrow> string option \<Rightarrow> principal option" where
  "authenticate sha256 ks presented = (case presented of
       None \<Rightarrow> None
     | Some k \<Rightarrow> if k = [] then None else map_of ks (hash_key sha256 k))"

section \<open>What a configured store contains\<close>

text \<open>The principal an entry stands for.\<close>

definition entry_grants :: "(json \<Rightarrow> string) \<Rightarrow> jobj \<Rightarrow> string \<Rightarrow> principal \<Rightarrow> bool" where
  "entry_grants rep e digest p \<longleftrightarrow>
     digest = entry_key rep e \<and> is_hex_digest digest
     \<and> p_tenant_id p = entry_field rep e ''tenant_id'' \<and> p_tenant_id p \<noteq> []
     \<and> p_user_id p = entry_field rep e ''user_id'' \<and> p_user_id p \<noteq> []
     \<and> (\<exists>gs. str_list (jget_or e ''groups'' (JList [])) = Some gs \<and> fset (p_groups p) = set gs)"

lemma add_entry_Inr:
  assumes "add_entry rep ps j = Inr qs"
  shows "\<exists>e d p. j = JObj e \<and> entry_grants rep e d p \<and> d \<notin> fst ` set ps \<and> qs = ps @ [(d, p)]"
proof -
  obtain e where j: "j = JObj e" using assms by (cases j) (auto simp: add_entry_def)
  obtain gs where gs: "str_list (jget_or e ''groups'' (JList [])) = Some gs"
    using assms j by (auto simp: add_entry_def split: if_splits option.splits)
  let ?p = "\<lparr>p_tenant_id = entry_field rep e ''tenant_id'', p_user_id = entry_field rep e ''user_id'',
      p_groups = fset_of_list gs\<rparr>"
  have "is_hex_digest (entry_key rep e)" "entry_field rep e ''tenant_id'' \<noteq> []"
    "entry_field rep e ''user_id'' \<noteq> []" "map_of ps (entry_key rep e) = None"
    "qs = ps @ [(entry_key rep e, ?p)]"
    using assms j gs by (auto simp: add_entry_def simp del: str_list.simps split: if_splits)
  moreover have "entry_grants rep e (entry_key rep e) ?p"
    using calculation gs by (simp add: entry_grants_def fset_of_list.rep_eq del: str_list.simps)
  ultimately show ?thesis using j by (metis map_of_eq_None_iff)
qed

lemma add_entries_Inr:
  assumes "add_entries rep ps js = Inr qs" "distinct (map fst ps)"
  shows "distinct (map fst qs) \<and>
    (\<forall>d p. (d, p) \<in> set qs \<longrightarrow> (d, p) \<in> set ps \<or> (\<exists>e. JObj e \<in> set js \<and> entry_grants rep e d p))"
  using assms
proof (induction js arbitrary: ps)
  case (Cons j js)
  obtain ps' where ps': "add_entry rep ps j = Inr ps'" and rest: "add_entries rep ps' js = Inr qs"
    using Cons.prems by auto
  obtain e d' p' where j: "j = JObj e" "entry_grants rep e d' p'" "d' \<notin> fst ` set ps"
    "ps' = ps @ [(d', p')]"
    using add_entry_Inr[OF ps'] by blast
  have dist: "distinct (map fst ps')" using j Cons.prems by auto
  have IH: "distinct (map fst qs)"
    "\<And>d p. (d, p) \<in> set qs \<Longrightarrow> (d, p) \<in> set ps' \<or> (\<exists>e. JObj e \<in> set js \<and> entry_grants rep e d p)"
    using Cons.IH[OF rest dist] by auto
  show ?case
  proof (intro conjI allI impI)
    fix d p assume "(d, p) \<in> set qs"
    from IH(2)[OF this] j
    show "(d, p) \<in> set ps \<or> (\<exists>e. JObj e \<in> set (j # js) \<and> entry_grants rep e d p)" by auto
  qed (rule IH(1))
qed auto


definition sample_entry :: jobj where
  "sample_entry = [(''key_sha256'', JStr (replicate 64 (CHR ''a''))), (''tenant_id'', JStr ''acme''),
     (''user_id'', JStr ''alice''), (''groups'', JList [JStr ''hr''])]"

definition sample_principal :: principal where
  "sample_principal = \<lparr>p_tenant_id = ''acme'', p_user_id = ''alice'', p_groups = fset_of_list [''hr'']\<rparr>"

lemma sample_entries:
  "from_entries (\<lambda>_. []) (JList [JObj sample_entry])
     = Inr [(replicate 64 (CHR ''a''), sample_principal)]"
  by (simp add: from_entries_def add_entry_def sample_entry_def entry_key_def entry_field_def
      jget_or_def is_hex_digest_def sample_principal_def mk_key_store_def lower_def lower_char_def
      py_str is_space_def list_all_iff map_replicate_const)


text \<open>In production the built-in development key is never the configured key: when no key
  file or inline list is set, the store that \<open>from_environment\<close> returns holds one key, which is
  the non-empty \<open>RAG_API_KEY\<close> and not the development key, bound to the configured tenant
  without groups; with \<open>RAG_API_KEY\<close> unset, empty or equal to the development key it fails.\<close>

theorem from_environment_production:
  assumes "env ''APP_ENV'' = Some ''production''"
    and "env_or env ''RAG_API_KEYS_FILE'' [] = []" and "env_or env ''RAG_API_KEYS_JSON'' [] = []"
  shows "from_environment sha256 rep loads read_text env = Inr ks \<longleftrightarrow>
    (\<exists>key. env ''RAG_API_KEY'' = Some key \<and> key \<noteq> [] \<and> key \<noteq> DEVELOPMENT_KEY
      \<and> ks = [(hash_key sha256 key, \<lparr>p_tenant_id = strip (env_or env ''RAG_TENANT_ID'' ''default''),
            p_user_id = ''api'', p_groups = {||}\<rparr>)])"
proof -
  have "from_environment sha256 rep loads read_text env = Inr ks \<longleftrightarrow>
     env_or env ''RAG_API_KEY'' DEVELOPMENT_KEY \<noteq> DEVELOPMENT_KEY
     \<and> ks = [(hash_key sha256 (env_or env ''RAG_API_KEY'' DEVELOPMENT_KEY),
          \<lparr>p_tenant_id = strip (env_or env ''RAG_TENANT_ID'' ''default''),
            p_user_id = ''api'', p_groups = {||}\<rparr>)]"
    using assms by (auto simp: from_environment_def single_key_def mk_key_store_def)
  moreover have "env_or env ''RAG_API_KEY'' DEVELOPMENT_KEY \<noteq> DEVELOPMENT_KEY \<longleftrightarrow>
     (\<exists>key. env ''RAG_API_KEY'' = Some key \<and> key \<noteq> [] \<and> key \<noteq> DEVELOPMENT_KEY)"
    by (auto simp: env_or_def split: option.splits)
  ultimately show ?thesis by (auto simp: env_or_def split: option.splits)
qed

lemma from_environment_production_witness:
  "from_environment (\<lambda>_. ''d'') (\<lambda>_. []) (\<lambda>_. Inl URLError) (\<lambda>_. Inl URLError)
      [''APP_ENV'' \<mapsto> ''production'', ''RAG_API_KEY'' \<mapsto> ''k1''] = Inr
      [(''d'', \<lparr>p_tenant_id = ''default'', p_user_id = ''api'', p_groups = {||}\<rparr>)]
   \<and> (\<exists>key. [''APP_ENV'' \<mapsto> ''production'', ''RAG_API_KEY'' \<mapsto> ''k1''] ''RAG_API_KEY'' = Some key
        \<and> key \<noteq> DEVELOPMENT_KEY)"
proof -
  let ?env = "[''APP_ENV'' \<mapsto> ''production'', ''RAG_API_KEY'' \<mapsto> ''k1'']"
  have "from_environment (\<lambda>_. ''d'') (\<lambda>_. []) (\<lambda>_. Inl URLError) (\<lambda>_. Inl URLError) ?env = Inr
      [(''d'', \<lparr>p_tenant_id = ''default'', p_user_id = ''api'', p_groups = {||}\<rparr>)]"
    by (subst from_environment_production)
      (auto simp: env_or_def DEVELOPMENT_KEY_def hash_key_def py_str is_space_def)
  then show ?thesis by (auto simp: DEVELOPMENT_KEY_def)
qed

end
