(* ===== verification/Query.thy ===== *)
theory Query
  imports Ingestion "HOL-Library.Multiset"
begin

text \<open>
  Query validation, lexical retrieval, the evidence gates and the extractive answer of
  \<open>query.py\<close>. A \<open>Counter\<close> is a multiset of terms; scores are real numbers.
\<close>

section \<open>Records\<close>

record citation =
  cit_document_id :: string
  cit_source :: string
  cit_chunk_index :: nat
  cit_score :: real
  cit_excerpt :: string

record query_result =
  qr_answer :: string
  qr_citations :: "citation list"
  qr_request_id :: string
  qr_grounded :: bool

record query_pipeline =
  qp_chunks :: "chunk list"
  top_k :: nat
  min_score :: real
  relative_score :: real
  max_query_length :: nat

type_synonym scored = "chunk \<times> real"

section \<open>Terms and similarity\<close>

definition STOPWORD_TEXT :: string where
  "STOPWORD_TEXT =
     ''a an and are as at be been but by can could did do does for from had has have '' @
     ''how i if in into is it its me my of on or our so than that the their them then '' @
     ''there these they this to was we were what when where which who why will with '' @
     ''would you your ''"

definition STOPWORDS :: "string list" where
  "STOPWORDS = split_ws STOPWORD_TEXT"

text \<open>\<open>TOKEN_RE.findall\<close>\<close>

definition tokens_of :: "string \<Rightarrow> string list" where
  "tokens_of t = re_findall (Plus (Cls is_ascii_alnum)) (None, t)"

definition terms :: "string \<Rightarrow> string multiset" where
  "terms t = mset (filter (\<lambda>w. w \<notin> set STOPWORDS) (tokens_of (lower t)))"

definition norm2 :: "string multiset \<Rightarrow> nat" where
  "norm2 m = (\<Sum>w\<in>set_mset m. count m w * count m w)"

definition cosine :: "string multiset \<Rightarrow> string multiset \<Rightarrow> real" where
  "cosine l r =
     (let numerator = (\<Sum>w\<in>set_mset l \<inter> set_mset r. count l w * count r w);
          left_norm = sqrt (real (norm2 l)); right_norm = sqrt (real (norm2 r)) in
      if left_norm \<noteq> 0 \<and> right_norm \<noteq> 0 then real numerator / (left_norm * right_norm) else 0)"

section \<open>Validation\<close>

definition any_but_newline :: rx where
  "any_but_newline = Cls (\<lambda>c. ord c \<noteq> 10)"

definition INJECTION_PATTERNS :: "rx list" where
  "INJECTION_PATTERNS =
    [Seqs [LitI ''ignore '', Alts [LitI ''all'', LitI ''any'', LitI ''the''],
       LitI '' previous instructions''],
     Seqs [LitI ''reveal '', Opt (LitI ''the ''), Alts [LitI ''system'', LitI ''developer''],
       LitI '' prompt''],
     Seqs [LitI ''print'', Star any_but_newline,
       Alts [Seqs [LitI ''api'', Opt (Cls (\<lambda>c. c \<in> set ''_ -'')), LitI ''key''],
             LitI ''secret'', LitI ''password'']]]"

definition mk_query_pipeline ::
  "chunk list \<Rightarrow> int \<Rightarrow> real \<Rightarrow> real \<Rightarrow> int \<Rightarrow> query_pipeline res" where
  "mk_query_pipeline cs k ms rel maxlen =
     (if k \<le> 0 then Inl (ValueError ''top_k must be positive'')
      else if \<not> (0 \<le> ms \<and> ms \<le> 1) then Inl (ValueError ''min_score must be between 0 and 1'')
      else if \<not> (0 \<le> rel \<and> rel \<le> 1) then Inl (ValueError ''relative_score must be between 0 and 1'')
      else if maxlen \<le> 0 then Inl (ValueError ''max_query_length must be positive'')
      else Inr \<lparr>qp_chunks = cs, top_k = nat k, min_score = ms, relative_score = rel,
                max_query_length = nat maxlen\<rparr>)"

definition validate :: "query_pipeline \<Rightarrow> string \<Rightarrow> string res" where
  "validate Q question = (let safe = strip question in
     if safe = [] \<or> length safe > max_query_length Q
     then Inl (UnsafeQueryError ''query is empty or exceeds the configured length limit'')
     else if list_ex (\<lambda>p. re_search p None safe) INJECTION_PATTERNS
     then Inl (UnsafeQueryError ''query matched a prompt-injection policy'')
     else Inr safe)"

definition validate_query :: "query_pipeline \<Rightarrow> string \<Rightarrow> string \<Rightarrow> string res" where
  "validate_query Q question tenant =
     (if strip tenant = [] then Inl (UnsafeQueryError ''tenant_id is required'')
      else validate Q question)"

section \<open>Retrieval and the evidence gates\<close>

definition rank_key :: "scored \<Rightarrow> real \<times> nat" where
  "rank_key cs = (- snd cs, chunk_index (fst cs))"

definition candidates :: "query_pipeline \<Rightarrow> string \<Rightarrow> string \<Rightarrow> scored list" where
  "candidates Q question tenant =
     map (\<lambda>c. (c, cosine (terms question) (terms (chunk_text c))))
       (filter (\<lambda>c. chunk_tenant_id c = tenant) (qp_chunks Q))"

definition retrieve_lexical :: "query_pipeline \<Rightarrow> string \<Rightarrow> string \<Rightarrow> scored list" where
  "retrieve_lexical Q question tenant =
     take (top_k Q) (sort_key rank_key (candidates Q question tenant))"

text \<open>\<open>max(score for _, score in admitted)\<close> of a non-empty list.\<close>

fun max_score :: "scored list \<Rightarrow> real" where
  "max_score [] = 0"
| "max_score [(c, s)] = s"
| "max_score ((c, s) # xs) = max s (max_score xs)"

definition gate :: "query_pipeline \<Rightarrow> string \<Rightarrow> scored list \<Rightarrow> scored list" where
  "gate Q tenant cands =
     (let admitted = filter (\<lambda>(c, s). chunk_tenant_id c = tenant \<and> s \<ge> min_score Q)
            (take (top_k Q) cands) in
      if admitted = [] then []
      else (let floor = max_score admitted * relative_score Q in
            filter (\<lambda>(c, s). s \<ge> floor) admitted))"

definition evidence :: "query_pipeline \<Rightarrow> string \<Rightarrow> string \<Rightarrow> scored list option \<Rightarrow> scored list res" where
  "evidence Q question tenant ranked =
     bind_res (validate_query Q question tenant) (\<lambda>safe.
       Inr (gate Q tenant (case ranked of Some r \<Rightarrow> r | None \<Rightarrow> retrieve_lexical Q safe tenant)))"

section \<open>Answers\<close>

text \<open>\<open>round(x, 4)\<close>, half to even.\<close>

definition round_half_even :: "real \<Rightarrow> int" where
  "round_half_even x = (let f = \<lfloor>x\<rfloor>; d = x - of_int \<lfloor>x\<rfloor> in
     if d < 1/2 then f else if d > 1/2 then f + 1 else if even f then f else f + 1)"

definition round4 :: "real \<Rightarrow> real" where
  "round4 x = of_int (round_half_even (x * 10000)) / 10000"

definition ABSTENTION :: string where
  "ABSTENTION = ''I do not have enough evidence in the indexed documents to answer that.''"

definition mk_citation :: "scored \<Rightarrow> citation" where
  "mk_citation = (\<lambda>(c, s). \<lparr>cit_document_id = chunk_document_id c, cit_source = chunk_source c,
     cit_chunk_index = chunk_index c, cit_score = round4 s, cit_excerpt = take 240 (chunk_text c)\<rparr>)"

definition request_id_or :: "string \<Rightarrow> string option \<Rightarrow> string" where
  "request_id_or uuid rid = (if py_truthy rid then the rid else uuid)"

definition build_result :: "string \<Rightarrow> scored list \<Rightarrow> string option \<Rightarrow> query_result" where
  "build_result uuid grounded rid =
     (if grounded = []
      then \<lparr>qr_answer = ABSTENTION, qr_citations = [], qr_request_id = request_id_or uuid rid,
            qr_grounded = False\<rparr>
      else \<lparr>qr_answer = ''Based on the indexed sources: '' @
              join '' '' (map (\<lambda>(c, _). strip (chunk_text c)) (take 3 grounded)),
            qr_citations = map mk_citation grounded, qr_request_id = request_id_or uuid rid,
            qr_grounded = True\<rparr>)"

definition query :: "string \<Rightarrow> query_pipeline \<Rightarrow> string \<Rightarrow> string \<Rightarrow> string option \<Rightarrow> query_result res" where
  "query uuid Q question tenant rid =
     bind_res (evidence Q question tenant None) (\<lambda>ev. Inr (build_result uuid ev rid))"

definition query_ranked ::
  "string \<Rightarrow> query_pipeline \<Rightarrow> string \<Rightarrow> string \<Rightarrow> scored list \<Rightarrow> string option \<Rightarrow> query_result res" where
  "query_ranked uuid Q question tenant ranked rid =
     bind_res (evidence Q question tenant (Some ranked)) (\<lambda>ev. Inr (build_result uuid ev rid))"

section \<open>Cosine similarity\<close>

lemma norm2_eq: "finite A \<Longrightarrow> set_mset m \<subseteq> A \<Longrightarrow> norm2 m = (\<Sum>w\<in>A. count m w * count m w)"
  unfolding norm2_def by (rule sum.mono_neutral_left) (auto simp: count_eq_zero_iff)

lemma norm2_0_iff [simp]: "norm2 m = 0 \<longleftrightarrow> m = {#}"
proof -
  have "norm2 m = 0 \<longleftrightarrow> (\<forall>w\<in>#m. count m w = 0)" by (simp add: norm2_def)
  also have "\<dots> \<longleftrightarrow> m = {#}" by (metis count_eq_zero_iff multiset_nonemptyE empty_iff set_mset_empty)
  finally show ?thesis .
qed

lemma sum_cauchy_schwarz:
  fixes f g :: "'a \<Rightarrow> real"
  assumes "finite A"
  shows "(\<Sum>x\<in>A. f x * g x)\<^sup>2 \<le> (\<Sum>x\<in>A. (f x)\<^sup>2) * (\<Sum>x\<in>A. (g x)\<^sup>2)"
proof -
  let ?a = "\<Sum>x\<in>A. (f x)\<^sup>2" and ?b = "\<Sum>x\<in>A. f x * g x" and ?c = "\<Sum>x\<in>A. (g x)\<^sup>2"
  have expand: "(\<Sum>x\<in>A. (t * f x - u * g x)\<^sup>2) = t\<^sup>2 * ?a - 2 * t * u * ?b + u\<^sup>2 * ?c" for t u
    by (simp add: power2_diff power_mult_distrib sum.distrib sum_subtractf sum_distrib_left
        mult.assoc mult.left_commute)
  have "0 \<le> (\<Sum>x\<in>A. (?b * f x - ?a * g x)\<^sup>2)" by (simp add: sum_nonneg)
  then have "0 \<le> ?b\<^sup>2 * ?a - 2 * ?b * ?a * ?b + ?a\<^sup>2 * ?c" by (simp only: expand)
  then have *: "?a * ?b\<^sup>2 \<le> ?a * (?a * ?c)" by (simp add: power2_eq_square algebra_simps)
  show ?thesis
  proof (cases "?a = 0")
    case True
    then have "\<forall>x\<in>A. f x = 0" using assms by (simp add: sum_nonneg_eq_0_iff)
    then show ?thesis by simp
  next
    case False
    then have "0 < ?a" by (simp add: sum_nonneg order_less_le)
    with * show ?thesis by simp
  qed
qed

definition dot :: "string multiset \<Rightarrow> string multiset \<Rightarrow> nat" where
  "dot l r = (\<Sum>w\<in>set_mset l \<inter> set_mset r. count l w * count r w)"

lemma cosine_dot: "cosine l r = real (dot l r) / (sqrt (real (norm2 l)) * sqrt (real (norm2 r)))"
  by (auto simp: cosine_def dot_def)

lemma dot_commute: "dot l r = dot r l"
  by (simp add: dot_def mult.commute inf_commute)

lemma dot_le: "real (dot l r) \<le> sqrt (real (norm2 l)) * sqrt (real (norm2 r))"
proof -
  let ?A = "set_mset l \<union> set_mset r"
  have "dot l r = (\<Sum>w\<in>?A. count l w * count r w)"
    unfolding dot_def by (rule sum.mono_neutral_left) (auto simp: count_eq_zero_iff)
  then have "(real (dot l r))\<^sup>2 \<le> (\<Sum>w\<in>?A. (real (count l w))\<^sup>2) * (\<Sum>w\<in>?A. (real (count r w))\<^sup>2)"
    using sum_cauchy_schwarz[of ?A "\<lambda>w. real (count l w)" "\<lambda>w. real (count r w)"] by simp
  also have "\<dots> = real (norm2 l) * real (norm2 r)"
    by (simp add: norm2_eq[of ?A l] norm2_eq[of ?A r] power2_eq_square)
  finally show ?thesis by (simp add: real_le_rsqrt flip: real_sqrt_mult)
qed

lemma dot_0_iff: "dot l r = 0 \<longleftrightarrow> set_mset l \<inter> set_mset r = {}"
  by (auto simp: dot_def count_eq_zero_iff)

lemma cosine_bounds: "0 \<le> cosine l r \<and> cosine l r \<le> 1"
proof (cases "l = {#} \<or> r = {#}")
  case True
  then show ?thesis by (auto simp: cosine_dot dot_def)
next
  case False
  then have "0 < sqrt (real (norm2 l)) * sqrt (real (norm2 r))" by (simp add: zero_less_iff_neq_zero)
  then show ?thesis using dot_le[of l r] by (simp add: cosine_dot)
qed

text \<open>Lexical scores are normalised and symmetric: a cosine lies between 0 and 1, does not
  depend on the order of its arguments, is 0 exactly when the two texts share no term, and is 1
  for a text compared with itself. (In exact arithmetic; rounding is not modelled.)\<close>

theorem cosine_laws:
  "0 \<le> cosine l r \<and> cosine l r \<le> 1 \<and> cosine l r = cosine r l
   \<and> (cosine l r = 0 \<longleftrightarrow> set_mset l \<inter> set_mset r = {})
   \<and> (cosine l l = (if l = {#} then 0 else 1))"
proof -
  have "dot l l = norm2 l" by (simp add: dot_def norm2_def)
  then have "cosine l l = (if l = {#} then 0 else 1)" by (auto simp: cosine_dot)
  moreover have "cosine l r = 0 \<longleftrightarrow> set_mset l \<inter> set_mset r = {}"
    using dot_0_iff[of l r] by (auto simp: cosine_dot)
  moreover have "cosine l r = cosine r l" by (simp add: cosine_dot dot_commute[of l r] mult.commute)
  ultimately show ?thesis using cosine_bounds by simp
qed

section \<open>Ranking\<close>

lemma take_sort_key_best:
  fixes f :: "'a \<Rightarrow> 'k::linorder"
  assumes "x \<in> set (take k (sort_key f xs))" "y \<in># mset xs - mset (take k (sort_key f xs))"
  shows "f x \<le> f y"
proof -
  let ?s = "sort_key f xs"
  have "mset xs = mset (take k ?s) + mset (drop k ?s)"
    by (metis append_take_drop_id mset_append mset_sort)
  then have "y \<in> set (drop k ?s)" using assms(2) by simp
  moreover have "sorted (map f (take k ?s @ drop k ?s))" by simp
  ultimately show ?thesis using assms(1)
    by (metis (no_types, lifting) map_append sorted_append image_eqI list.set_map)
qed

text \<open>The lexical retriever returns the best chunks of the tenant: at most \<open>top_k\<close> of them,
  scored by cosine, in order of falling score and, at equal scores, rising chunk index; and any
  chunk of the tenant that is left out ranks no better than any chunk returned.\<close>

theorem retrieve_lexical_top_k:
  "length (retrieve_lexical Q question tenant) = min (top_k Q) (length (candidates Q question tenant))
   \<and> sorted (map rank_key (retrieve_lexical Q question tenant))
   \<and> mset (retrieve_lexical Q question tenant) \<subseteq># mset (candidates Q question tenant)
   \<and> (\<forall>x\<in>set (retrieve_lexical Q question tenant).
        \<forall>y\<in>#mset (candidates Q question tenant) - mset (retrieve_lexical Q question tenant).
          rank_key x \<le> rank_key y)"
proof -
  let ?s = "sort_key rank_key (candidates Q question tenant)"
  have "mset (candidates Q question tenant) = mset (take (top_k Q) ?s) + mset (drop (top_k Q) ?s)"
    by (metis append_take_drop_id mset_append mset_sort)
  then have "mset (take (top_k Q) ?s) \<subseteq># mset (candidates Q question tenant)" by simp
  moreover have "sorted (map rank_key (take (top_k Q) ?s))"
    by (simp flip: take_map)
  ultimately show ?thesis
    unfolding retrieve_lexical_def using take_sort_key_best[of _ "top_k Q" rank_key] by auto
qed


definition sample_chunk :: "nat \<Rightarrow> string \<Rightarrow> string \<Rightarrow> chunk" where
  "sample_chunk i tenant t = \<lparr>chunk_text = t, chunk_document_id = ''d1'', chunk_index = i,
     chunk_tenant_id = tenant, chunk_source = ''policy.txt'', chunk_id = ''u'', chunk_created_at = 0,
     chunk_page = None\<rparr>"

definition sample_query_pipeline :: query_pipeline where
  "sample_query_pipeline = \<lparr>qp_chunks = [sample_chunk 0 ''acme'' ''refund window'',
       sample_chunk 1 ''other'' ''refund'', sample_chunk 2 ''acme'' ''lunch''],
     top_k = 1, min_score = 1/10, relative_score = 4/5, max_query_length = 2000\<rparr>"

theorem retrieve_lexical_top_k_witness:
  "length (retrieve_lexical sample_query_pipeline ''refund'' ''acme'') = 1"
  using retrieve_lexical_top_k[of sample_query_pipeline "''refund''" "''acme''"]
  by (simp add: candidates_def sample_query_pipeline_def sample_chunk_def)

section \<open>The evidence gates\<close>

lemma max_score_ge: "(c, s) \<in> set xs \<Longrightarrow> s \<le> max_score xs"
  by (induction xs rule: max_score.induct) auto

lemma max_score_mem: "xs \<noteq> [] \<Longrightarrow> \<exists>c. (c, max_score xs) \<in> set xs"
proof (induction xs rule: max_score.induct)
  case (3 c s y ys)
  then obtain d where "(d, max_score (y # ys)) \<in> set (y # ys)" by auto
  then show ?case by (cases "s \<le> max_score (y # ys)") (auto simp: max_def)
qed auto

definition admitted :: "query_pipeline \<Rightarrow> string \<Rightarrow> scored list \<Rightarrow> scored list" where
  "admitted Q tenant cands =
     filter (\<lambda>(c, s). chunk_tenant_id c = tenant \<and> s \<ge> min_score Q) (take (top_k Q) cands)"

lemma gate_admitted:
  "gate Q tenant cands =
     filter (\<lambda>(c, s). s \<ge> max_score (admitted Q tenant cands) * relative_score Q)
       (admitted Q tenant cands)"
  by (cases "admitted Q tenant cands = []")
    (simp_all add: gate_def admitted_def del: filter_filter)

lemma subseq_filter_take: "subseq (filter p (take k xs)) xs"
  by (metis append_take_drop_id subseq_filter_left list_emb_append2 subseq_order.trans
      subseq_rev_drop_many subseq_append subseq_append_iff subseq_order.eq_iff)

lemma gate_subseq: "subseq (gate Q tenant cands) cands"
  unfolding gate_admitted admitted_def
  by (meson subseq_filter_left subseq_filter_take subseq_order.trans)

lemma length_gate: "length (gate Q tenant cands) \<le> top_k Q"
proof -
  have "length (gate Q tenant cands) \<le> length (take (top_k Q) cands)"
    unfolding gate_admitted admitted_def by (meson le_trans length_filter_le)
  then show ?thesis by simp
qed

lemma gate_mem:
  assumes "(c, s) \<in> set (gate Q tenant cands)"
  shows "chunk_tenant_id c = tenant" "min_score Q \<le> s" "(c, s) \<in> set cands"
    "(c', s') \<in> set (gate Q tenant cands) \<Longrightarrow> s' * relative_score Q \<le> s \<or> relative_score Q < 0"
proof -
  show "chunk_tenant_id c = tenant" "min_score Q \<le> s" "(c, s) \<in> set cands"
    using assms by (auto simp: gate_admitted admitted_def dest: in_set_takeD)
  assume "(c', s') \<in> set (gate Q tenant cands)"
  then have "s' \<le> max_score (admitted Q tenant cands)"
    by (intro max_score_ge[of c']) (simp add: gate_admitted)
  moreover have "max_score (admitted Q tenant cands) * relative_score Q \<le> s"
    using assms by (simp add: gate_admitted)
  ultimately show "s' * relative_score Q \<le> s \<or> relative_score Q < 0"
    by (meson dual_order.trans mult_right_mono not_le)
qed

lemma gate_keeps_best:
  assumes "admitted Q tenant cands \<noteq> []" "0 \<le> min_score Q" "relative_score Q \<le> 1"
  shows "\<exists>c. (c, max_score (admitted Q tenant cands)) \<in> set (gate Q tenant cands)"
proof -
  let ?m = "max_score (admitted Q tenant cands)"
  obtain c where c: "(c, ?m) \<in> set (admitted Q tenant cands)" using max_score_mem[OF assms(1)] by blast
  then have "0 \<le> ?m" using assms(2) by (auto simp: admitted_def)
  then have "?m * relative_score Q \<le> ?m" using assms(3) mult_left_le[of "relative_score Q" ?m] by simp
  with c show ?thesis by (auto simp: gate_admitted)
qed

text \<open>What becomes evidence: for every admissible pipeline configuration and any candidate
  ranking, the evidence is a sublist of the candidates in their order, at most \<open>top_k\<close> long; each
  item belongs to the asking tenant, reaches the minimum score, and scores at least the relative
  share of every other item; and it is empty only when no candidate among the first \<open>top_k\<close>
  belongs to the tenant and reaches the minimum score.\<close>

theorem evidence_gates:
  assumes "mk_query_pipeline cs k ms rel ml = Inr Q"
    and "evidence Q question tenant (Some cands) = Inr ev"
  shows "subseq ev cands \<and> length ev \<le> top_k Q
    \<and> (\<forall>(c, s)\<in>set ev. chunk_tenant_id c = tenant \<and> ms \<le> s \<and> (\<forall>(c', s')\<in>set ev. rel * s' \<le> s))
    \<and> (ev = [] \<longleftrightarrow> (\<forall>(c, s)\<in>set (take (top_k Q) cands). chunk_tenant_id c \<noteq> tenant \<or> s < ms))"
proof -
  have Q: "min_score Q = ms" "relative_score Q = rel" "0 \<le> ms" "0 \<le> rel" "rel \<le> 1"
    using assms(1) by (auto simp: mk_query_pipeline_def split: if_splits)
  have ev: "ev = gate Q tenant cands" using assms(2) by (auto simp: evidence_def)
  have empty: "ev = [] \<longleftrightarrow> admitted Q tenant cands = []"
  proof
    assume "ev = []"
    then show "admitted Q tenant cands = []" using gate_keeps_best[of Q tenant cands] Q ev by fastforce
  qed (simp add: ev gate_admitted)
  have none: "admitted Q tenant cands = [] \<longleftrightarrow>
      (\<forall>(c, s)\<in>set (take (top_k Q) cands). chunk_tenant_id c \<noteq> tenant \<or> s < ms)"
    using Q by (auto simp: admitted_def filter_empty_conv)
  have each: "\<forall>(c, s)\<in>set ev. chunk_tenant_id c = tenant \<and> ms \<le> s \<and> (\<forall>(c', s')\<in>set ev. rel * s' \<le> s)"
  proof -
    have "rel * s' \<le> s" if "(c, s) \<in> set ev" "(c', s') \<in> set ev" for c s c' s'
      using gate_mem(4)[of c s Q tenant cands c' s'] that Q ev by (simp add: mult.commute not_less)
    moreover have "chunk_tenant_id c = tenant \<and> ms \<le> s" if "(c, s) \<in> set ev" for c s
      using gate_mem(1,2)[of c s Q tenant cands] that Q ev by simp
    ultimately show ?thesis by blast
  qed
  have "subseq ev cands" "length ev \<le> top_k Q" using gate_subseq length_gate ev by simp_all
  with each show ?thesis by (simp only: empty none simp_thms)
qed

lemma evidence_gates_witness:
  "subseq [(sample_chunk 0 ''acme'' ''refund window'', 1/2)]
     [(sample_chunk 0 ''acme'' ''refund window'', 1/2), (sample_chunk 1 ''other'' ''refund'', 1 :: real)]"
proof -
  let ?cands = "[(sample_chunk 0 ''acme'' ''refund window'', 1/2), (sample_chunk 1 ''other'' ''refund'', 1)]"
  let ?Q = "\<lparr>qp_chunks = [], top_k = 5, min_score = 1/10, relative_score = 0, max_query_length = 100\<rparr>"
  have Q: "mk_query_pipeline [] 5 (1/10) 0 100 = Inr ?Q" by (simp add: mk_query_pipeline_def)
  have "evidence ?Q ''refund'' ''acme'' (Some ?cands) = Inr [(sample_chunk 0 ''acme'' ''refund window'', 1/2)]"
    by (simp add: evidence_def validate_query_def validate_def py_str is_space_def
        INJECTION_PATTERNS_def gate_def sample_chunk_def lower_char_def any_but_newline_def)
  from evidence_gates[OF Q this] show ?thesis by blast
qed



end
