(* ===== verification/Gateway.thy ===== *)
theory Gateway
  imports Providers
begin

text \<open>
  The model gateway of \<open>gateway.py\<close>: the circuit breaker as a state machine over clock readings,
  the classification of failures, the token budgets, pricing, and a gateway call with its retries,
  breakers and extractive fallback. Clock readings, random delays and the outcome of each provider
  call are parameters.
\<close>

section \<open>Circuit breaker\<close>

record breaker =
  failure_threshold :: int
  reset_after :: real
  failures :: int
  opened_at :: "real option"
  trial_in_flight :: bool

definition mk_breaker :: "int \<Rightarrow> real \<Rightarrow> breaker" where
  "mk_breaker threshold reset = \<lparr>failure_threshold = threshold, reset_after = reset, failures = 0,
     opened_at = None, trial_in_flight = False\<rparr>"

datatype breaker_state = Closed | Half_open | Open

definition state :: "real \<Rightarrow> breaker \<Rightarrow> breaker_state" where
  "state now b = (case opened_at b of
       None \<Rightarrow> Closed
     | Some t \<Rightarrow> if now - t \<ge> reset_after b then Half_open else Open)"

definition allow :: "real \<Rightarrow> breaker \<Rightarrow> bool \<times> breaker" where
  "allow now b =
     (if state now b = Closed then (True, b)
      else if state now b = Half_open \<and> \<not> trial_in_flight b
      then (True, b\<lparr>trial_in_flight := True\<rparr>)
      else (False, b))"

definition record_success :: "breaker \<Rightarrow> breaker" where
  "record_success b = b\<lparr>failures := 0, opened_at := None, trial_in_flight := False\<rparr>"

definition record_failure :: "real \<Rightarrow> breaker \<Rightarrow> breaker" where
  "record_failure now b =
     (let b1 = b\<lparr>failures := failures b + 1, trial_in_flight := False\<rparr> in
      if opened_at b1 \<noteq> None \<or> failures b1 \<ge> failure_threshold b1
      then b1\<lparr>opened_at := Some now\<rparr> else b1)"

section \<open>Failures\<close>

fun is_retryable :: "exn \<Rightarrow> bool" where
  "is_retryable (HTTPError code _) = (code = 429 \<or> code \<ge> 500)"
| "is_retryable URLError = True"
| "is_retryable TimeoutError = True"
| "is_retryable ConnectionError = True"
| "is_retryable _ = False"

text \<open>An \<open>HTTPError\<close> carries the value of its \<open>retry-after\<close> header, if any.\<close>

fun retry_after_seconds :: "exn \<Rightarrow> real option res" where
  "retry_after_seconds (HTTPError _ (Some v)) =
     (if v \<noteq> [] \<and> strip v \<noteq> [] \<and> list_all is_digit (strip v)
      then bind_res (py_float v) (\<lambda>d. Inr (Some d)) else Inr None)"
| "retry_after_seconds _ = Inr None"

definition http_hint :: "int \<Rightarrow> string" where
  "http_hint code =
     (if code = 400 then ''request rejected; check the API key and model ID''
      else if code = 401 then ''the provider rejected the API key''
      else if code = 403 then ''the API key is not allowed to use this model''
      else if code = 404 then ''model or endpoint not found; check the model ID''
      else if code = 429 then ''rate limit or quota reached at the provider''
      else ''provider error'')"

definition describe_failure :: "exn \<Rightarrow> string" where
  "describe_failure exc = (case exc of
       HTTPError code _ \<Rightarrow> ''HTTP '' @ show_int code @ '' ('' @ http_hint code @ '')''
     | TimeoutError \<Rightarrow> ''the provider did not answer in time''
     | URLError \<Rightarrow> ''could not reach the provider''
     | _ \<Rightarrow> if is_value_error exc then exn_str exc else ''unexpected response from the provider'')"

section \<open>Budgets and prices\<close>

record budget =
  max_context_tokens :: int
  max_history_tokens :: int

text \<open>\<open>s[:n]\<close>\<close>

definition slice_to :: "int \<Rightarrow> 'a list \<Rightarrow> 'a list" where
  "slice_to n s = (if n \<ge> 0 then take (nat n) s else take (length s - nat (- n)) s)"

fun pack_loop :: "int \<Rightarrow> string list \<Rightarrow> int \<Rightarrow> string list \<Rightarrow> string list" where
  "pack_loop limit packed used [] = packed"
| "pack_loop limit packed used (t # ts) =
     (let cost = int (estimate_tokens t) in
      if packed \<noteq> [] \<and> used + cost > limit then packed
      else if packed = [] \<and> cost > limit
      then pack_loop limit (packed @ [slice_to (limit * 4) t]) (used + limit) ts
      else pack_loop limit (packed @ [t]) (used + cost) ts)"

definition pack_context :: "budget \<Rightarrow> string list \<Rightarrow> string list" where
  "pack_context B context = pack_loop (max_context_tokens B) [] 0 context"

fun trim_loop :: "int \<Rightarrow> chat_turn list \<Rightarrow> int \<Rightarrow> chat_turn list \<Rightarrow> chat_turn list" where
  "trim_loop limit kept used [] = kept"
| "trim_loop limit kept used (t # ts) =
     (let cost = int (estimate_tokens (content t)) in
      if used + cost > limit then kept else trim_loop limit (kept @ [t]) (used + cost) ts)"

definition trim_history :: "budget \<Rightarrow> chat_turn list \<Rightarrow> chat_turn list" where
  "trim_history B history = rev (trim_loop (max_history_tokens B) [] 0 (rev history))"

record pricing =
  input_per_million :: real
  output_per_million :: real

definition cost :: "pricing \<Rightarrow> generation \<Rightarrow> real" where
  "cost p g = (of_int (gen_prompt_tokens g) * input_per_million p
     + of_int (gen_completion_tokens g) * output_per_million p) / 1000000"

definition round6 :: "real \<Rightarrow> real" where
  "round6 x = of_int (round_half_even (x * 1000000)) / 1000000"

definition priced :: "(string \<times> pricing) list \<Rightarrow> generation \<Rightarrow> generation" where
  "priced prices g =
     (case (case map_of prices (gen_model g) of Some p \<Rightarrow> Some p | None \<Rightarrow> map_of prices ''*'') of
        None \<Rightarrow> g
      | Some p \<Rightarrow> g\<lparr>gen_cost_usd := round6 (cost p g)\<rparr>)"

section \<open>The gateway\<close>

text \<open>
  A \<open>ModelProvider\<close>: its name, what its \<open>complete\<close> does when it serves the \<open>n\<close>-th provider call of
  the gateway, and its \<open>rewrite_query\<close>.
\<close>

record model_provider =
  mp_name :: string
  mp_complete :: "nat \<Rightarrow> string \<Rightarrow> string list \<Rightarrow> chat_turn list \<Rightarrow> generation res"
  mp_rewrite :: "string \<Rightarrow> chat_turn list \<Rightarrow> string"

definition extractive_provider :: model_provider where
  "extractive_provider = \<lparr>mp_name = ''extractive'',
     mp_complete = (\<lambda>_ _ context _. Inr (extractive_complete context)), mp_rewrite = heuristic_rewrite\<rparr>"

definition openai_model :: "(json \<Rightarrow> string) \<Rightarrow> openai_provider \<Rightarrow> (nat \<Rightarrow> transport) \<Rightarrow> transport \<Rightarrow> model_provider" where
  "openai_model rep P nets rnet = \<lparr>mp_name = oa_model P,
     mp_complete = (\<lambda>n. openai_complete rep P (nets n)), mp_rewrite = openai_rewrite_query rep P rnet\<rparr>"

record gateway =
  gw_providers :: "model_provider list"
  gw_budget :: budget
  gw_pricing :: "(string \<times> pricing) list"
  gw_max_attempts :: int
  gw_base_delay :: real
  gw_max_delay :: real
  gw_deadline :: real

text \<open>
  What a call changes: the breakers, the number of clock readings taken so far, the names of the
  providers called so far and the delays slept. \<open>clk i\<close> is the \<open>i\<close>-th reading of the clock and
  \<open>rnd i x\<close> the \<open>i\<close>-th value of \<open>random.uniform(0, x)\<close>.
\<close>

record gw_state =
  gs_breakers :: "(string \<times> breaker) list"
  gs_ticks :: nat
  gs_calls :: "string list"
  gs_sleeps :: "real list"

text \<open>\<open>__init__\<close>: every provider without a breaker gets a default one.\<close>

definition setdefault :: "(string \<times> 'a) list \<Rightarrow> string \<Rightarrow> 'a \<Rightarrow> (string \<times> 'a) list" where
  "setdefault d k v = (if map_of d k = None then d @ [(k, v)] else d)"

definition init_gateway :: "gateway \<Rightarrow> (string \<times> breaker) list \<Rightarrow> gw_state" where
  "init_gateway G breakers =
     \<lparr>gs_breakers = foldl (\<lambda>d p. setdefault d (mp_name p) (mk_breaker 5 30)) breakers (gw_providers G),
      gs_ticks = 0, gs_calls = [], gs_sleeps = []\<rparr>"

definition breaker_of :: "gw_state \<Rightarrow> string \<Rightarrow> breaker" where
  "breaker_of st name = (case map_of (gs_breakers st) name of Some b \<Rightarrow> b | None \<Rightarrow> mk_breaker 5 30)"

definition set_breaker :: "string \<Rightarrow> breaker \<Rightarrow> gw_state \<Rightarrow> gw_state" where
  "set_breaker name b st = st\<lparr>gs_breakers := AList.update name b (gs_breakers st)\<rparr>"

definition read_clock :: "(nat \<Rightarrow> real) \<Rightarrow> gw_state \<Rightarrow> real \<times> gw_state" where
  "read_clock clk st = (clk (gs_ticks st), st\<lparr>gs_ticks := gs_ticks st + 1\<rparr>)"

definition gw_allow :: "(nat \<Rightarrow> real) \<Rightarrow> string \<Rightarrow> gw_state \<Rightarrow> bool \<times> gw_state" where
  "gw_allow clk name st = (case read_clock clk st of (now, st1) \<Rightarrow>
     case allow now (breaker_of st1 name) of (ok, b) \<Rightarrow> (ok, set_breaker name b st1))"

definition gw_failure :: "(nat \<Rightarrow> real) \<Rightarrow> string \<Rightarrow> gw_state \<Rightarrow> gw_state" where
  "gw_failure clk name st = (case read_clock clk st of (now, st1) \<Rightarrow>
     set_breaker name (record_failure now (breaker_of st1 name)) st1)"

definition gw_success :: "string \<Rightarrow> gw_state \<Rightarrow> gw_state" where
  "gw_success name st = set_breaker name (record_success (breaker_of st name)) st"

text \<open>The loop of \<open>_attempt\<close>; \<open>n\<close> rounds are left, so the current attempt is \<open>max - n + 1\<close>.\<close>

type_synonym attempt_result = "(generation option \<times> string option) res"

fun attempt_loop :: "gateway \<Rightarrow> (nat \<Rightarrow> real) \<Rightarrow> (nat \<Rightarrow> real \<Rightarrow> real) \<Rightarrow> model_provider \<Rightarrow> string \<Rightarrow>
    string list \<Rightarrow> chat_turn list \<Rightarrow> real \<Rightarrow> nat \<Rightarrow> string option \<Rightarrow> gw_state \<Rightarrow> attempt_result \<times> gw_state" where
  "attempt_loop G clk rnd p question context history deadline 0 failure st = (Inr (None, failure), st)"
| "attempt_loop G clk rnd p question context history deadline (Suc n) failure st =
     (let attempt = nat (gw_max_attempts G) - n;
          outcome = mp_complete p (length (gs_calls st)) question context history;
          st1 = st\<lparr>gs_calls := gs_calls st @ [mp_name p]\<rparr> in
      case outcome of
        Inr g \<Rightarrow> (Inr (Some g, None), gw_success (mp_name p) st1)
      | Inl exc \<Rightarrow>
          (let st2 = gw_failure clk (mp_name p) st1;
               failure' = Some (mp_name p @ '': '' @ describe_failure exc) in
           if \<not> is_retryable exc \<or> n = 0 then (Inr (None, failure'), st2)
           else case retry_after_seconds exc of
             Inl e \<Rightarrow> (Inl e, st2)
           | Inr ra \<Rightarrow>
               (let delay = (case ra of Some d \<Rightarrow> d
                      | None \<Rightarrow> rnd (length (gs_calls st2)) (min (gw_max_delay G) (gw_base_delay G * 2 ^ attempt)));
                    (now, st3) = read_clock clk st2 in
                if now + delay \<ge> deadline then (Inr (None, failure'), st3)
                else case gw_allow clk (mp_name p) st3 of
                  (False, st4) \<Rightarrow> (Inr (None, failure'), st4)
                | (True, st4) \<Rightarrow> attempt_loop G clk rnd p question context history deadline n failure'
                    (st4\<lparr>gs_sleeps := gs_sleeps st4 @ [delay]\<rparr>))))"

definition attempt :: "gateway \<Rightarrow> (nat \<Rightarrow> real) \<Rightarrow> (nat \<Rightarrow> real \<Rightarrow> real) \<Rightarrow> model_provider \<Rightarrow> string \<Rightarrow>
    string list \<Rightarrow> chat_turn list \<Rightarrow> real \<Rightarrow> gw_state \<Rightarrow> attempt_result \<times> gw_state" where
  "attempt G clk rnd p question context history deadline st =
     attempt_loop G clk rnd p question context history deadline (nat (gw_max_attempts G)) None st"

fun provider_loop :: "gateway \<Rightarrow> (nat \<Rightarrow> real) \<Rightarrow> (nat \<Rightarrow> real \<Rightarrow> real) \<Rightarrow> string \<Rightarrow> string list \<Rightarrow>
    chat_turn list \<Rightarrow> real \<Rightarrow> model_provider list \<Rightarrow> string list \<Rightarrow> gw_state \<Rightarrow> generation res \<times> gw_state" where
  "provider_loop G clk rnd question packed trimmed deadline [] notes st =
     (Inr ((extractive_complete packed)\<lparr>gen_degraded := True,
        gen_note := (if join ''; '' notes = [] then None else Some (join ''; '' notes))\<rparr>), st)"
| "provider_loop G clk rnd question packed trimmed deadline (p # ps) notes st =
     (case gw_allow clk (mp_name p) st of
        (False, st1) \<Rightarrow> provider_loop G clk rnd question packed trimmed deadline ps
          (notes @ [mp_name p @ '' is temporarily disabled after repeated failures'']) st1
      | (True, st1) \<Rightarrow>
          (case attempt G clk rnd p question packed trimmed deadline st1 of
             (Inl e, st2) \<Rightarrow> (Inl e, st2)
           | (Inr (Some g, _), st2) \<Rightarrow> (Inr (priced (gw_pricing G) g), st2)
           | (Inr (None, failure), st2) \<Rightarrow>
               provider_loop G clk rnd question packed trimmed deadline ps
                 (if py_truthy failure then notes @ [the failure] else notes) st2))"

definition gateway_complete :: "gateway \<Rightarrow> (nat \<Rightarrow> real) \<Rightarrow> (nat \<Rightarrow> real \<Rightarrow> real) \<Rightarrow> string \<Rightarrow> string list \<Rightarrow>
    chat_turn list \<Rightarrow> gw_state \<Rightarrow> generation res \<times> gw_state" where
  "gateway_complete G clk rnd question context history st =
     (case read_clock clk st of (now, st1) \<Rightarrow>
        provider_loop G clk rnd question (pack_context (gw_budget G) context)
          (trim_history (gw_budget G) history) (now + gw_deadline G) (gw_providers G) [] st1)"

text \<open>\<open>rewrite_query\<close> asks the first provider whose breaker is closed; it changes no state.\<close>

fun first_closed :: "gw_state \<Rightarrow> model_provider list \<Rightarrow> model_provider option" where
  "first_closed st [] = None"
| "first_closed st (p # ps) =
     (if opened_at (breaker_of st (mp_name p)) = None then Some p else first_closed st ps)"

definition gateway_rewrite_query :: "gateway \<Rightarrow> gw_state \<Rightarrow> string \<Rightarrow> chat_turn list \<Rightarrow> string" where
  "gateway_rewrite_query G st question history =
     (let trimmed = trim_history (gw_budget G) history in
      case first_closed st (gw_providers G) of
        Some p \<Rightarrow> mp_rewrite p question trimmed
      | None \<Rightarrow> heuristic_rewrite question trimmed)"

section \<open>Configuration\<close>

definition model_from_env :: "string \<Rightarrow> environ \<Rightarrow> openai_provider option res" where
  "model_from_env pre env =
     (let base_url = env (pre @ ''_BASE_URL'');
          own_key = env (pre @ ''_API_KEY'');
          api_key = (if py_truthy own_key then own_key
                     else if pre = ''RAG_MODEL'' then env ''OPENAI_API_KEY'' else None);
          model = env (pre @ ''_NAME'') in
      if \<not> (py_truthy base_url \<and> py_truthy api_key \<and> py_truthy model) then Inr None
      else bind_res (py_float (getenv env ''RAG_MODEL_TIMEOUT_SECONDS'' ''30'')) (\<lambda>timeout.
           bind_res (py_int (getenv env ''RAG_MAX_OUTPUT_TOKENS'' ''512'')) (\<lambda>max_out.
           Inr (Some (mk_openai (the base_url) (the api_key) (the model) timeout max_out None)))))"

text \<open>
  \<open>configured_provider\<close>: the settings of a gateway, or \<open>None\<close> when the extractive answerer
  is used directly. \<open>run\<close> turns an OpenAI provider into a \<open>model_provider\<close> (it supplies the transport).
\<close>

definition configured_provider :: "(openai_provider \<Rightarrow> model_provider) \<Rightarrow> environ \<Rightarrow> gateway option res" where
  "configured_provider run env =
     bind_res (model_from_env ''RAG_MODEL'' env) (\<lambda>p1.
     bind_res (model_from_env ''RAG_FALLBACK_MODEL'' env) (\<lambda>p2.
     let providers = (case p1 of None \<Rightarrow> [] | Some p \<Rightarrow> [p]) @ (case p2 of None \<Rightarrow> [] | Some p \<Rightarrow> [p]) in
     if providers = [] then Inr None
     else
       bind_res (py_float (getenv env ''RAG_MODEL_INPUT_PRICE_PER_MTOK'' ''0'')) (\<lambda>ip.
       bind_res (py_float (getenv env ''RAG_MODEL_OUTPUT_PRICE_PER_MTOK'' ''0'')) (\<lambda>op.
       bind_res (py_int (getenv env ''RAG_MAX_CONTEXT_TOKENS'' ''3000'')) (\<lambda>mc.
       bind_res (py_int (getenv env ''RAG_MAX_HISTORY_TOKENS'' ''1000'')) (\<lambda>mh.
       bind_res (py_float (getenv env ''RAG_GENERATION_DEADLINE_SECONDS'' ''45'')) (\<lambda>dl.
       Inr (Some \<lparr>gw_providers = map run providers,
         gw_budget = \<lparr>max_context_tokens = mc, max_history_tokens = mh\<rparr>,
         gw_pricing = [(''*'', \<lparr>input_per_million = ip, output_per_million = op\<rparr>)],
         gw_max_attempts = 3, gw_base_delay = 1/2, gw_max_delay = 8, gw_deadline = dl\<rparr>))))))))"

section \<open>The breaker over a run of calls\<close>

text \<open>
  A run of the breaker under any interleaving of its callers: each operation holds the lock, so a run
  is a sequence of events. The events record what a caller saw and the clock reading it used.
\<close>

datatype breaker_event = Allow real bool | Success | Failure real

inductive breaker_run :: "breaker \<Rightarrow> breaker_event list \<Rightarrow> breaker \<Rightarrow> bool" where
  run_nil: "breaker_run b [] b"
| run_allow: "breaker_run b es b1 \<Longrightarrow> allow now b1 = (ok, b2) \<Longrightarrow> breaker_run b (es @ [Allow now ok]) b2"
| run_success: "breaker_run b es b1 \<Longrightarrow> breaker_run b (es @ [Success]) (record_success b1)"
| run_failure: "breaker_run b es b1 \<Longrightarrow> breaker_run b (es @ [Failure now]) (record_failure now b1)"

text \<open>The failures since the last success and the time of the last failure, read off the events.\<close>

definition count_failures :: "int \<Rightarrow> breaker_event \<Rightarrow> int" where
  "count_failures n e = (case e of Success \<Rightarrow> 0 | Failure _ \<Rightarrow> n + 1 | Allow _ _ \<Rightarrow> n)"

definition consecutive_failures :: "breaker_event list \<Rightarrow> int" where
  "consecutive_failures es = foldl count_failures 0 es"

definition note_failure :: "real option \<Rightarrow> breaker_event \<Rightarrow> real option" where
  "note_failure t e = (case e of Failure now \<Rightarrow> Some now | _ \<Rightarrow> t)"

definition last_failure :: "breaker_event list \<Rightarrow> real option" where
  "last_failure es = foldl note_failure None es"

lemma event_folds [simp]:
  "consecutive_failures [] = 0"
  "consecutive_failures (es @ [e]) = count_failures (consecutive_failures es) e"
  "last_failure [] = None"
  "last_failure (es @ [e]) = note_failure (last_failure es) e"
  by (simp_all add: consecutive_failures_def last_failure_def)

lemmas breaker_ops = allow_def state_def record_success_def record_failure_def

lemma allow_keeps:
  assumes "allow now b = (ok, b')"
  shows "failures b' = failures b \<and> opened_at b' = opened_at b
    \<and> failure_threshold b' = failure_threshold b \<and> reset_after b' = reset_after b"
  using assms by (auto simp: allow_def split: if_splits)

lemma allow_trial_open:
  assumes "allow now b = (ok, b')" "trial_in_flight b \<longrightarrow> opened_at b \<noteq> None"
  shows "trial_in_flight b' \<longrightarrow> opened_at b' \<noteq> None"
  using assms by (cases "opened_at b") (auto simp: allow_def state_def split: if_splits)

lemma consecutive_failures_nonneg: "consecutive_failures es \<ge> 0"
  by (induction es rule: rev_induct) (auto simp: count_failures_def split: breaker_event.split)

lemma last_failure_Some: "consecutive_failures es > 0 \<Longrightarrow> last_failure es \<noteq> None"
  by (induction es rule: rev_induct)
    (auto simp: count_failures_def note_failure_def split: breaker_event.splits)

lemma breaker_run_inv:
  assumes "breaker_run b0 es b" "b0 = mk_breaker n r" "1 \<le> n"
  shows "failure_threshold b = n \<and> reset_after b = r \<and> failures b = consecutive_failures es
    \<and> opened_at b = (if consecutive_failures es < n then None else last_failure es)
    \<and> (trial_in_flight b \<longrightarrow> opened_at b \<noteq> None)"
  using assms
proof (induction rule: breaker_run.induct)
  case (run_nil b)
  then show ?case by (simp add: mk_breaker_def)
next
  case (run_allow b es b1 now ok b2)
  then have "trial_in_flight b2 \<longrightarrow> opened_at b2 \<noteq> None"
    using allow_trial_open[OF run_allow.hyps(2)] by blast
  with run_allow allow_keeps[OF run_allow.hyps(2)] show ?case
    by (simp add: count_failures_def note_failure_def)
next
  case (run_success b es b1)
  then show ?case by (simp add: record_success_def count_failures_def note_failure_def)
next
  case (run_failure b es b1 now)
  then have b1: "failure_threshold b1 = n" "reset_after b1 = r" "failures b1 = consecutive_failures es"
    "opened_at b1 = (if consecutive_failures es < n then None else last_failure es)" by auto
  have "last_failure es \<noteq> None" if "consecutive_failures es \<ge> n"
    using that run_failure.prems last_failure_Some by simp
  with b1 show ?case
    by (cases "consecutive_failures es < n") (simp_all add: record_failure_def count_failures_def note_failure_def)
qed

text \<open>C9. What the circuit breaker decides, in terms of the history of the provider: after any run
  of calls it is closed exactly while fewer than \<open>failure_threshold\<close> failures have happened since
  the last success; otherwise it is open until the cool-down has passed since the last failure, and
  half-open from then on.\<close>

theorem breaker_state_of_history:
  assumes "breaker_run (mk_breaker n r) es b" "1 \<le> n"
  shows "state now b =
    (if consecutive_failures es < n then Closed
     else if now - the (last_failure es) \<ge> r then Half_open else Open)"
proof -
  have "last_failure es \<noteq> None" if "\<not> consecutive_failures es < n"
    using that assms(2) last_failure_Some by simp
  with breaker_run_inv[OF assms(1) refl assms(2)] show ?thesis by (auto simp: state_def)
qed

theorem breaker_state_of_history_witness:
  "\<exists>b. breaker_run (mk_breaker 2 30) [Failure 1, Failure 5] b \<and> state 34 b = Open \<and> state 35 b = Half_open"
proof -
  let ?b = "record_failure 5 (record_failure 1 (mk_breaker 2 30))"
  have run: "breaker_run (mk_breaker 2 30) [Failure 1, Failure 5] ?b"
    using run_failure[OF run_failure[OF run_nil]] by simp
  show ?thesis
    using run breaker_state_of_history[OF run, of 34] breaker_state_of_history[OF run, of 35]
    by (auto simp: consecutive_failures_def last_failure_def count_failures_def note_failure_def)
qed

lemma only_allows_refused:
  assumes "breaker_run b es b'" "trial_in_flight b" "opened_at b \<noteq> None"
    and "\<forall>e\<in>set es. \<exists>now ok. e = Allow now ok"
  shows "b' = b"
  using assms
proof (induction rule: breaker_run.induct)
  case (run_allow b es b1 now ok b2)
  then have "b1 = b" by simp
  with run_allow show ?case by (auto simp: allow_def state_def split: if_splits option.splits)
qed auto

text \<open>One trial at a time: if a caller was let through while the breaker was not closed, no other
  caller is let through until an outcome (success or failure) has been recorded, however many calls
  come in between and whenever they come.\<close>

theorem breaker_single_trial:
  assumes "state t b1 \<noteq> Closed" "allow t b1 = (True, b2)"
    and "breaker_run b2 es b3" "allow t' b3 = (True, b4)"
  shows "\<exists>e\<in>set es. e = Success \<or> (\<exists>now. e = Failure now)"
proof (rule ccontr)
  assume none: "\<not> ?thesis"
  have b2: "trial_in_flight b2" "opened_at b2 \<noteq> None"
    using assms(1,2) by (auto simp: allow_def state_def split: if_splits option.splits)
  have "\<forall>e\<in>set es. \<exists>now ok. e = Allow now ok" using none by (metis breaker_event.exhaust)
  then have "b3 = b2" using only_allows_refused[OF assms(3) b2] by simp
  with b2 assms(4) show False by (auto simp: allow_def state_def split: if_splits option.splits)
qed

theorem breaker_single_trial_witness:
  "\<exists>b2 b3 b4. allow 40 (record_failure 1 (mk_breaker 1 30)) = (True, b2)
     \<and> breaker_run b2 [Allow 41 False, Success] b3 \<and> allow 42 b3 = (True, b4)
     \<and> (\<exists>e\<in>set [Allow 41 False, Success]. e = Success \<or> (\<exists>now. e = Failure now))"
proof -
  let ?b1 = "record_failure 1 (mk_breaker 1 30)"
  let ?b2 = "?b1\<lparr>trial_in_flight := True\<rparr>" and ?b3 = "record_success (?b1\<lparr>trial_in_flight := True\<rparr>)"
  have a: "state 40 ?b1 \<noteq> Closed" "allow 40 ?b1 = (True, ?b2)" "allow 41 ?b2 = (False, ?b2)"
    "allow 42 ?b3 = (True, ?b3)"
    by (simp_all add: breaker_ops mk_breaker_def)
  have run: "breaker_run ?b2 [Allow 41 False, Success] ?b3"
    using run_success[OF run_allow[OF run_nil a(3)]] by simp
  show ?thesis using breaker_single_trial[OF a(1,2) run a(4)] run a by blast
qed

section \<open>Budgets\<close>

abbreviation tokens :: "string list \<Rightarrow> int" where
  "tokens ts \<equiv> sum_list (map (\<lambda>t. int (estimate_tokens t)) ts)"

abbreviation turn_tokens :: "chat_turn list \<Rightarrow> int" where
  "turn_tokens ts \<equiv> sum_list (map (\<lambda>t. int (estimate_tokens (content t))) ts)"

lemma estimate_tokens_pos: "estimate_tokens t \<ge> 1"
  by (simp add: estimate_tokens_def)

lemma estimate_tokens_slice:
  "1 \<le> limit \<Longrightarrow> int (estimate_tokens t) > limit \<Longrightarrow> int (estimate_tokens (slice_to (limit * 4) t)) = limit"
  by (auto simp: estimate_tokens_def slice_to_def nat_mult_distrib min_def max_def split: if_splits)

lemma pack_loop_rest:
  assumes "packed \<noteq> []" "used \<le> limit"
  shows "\<exists>n\<le>length ts. pack_loop limit packed used ts = packed @ take n ts
    \<and> used + tokens (take n ts) \<le> limit
    \<and> (n < length ts \<longrightarrow> used + tokens (take n ts) + int (estimate_tokens (ts ! n)) > limit)"
  using assms
proof (induction ts arbitrary: packed used)
  case (Cons t ts)
  show ?case
  proof (cases "used + int (estimate_tokens t) > limit")
    case True
    with Cons.prems show ?thesis by (intro exI[of _ 0]) simp
  next
    case False
    then obtain n where n: "n \<le> length ts"
      "pack_loop limit (packed @ [t]) (used + int (estimate_tokens t)) ts = (packed @ [t]) @ take n ts"
      "used + int (estimate_tokens t) + tokens (take n ts) \<le> limit"
      "n < length ts \<longrightarrow> used + int (estimate_tokens t) + tokens (take n ts) + int (estimate_tokens (ts ! n)) > limit"
      using Cons.IH[of "packed @ [t]" "used + int (estimate_tokens t)"] by auto
    with False Cons.prems show ?thesis by (intro exI[of _ "Suc n"]) (auto simp: algebra_simps)
  qed
qed simp

text \<open>The context budget: with a positive limit, \<open>pack_context\<close> keeps the best source, cut to the
  limit if it alone exceeds it, followed by the next sources in rank order, as many as fit and no
  fewer; the packed sources never exceed the limit.\<close>

theorem pack_context_spec:
  assumes "1 \<le> max_context_tokens B"
  shows "\<exists>n t'. pack_context B (t # ts) = t' # take n ts
    \<and> t' = (if int (estimate_tokens t) \<le> max_context_tokens B then t else take (4 * nat (max_context_tokens B)) t)
    \<and> tokens (t' # take n ts) \<le> max_context_tokens B
    \<and> (n < length ts \<longrightarrow> tokens (t' # take n ts) + int (estimate_tokens (ts ! n)) > max_context_tokens B)"
proof -
  let ?L = "max_context_tokens B"
  let ?t = "if int (estimate_tokens t) \<le> ?L then t else take (4 * nat ?L) t"
  have slice: "slice_to (?L * 4) t = take (4 * nat ?L) t" using assms
    by (simp add: slice_to_def nat_mult_distrib mult.commute)
  have cost: "int (estimate_tokens ?t) = (if int (estimate_tokens t) \<le> ?L then int (estimate_tokens t) else ?L)"
    using estimate_tokens_slice[OF assms, of t] slice by simp
  have first: "pack_context B (t # ts) = pack_loop ?L [?t] (int (estimate_tokens ?t)) ts"
    using cost slice by (simp add: pack_context_def)
  obtain n where "pack_loop ?L [?t] (int (estimate_tokens ?t)) ts = [?t] @ take n ts"
    "int (estimate_tokens ?t) + tokens (take n ts) \<le> ?L"
    "n < length ts \<longrightarrow> int (estimate_tokens ?t) + tokens (take n ts) + int (estimate_tokens (ts ! n)) > ?L"
    using pack_loop_rest[of "[?t]" "int (estimate_tokens ?t)" ?L ts] cost by (auto split: if_splits)
  with first show ?thesis by (intro exI[of _ n] exI[of _ ?t]) (simp only: list.map sum_list.Cons append_Cons append_Nil)
qed

theorem pack_context_spec_witness:
  "pack_context \<lparr>max_context_tokens = 3, max_history_tokens = 0\<rparr> [''abcdefgh'', ''ijkl'', ''mnop''] = [''abcdefgh'', ''ijkl'']"
proof -
  let ?B = "\<lparr>max_context_tokens = 3, max_history_tokens = 0\<rparr> :: budget"
  obtain n t' where n: "pack_context ?B [''abcdefgh'', ''ijkl'', ''mnop''] = t' # take n [''ijkl'', ''mnop'']"
    "t' = ''abcdefgh''" "tokens (t' # take n [''ijkl'', ''mnop'']) \<le> 3"
    "n < 2 \<longrightarrow> tokens (t' # take n [''ijkl'', ''mnop'']) + int (estimate_tokens ([''ijkl'', ''mnop''] ! n)) > 3"
    using pack_context_spec[of ?B "''abcdefgh''" "[''ijkl'', ''mnop'']"] by (auto simp: estimate_tokens_def)
  have "n = 1" using n(2-4) by (cases n; cases "n - 1") (auto simp: estimate_tokens_def)
  with n(1,2) show ?thesis by simp
qed

lemma trim_loop_spec:
  "used \<le> max 0 limit \<Longrightarrow> \<exists>n\<le>length ts. trim_loop limit kept used ts = kept @ take n ts
    \<and> used + turn_tokens (take n ts) \<le> max 0 limit
    \<and> (n < length ts \<longrightarrow> used + turn_tokens (take (Suc n) ts) > limit)"
proof (induction ts arbitrary: kept used)
  case (Cons t ts)
  show ?case
  proof (cases "used + int (estimate_tokens (content t)) > limit")
    case True
    with Cons.prems show ?thesis by (intro exI[of _ 0]) simp
  next
    case False
    then have "used + int (estimate_tokens (content t)) \<le> max 0 limit" by simp
    then obtain n where "n \<le> length ts"
      "trim_loop limit (kept @ [t]) (used + int (estimate_tokens (content t))) ts = (kept @ [t]) @ take n ts"
      "used + int (estimate_tokens (content t)) + turn_tokens (take n ts) \<le> max 0 limit"
      "n < length ts \<longrightarrow> used + int (estimate_tokens (content t)) + turn_tokens (take (Suc n) ts) > limit"
      using Cons.IH[of "used + int (estimate_tokens (content t))" "kept @ [t]"] by blast
    with False show ?thesis by (intro exI[of _ "Suc n"]) (auto simp: algebra_simps)
  qed
qed simp

text \<open>The history budget: \<open>trim_history\<close> keeps the longest suffix of the conversation, in order,
  that fits the limit (and nothing under a limit that is not positive).\<close>

theorem trim_history_suffix:
  "\<exists>k\<le>length history. trim_history B history = drop k history
    \<and> turn_tokens (drop k history) \<le> max 0 (max_history_tokens B)
    \<and> (k = 0 \<or> turn_tokens (drop (k - 1) history) > max_history_tokens B)"
proof -
  let ?n = "length history"
  obtain n where n: "n \<le> length (rev history)"
    "trim_loop (max_history_tokens B) [] 0 (rev history) = [] @ take n (rev history)"
    "0 + turn_tokens (take n (rev history)) \<le> max 0 (max_history_tokens B)"
    "n < length (rev history) \<longrightarrow> 0 + turn_tokens (take (Suc n) (rev history)) > max_history_tokens B"
    using trim_loop_spec[of 0 "max_history_tokens B" "rev history" "[]"] by auto
  have rev_tokens: "turn_tokens (rev xs) = turn_tokens xs" for xs
    by (induction xs) auto
  have take: "take m (rev history) = rev (drop (?n - m) history)" for m by (rule take_rev)
  show ?thesis
  proof (intro exI[of _ "?n - n"] conjI)
    show "trim_history B history = drop (?n - n) history"
      using n(2) by (simp add: trim_history_def take)
    show "turn_tokens (drop (?n - n) history) \<le> max 0 (max_history_tokens B)"
      using n(3) by (simp add: take rev_tokens)
    show "?n - n = 0 \<or> turn_tokens (drop (?n - n - 1) history) > max_history_tokens B"
      using n(4) by (auto simp: take rev_tokens)
  qed simp
qed

theorem trim_history_suffix_witness:
  "trim_history \<lparr>max_context_tokens = 0, max_history_tokens = 1\<rparr> [\<lparr>role = ''user'', content = ''ab''\<rparr>, \<lparr>role = ''assistant'', content = ''cd''\<rparr>]
   = [\<lparr>role = ''assistant'', content = ''cd''\<rparr>]"
proof -
  let ?h = "[\<lparr>role = ''user'', content = ''ab''\<rparr>, \<lparr>role = ''assistant'', content = ''cd''\<rparr>]"
  let ?B = "\<lparr>max_context_tokens = 0, max_history_tokens = 1\<rparr> :: budget"
  obtain k where k: "k \<le> length ?h" "trim_history ?B ?h = drop k ?h" "turn_tokens (drop k ?h) \<le> max 0 1"
    "k = 0 \<or> turn_tokens (drop (k - 1) ?h) > 1"
    using trim_history_suffix[of ?h ?B] by auto
  have "k = 0 \<or> k = 1 \<or> k = 2" using k(1) by auto
  then have "k = 1" using k(3,4) by (elim disjE) (simp_all add: estimate_tokens_def)
  with k(2) show ?thesis by simp
qed

section \<open>A gateway call\<close>

text \<open>The exceptions whose \<open>retry-after\<close> header, if any, can be read.\<close>

definition retry_readable :: "exn \<Rightarrow> bool" where
  "retry_readable e = (case retry_after_seconds e of Inl _ \<Rightarrow> False | Inr _ \<Rightarrow> True)"

lemma breaker_of_set [simp]:
  "breaker_of (set_breaker name b st) name' = (if name' = name then b else breaker_of st name')"
  by (simp add: breaker_of_def set_breaker_def AList.update_conv)

lemma set_breaker_fields [simp]:
  "gs_calls (set_breaker name b st) = gs_calls st"
  "gs_ticks (set_breaker name b st) = gs_ticks st"
  "gs_sleeps (set_breaker name b st) = gs_sleeps st"
  by (simp_all add: set_breaker_def)

lemma read_clock_eq [simp]: "read_clock clk st = (clk (gs_ticks st), st\<lparr>gs_ticks := gs_ticks st + 1\<rparr>)"
  by (simp add: read_clock_def)

lemma breaker_of_fields [simp]:
  "breaker_of (st\<lparr>gs_ticks := n\<rparr>) name = breaker_of st name"
  "breaker_of (st\<lparr>gs_calls := cs\<rparr>) name = breaker_of st name"
  "breaker_of (st\<lparr>gs_sleeps := ds\<rparr>) name = breaker_of st name"
  by (simp_all add: breaker_of_def)

lemma gw_ops_calls [simp]:
  "gs_calls (gw_failure clk name st) = gs_calls st"
  "gs_calls (gw_success name st) = gs_calls st"
  by (simp_all add: gw_failure_def gw_success_def)

lemma gw_allow_calls: "gw_allow clk name st = (ok, st') \<Longrightarrow> gs_calls st' = gs_calls st"
  by (auto simp: gw_allow_def split: prod.splits)

lemma gw_allow_breaker:
  assumes "gw_allow clk name st = (ok, st')"
  shows "other \<noteq> name \<Longrightarrow> breaker_of st' other = breaker_of st other"
    "\<not> ok \<Longrightarrow> breaker_of st' name = breaker_of st name"
  using assms by (auto simp: gw_allow_def allow_def split: prod.splits if_splits)

lemma gw_outcome_breaker [simp]:
  "other \<noteq> name \<Longrightarrow> breaker_of (gw_failure clk name st) other = breaker_of st other"
  "\<not> trial_in_flight (breaker_of (gw_failure clk name st) name)"
  "other \<noteq> name \<Longrightarrow> breaker_of (gw_success name st) other = breaker_of st other"
  "breaker_of (gw_success name st) name = record_success (breaker_of st name)"
  by (simp_all add: gw_failure_def gw_success_def record_failure_def)

text \<open>One round of the loop, by the outcome of the call.\<close>

lemma attempt_loop_ok:
  "mp_complete p (length (gs_calls st)) q c h = Inr g \<Longrightarrow>
   attempt_loop G clk rnd p q c h dl (Suc n) failure st =
     (Inr (Some g, None), gw_success (mp_name p) (st\<lparr>gs_calls := gs_calls st @ [mp_name p]\<rparr>))"
  by simp

lemma attempt_loop_failed:
  assumes "mp_complete p (length (gs_calls st)) q c h = Inl exc"
  obtains (stop) failure' st' where
      "attempt_loop G clk rnd p q c h dl (Suc n) failure st = (Inr (None, failure'), st')"
      "gs_calls st' = gs_calls st @ [mp_name p]" "\<not> trial_in_flight (breaker_of st' (mp_name p))"
      "\<And>other. other \<noteq> mp_name p \<Longrightarrow> breaker_of st' other = breaker_of st other"
  | (raise) e st' where
      "attempt_loop G clk rnd p q c h dl (Suc n) failure st = (Inl e, st')" "retry_after_seconds exc = Inl e"
      "gs_calls st' = gs_calls st @ [mp_name p]" "\<not> trial_in_flight (breaker_of st' (mp_name p))"
      "\<And>other. other \<noteq> mp_name p \<Longrightarrow> breaker_of st' other = breaker_of st other"
  | (retry) failure' st' where
      "attempt_loop G clk rnd p q c h dl (Suc n) failure st = attempt_loop G clk rnd p q c h dl n failure' st'"
      "n > 0" "gs_calls st' = gs_calls st @ [mp_name p]"
      "\<And>other. other \<noteq> mp_name p \<Longrightarrow> breaker_of st' other = breaker_of st other"
proof -
  let ?st2 = "gw_failure clk (mp_name p) (st\<lparr>gs_calls := gs_calls st @ [mp_name p]\<rparr>)"
  let ?f = "Some (mp_name p @ '': '' @ describe_failure exc)"
  let ?st3 = "?st2\<lparr>gs_ticks := gs_ticks ?st2 + 1\<rparr>"
  show thesis
  proof (cases "\<not> is_retryable exc \<or> n = 0")
    case True
    with assms show thesis by (intro stop[of ?f ?st2]) auto
  next
    case False
    show thesis
    proof (cases "retry_after_seconds exc")
      case (Inl e)
      with False assms show thesis by (intro raise[of e ?st2]) auto
    next
      case (Inr ra)
      let ?d = "case ra of Some d \<Rightarrow> d | None \<Rightarrow>
        rnd (length (gs_calls ?st2)) (min (gw_max_delay G) (gw_base_delay G * 2 ^ (nat (gw_max_attempts G) - n)))"
      show thesis
      proof (cases "clk (gs_ticks ?st2) + ?d \<ge> dl")
        case True
        with False Inr assms show thesis by (intro stop[of ?f ?st3]) (auto split: option.splits)
      next
        case go: False
        obtain ok st4 where a: "gw_allow clk (mp_name p) ?st3 = (ok, st4)" by (metis surj_pair)
        note br = gw_allow_breaker[OF a] gw_allow_calls[OF a]
        show thesis
        proof (cases ok)
          case True
          with False Inr go a br assms show thesis
            by (intro retry[of ?f "st4\<lparr>gs_sleeps := gs_sleeps st4 @ [?d]\<rparr>"]) (auto split: option.splits)
        next
          case no: False
          with False Inr go a br assms show thesis
            by (intro stop[of ?f st4]) (auto split: option.splits)
        qed
      qed
    qed
  qed
qed

text \<open>
  What \<open>attempt_loop\<close> guarantees: between one and \<open>n\<close> calls of this provider and no other, an answer
  only from a successful call, an exception only from an unreadable header, no trial left in flight.
\<close>

definition attempt_post :: "model_provider \<Rightarrow> string \<Rightarrow> string list \<Rightarrow> chat_turn list \<Rightarrow> nat \<Rightarrow>
    gw_state \<Rightarrow> attempt_result \<Rightarrow> gw_state \<Rightarrow> bool" where
  "attempt_post p q c h n st r st' \<longleftrightarrow>
     (\<exists>k\<le>n. gs_calls st' = gs_calls st @ replicate k (mp_name p))
   \<and> (\<forall>g f. r = Inr (Some g, f) \<longrightarrow> (\<exists>i. mp_complete p i q c h = Inr g))
   \<and> (\<forall>e. r = Inl e \<longrightarrow> (\<exists>i exc. mp_complete p i q c h = Inl exc \<and> \<not> retry_readable exc))
   \<and> (n > 0 \<longrightarrow> \<not> trial_in_flight (breaker_of st' (mp_name p)))
   \<and> (\<forall>other. other \<noteq> mp_name p \<longrightarrow> breaker_of st' other = breaker_of st other)"

lemma attempt_post_once:
  assumes "gs_calls st' = gs_calls st @ [mp_name p]" "\<not> trial_in_flight (breaker_of st' (mp_name p))"
    "\<And>other. other \<noteq> mp_name p \<Longrightarrow> breaker_of st' other = breaker_of st other"
    "\<And>g f. r = Inr (Some g, f) \<Longrightarrow> \<exists>i. mp_complete p i q c h = Inr g"
    "\<And>e. r = Inl e \<Longrightarrow> \<exists>i exc. mp_complete p i q c h = Inl exc \<and> \<not> retry_readable exc"
  shows "attempt_post p q c h (Suc n) st r st'"
proof -
  have "gs_calls st' = gs_calls st @ replicate 1 (mp_name p)" using assms(1) by simp
  then have "\<exists>k\<le>Suc n. gs_calls st' = gs_calls st @ replicate k (mp_name p)" by (intro exI[of _ 1]) simp
  with assms show ?thesis unfolding attempt_post_def by blast
qed

lemma attempt_post_retry:
  assumes "attempt_post p q c h n s r st'" "n > 0" "gs_calls s = gs_calls st @ [mp_name p]"
    "\<And>other. other \<noteq> mp_name p \<Longrightarrow> breaker_of s other = breaker_of st other"
  shows "attempt_post p q c h (Suc n) st r st'"
proof -
  obtain k where "k \<le> n" "gs_calls st' = gs_calls s @ replicate k (mp_name p)"
    using assms(1) by (auto simp: attempt_post_def)
  then have "Suc k \<le> Suc n \<and> gs_calls st' = gs_calls st @ replicate (Suc k) (mp_name p)"
    using assms(3) by simp
  then have "\<exists>k\<le>Suc n. gs_calls st' = gs_calls st @ replicate k (mp_name p)" by blast
  with assms show ?thesis unfolding attempt_post_def by simp
qed

lemma attempt_loop_post:
  "attempt_loop G clk rnd p q c h dl n failure st = (r, st') \<Longrightarrow> attempt_post p q c h n st r st'"
proof (induction n arbitrary: failure st)
  case 0
  then show ?case by (auto simp: attempt_post_def)
next
  case (Suc n)
  show ?case
  proof (cases "mp_complete p (length (gs_calls st)) q c h")
    case (Inr g)
    with Suc.prems have "r = Inr (Some g, None)"
      "st' = gw_success (mp_name p) (st\<lparr>gs_calls := gs_calls st @ [mp_name p]\<rparr>)"
      by (simp_all add: attempt_loop_ok)
    with Inr show ?thesis by (intro attempt_post_once) (auto simp: record_success_def)
  next
    case (Inl exc)
    from Inl show ?thesis
    proof (cases rule: attempt_loop_failed[where G = G and clk = clk and rnd = rnd and dl = dl
          and n = n and failure = failure])
      case (stop failure' s)
      with Suc.prems show ?thesis by (intro attempt_post_once) auto
    next
      case (raise e s)
      then have "\<not> retry_readable exc" by (simp add: retry_readable_def)
      with raise Suc.prems Inl show ?thesis by (intro attempt_post_once) auto
    next
      case (retry failure' s)
      with Suc show ?thesis by (intro attempt_post_retry[of p q c h n s]) auto
    qed
  qed
qed

lemma attempt_post: "attempt G clk rnd p q c h dl st = (r, st') \<Longrightarrow>
    attempt_post p q c h (nat (gw_max_attempts G)) st r st'"
  unfolding attempt_def by (rule attempt_loop_post)

text \<open>The ways one provider of the loop can go.\<close>

lemma provider_loop_cases:
  obtains (skip) msgs' st1 where "gw_allow clk (mp_name p) st = (False, st1)"
      "provider_loop G clk rnd q c h dl (p # ps) msgs st = provider_loop G clk rnd q c h dl ps msgs' st1"
  | (raise) st1 e st2 where "gw_allow clk (mp_name p) st = (True, st1)"
      "attempt G clk rnd p q c h dl st1 = (Inl e, st2)"
      "provider_loop G clk rnd q c h dl (p # ps) msgs st = (Inl e, st2)"
  | (answer) st1 g f st2 where "gw_allow clk (mp_name p) st = (True, st1)"
      "attempt G clk rnd p q c h dl st1 = (Inr (Some g, f), st2)"
      "provider_loop G clk rnd q c h dl (p # ps) msgs st = (Inr (priced (gw_pricing G) g), st2)"
  | (failed) st1 f st2 msgs' where "gw_allow clk (mp_name p) st = (True, st1)"
      "attempt G clk rnd p q c h dl st1 = (Inr (None, f), st2)"
      "provider_loop G clk rnd q c h dl (p # ps) msgs st = provider_loop G clk rnd q c h dl ps msgs' st2"
proof -
  obtain ok st1 where a: "gw_allow clk (mp_name p) st = (ok, st1)" by (metis surj_pair)
  show thesis
  proof (cases ok)
    case False
    with a show thesis by (intro skip) auto
  next
    case True
    obtain r st2 where t: "attempt G clk rnd p q c h dl st1 = (r, st2)" by (metis surj_pair)
    show thesis
    proof (cases r)
      case (Inl e)
      with a t True show thesis by (intro raise) auto
    next
      case (Inr x)
      obtain g f where x: "x = (g, f)" by (metis surj_pair)
      show thesis
      proof (cases g)
        case None
        with a t True Inr x show thesis by (intro failed) auto
      next
        case (Some g')
        with a t True Inr x show thesis by (intro answer) auto
      qed
    qed
  qed
qed

definition degraded_answer :: "string list \<Rightarrow> generation \<Rightarrow> bool" where
  "degraded_answer packed g = (gen_degraded g \<and> gen_text g = extractive_generate packed \<and> gen_model g = ''extractive'')"

lemma provider_loop_result:
  assumes "\<And>p i exc. p \<in> set ps \<Longrightarrow> mp_complete p i q c h = Inl exc \<Longrightarrow> retry_readable exc"
  shows "\<exists>g st'. provider_loop G clk rnd q c h dl ps msgs st = (Inr g, st') \<and>
    (degraded_answer c g \<or> (\<exists>p\<in>set ps. \<exists>i g0. mp_complete p i q c h = Inr g0 \<and> g = priced (gw_pricing G) g0))"
  using assms
proof (induction ps arbitrary: msgs st)
  case Nil
  show ?case by (simp add: degraded_answer_def extractive_complete_def mk_generation_def)
next
  case (Cons p ps)
  show ?case
  proof (cases rule: provider_loop_cases[where G = G and clk = clk and rnd = rnd and q = q and c = c
        and h = h and dl = dl and p = p and ps = ps and msgs = msgs and st = st])
    case (skip msgs' st1)
    then show ?thesis using Cons.IH[of msgs' st1] Cons.prems by fastforce
  next
    case (raise st1 e st2)
    then show ?thesis using attempt_post[OF raise(2)] Cons.prems[of p]
      unfolding attempt_post_def by fastforce
  next
    case (answer st1 g f st2)
    then show ?thesis using attempt_post[OF answer(2)] unfolding attempt_post_def by fastforce
  next
    case (failed st1 f st2 msgs')
    then show ?thesis using Cons.IH[of msgs' st2] Cons.prems by fastforce
  qed
qed

lemma count_list_replicate: "count_list (replicate k x) y = (if x = y then k else 0)"
  by (induction k) auto

lemma provider_loop_calls:
  "provider_loop G clk rnd q c h dl ps msgs st = (r, st') \<Longrightarrow>
   \<exists>cs. gs_calls st' = gs_calls st @ cs \<and>
     (\<forall>name. count_list cs name \<le> nat (gw_max_attempts G) * length (filter (\<lambda>p. mp_name p = name) ps))"
proof (induction ps arbitrary: msgs st)
  case (Cons p ps)
  let ?n = "nat (gw_max_attempts G)" and ?of = "\<lambda>name ps. length (filter (\<lambda>p. mp_name p = name) ps)"
  have made: "\<exists>k\<le>?n. gs_calls st2 = gs_calls st @ replicate k (mp_name p)"
    if "gw_allow clk (mp_name p) st = (True, st1)" "attempt G clk rnd p q c h dl st1 = (x, st2)" for st1 x st2
    using attempt_post[OF that(2)] gw_allow_calls[OF that(1)] by (simp add: attempt_post_def)
  have one: "count_list (replicate k (mp_name p)) name \<le> ?n * ?of name [p]" if "k \<le> ?n" for k name
    using that by (simp add: count_list_replicate)
  show ?case
  proof (cases rule: provider_loop_cases[where G = G and clk = clk and rnd = rnd and q = q and c = c
        and h = h and dl = dl and p = p and ps = ps and msgs = msgs and st = st])
    case (skip msgs' st1)
    then obtain cs where "gs_calls st' = gs_calls st @ cs" "\<forall>name. count_list cs name \<le> ?n * ?of name ps"
      using Cons.IH[of msgs' st1] Cons.prems gw_allow_calls[OF skip(1)] by auto
    then show ?thesis by (fastforce intro: le_trans)
  next
    case (raise st1 e st2)
    with Cons.prems made[OF raise(1,2)] one show ?thesis by (fastforce intro: le_trans)
  next
    case (answer st1 g f st2)
    with Cons.prems made[OF answer(1,2)] one show ?thesis by (fastforce intro: le_trans)
  next
    case (failed st1 f st2 msgs')
    obtain k where k: "k \<le> ?n" "gs_calls st2 = gs_calls st @ replicate k (mp_name p)"
      using made[OF failed(1,2)] by blast
    obtain cs where cs: "gs_calls st' = gs_calls st2 @ cs" "\<forall>name. count_list cs name \<le> ?n * ?of name ps"
      using Cons.IH[of msgs' st2] Cons.prems failed(3) by auto
    have "count_list (replicate k (mp_name p) @ cs) name \<le> ?n * ?of name (p # ps)" for name
      using one[OF k(1), of name] cs(2)[rule_format, of name] by (auto split: if_splits)
    with k(2) cs(1) show ?thesis by (metis append.assoc)
  qed
qed simp

lemma provider_loop_trials:
  "provider_loop G clk rnd q c h dl ps msgs st = (r, st') \<Longrightarrow> 1 \<le> gw_max_attempts G \<Longrightarrow>
   \<forall>name. \<not> trial_in_flight (breaker_of st name) \<Longrightarrow> \<forall>name. \<not> trial_in_flight (breaker_of st' name)"
proof (induction ps arbitrary: msgs st)
  case (Cons p ps)
  have after_attempt: "\<forall>name. \<not> trial_in_flight (breaker_of st2 name)"
    if "gw_allow clk (mp_name p) st = (True, st1)" "attempt G clk rnd p q c h dl st1 = (x, st2)" for st1 x st2
  proof
    fix name
    have "0 < nat (gw_max_attempts G)" using Cons.prems(2) by simp
    then show "\<not> trial_in_flight (breaker_of st2 name)"
      using attempt_post[OF that(2)] gw_allow_breaker(1)[OF that(1), of name] Cons.prems(3)
      by (cases "name = mp_name p") (auto simp: attempt_post_def)
  qed
  show ?case
  proof (cases rule: provider_loop_cases[where G = G and clk = clk and rnd = rnd and q = q and c = c
        and h = h and dl = dl and p = p and ps = ps and msgs = msgs and st = st])
    case (skip msgs' st1)
    have "\<forall>name. \<not> trial_in_flight (breaker_of st1 name)"
      using gw_allow_breaker[OF skip(1)] Cons.prems(3) by metis
    then show ?thesis using Cons.IH[of msgs' st1] Cons.prems skip by auto
  next
    case (raise st1 e st2)
    then show ?thesis using after_attempt[OF raise(1,2)] Cons.prems by simp
  next
    case (answer st1 g f st2)
    then show ?thesis using after_attempt[OF answer(1,2)] Cons.prems by simp
  next
    case (failed st1 f st2 msgs')
    then show ?thesis using after_attempt[OF failed(1,2)] Cons.IH[of msgs' st2] Cons.prems by auto
  qed
qed simp


definition sample_gateway :: "model_provider list \<Rightarrow> gateway" where
  "sample_gateway ps = \<lparr>gw_providers = ps, gw_budget = \<lparr>max_context_tokens = 3000, max_history_tokens = 1000\<rparr>,
     gw_pricing = [], gw_max_attempts = 3, gw_base_delay = 1/2, gw_max_delay = 8, gw_deadline = 45\<rparr>"

definition failing_provider :: "exn \<Rightarrow> model_provider" where
  "failing_provider e = \<lparr>mp_name = ''m'', mp_complete = (\<lambda>_ _ _ _. Inl e), mp_rewrite = heuristic_rewrite\<rparr>"


text \<open>Calls are bounded: during one gateway call the providers registered under a name are called
  at most \<open>max_attempts\<close> times each, so a request makes at most \<open>max_attempts\<close> times the number of
  providers model calls.\<close>

theorem gateway_calls_bounded:
  assumes "gateway_complete G clk rnd question context history st = (r, st')"
  shows "\<exists>cs. gs_calls st' = gs_calls st @ cs \<and>
    (\<forall>name. count_list cs name \<le> nat (gw_max_attempts G) * length (filter (\<lambda>p. mp_name p = name) (gw_providers G)))"
  using provider_loop_calls assms unfolding gateway_complete_def by fastforce

theorem gateway_calls_bounded_witness:
  "let (r, st') = gateway_complete (sample_gateway [failing_provider TimeoutError]) real (\<lambda>_ x. x) ''q'' [] []
      (init_gateway (sample_gateway [failing_provider TimeoutError]) [])
   in count_list (gs_calls st') ''m'' \<le> 3"
proof -
  let ?G = "sample_gateway [failing_provider TimeoutError]"
  obtain r st' where run: "gateway_complete ?G real (\<lambda>_ x. x) ''q'' [] [] (init_gateway ?G []) = (r, st')"
    by (metis surj_pair)
  from gateway_calls_bounded[OF run] obtain cs where "gs_calls st' = gs_calls (init_gateway ?G []) @ cs"
    "count_list cs ''m'' \<le> nat (gw_max_attempts ?G) * length (filter (\<lambda>p. mp_name p = ''m'') (gw_providers ?G))"
    by blast
  with run show ?thesis by (simp add: sample_gateway_def failing_provider_def init_gateway_def)
qed

text \<open>No call leaves a half-open breaker stuck: if no trial was in flight before a gateway call,
  none is in flight after it, whether the call answered, degraded or raised; so a provider that has
  recovered is always tried again.\<close>

theorem gateway_leaves_no_trial:
  assumes "gateway_complete G clk rnd question context history st = (r, st')" "1 \<le> gw_max_attempts G"
    and "\<forall>name. \<not> trial_in_flight (breaker_of st name)"
  shows "\<not> trial_in_flight (breaker_of st' name)"
proof -
  let ?st1 = "st\<lparr>gs_ticks := gs_ticks st + 1\<rparr>"
  have "\<forall>name. \<not> trial_in_flight (breaker_of ?st1 name)" using assms(3) by simp
  then show ?thesis
    using provider_loop_trials[OF _ assms(2), where st = ?st1] assms(1) unfolding gateway_complete_def
    by fastforce
qed

theorem gateway_leaves_no_trial_witness:
  "let (r, st') = gateway_complete (sample_gateway [failing_provider TimeoutError]) real (\<lambda>_ x. x) ''q'' [] []
      (init_gateway (sample_gateway [failing_provider TimeoutError]) [])
   in \<not> trial_in_flight (breaker_of st' ''m'')"
proof -
  let ?G = "sample_gateway [failing_provider TimeoutError]"
  obtain r st' where run: "gateway_complete ?G real (\<lambda>_ x. x) ''q'' [] [] (init_gateway ?G []) = (r, st')"
    by (metis surj_pair)
  moreover have "1 \<le> gw_max_attempts ?G" by (simp add: sample_gateway_def)
  moreover have "\<forall>name. \<not> trial_in_flight (breaker_of (init_gateway ?G []) name)"
    by (simp add: breaker_of_def init_gateway_def sample_gateway_def setdefault_def mk_breaker_def)
  ultimately show ?thesis using gateway_leaves_no_trial[of ?G real "\<lambda>_ x. x" "''q''" "[]" "[]" _ r st' "''m''"] by simp
qed

lemma superscript_retry_after:
  "retry_after_seconds (HTTPError 429 (Some [CHR 0xB2])) = Inl (ValueError ''could not convert string to float'')"
  by code_simp

text \<open>A \<open>retry-after\<close> header that \<open>str.isdigit\<close> accepts but \<open>float\<close> does not, such as a
  superscript two, makes the gateway raise instead of degrading to the extractive answer.\<close>

theorem gateway_raises_on_superscript_retry_after:
  "fst (gateway_complete (sample_gateway [failing_provider (HTTPError 429 (Some [CHR 0xB2]))]) real (\<lambda>_ x. x)
      ''q'' [''Refunds.''] [] (init_gateway (sample_gateway [failing_provider (HTTPError 429 (Some [CHR 0xB2]))]) []))
   = Inl (ValueError ''could not convert string to float'')"
  by (simp add: gateway_complete_def sample_gateway_def failing_provider_def init_gateway_def setdefault_def
      gw_allow_def gw_failure_def allow_def state_def breaker_of_def set_breaker_def mk_breaker_def attempt_def
      record_failure_def superscript_retry_after numeral_3_eq_3 del: retry_after_seconds.simps)

end
