(* ===== verification/History.thy ===== *)
theory History
  imports Providers
begin

text \<open>
  Chat history (\<open>history.py\<close>). The contract both stores promise is the locale \<open>chat_history\<close>: per
  tenant, user and session a store shows the last \<open>window\<close> turns. It is interpreted by the in-memory
  store and by the PostgreSQL store, whose SQL statements are written as operations on the rows of
  \<open>chat_messages\<close>; their equivalence follows.
\<close>

type_synonym session_key = "string \<times> string \<times> string"

section \<open>The contract\<close>

datatype hist_op = HGet session_key | HAppend session_key "chat_turn list" | HClear session_key

text \<open>The whole conversation of a session, as if nothing were ever dropped.\<close>

fun log_op :: "session_key \<Rightarrow> chat_turn list \<Rightarrow> hist_op \<Rightarrow> chat_turn list" where
  "log_op k h (HGet k') = h"
| "log_op k h (HAppend k' ts) = (if k' = k then h @ ts else h)"
| "log_op k h (HClear k') = (if k' = k then [] else h)"

definition full_log :: "session_key \<Rightarrow> hist_op list \<Rightarrow> chat_turn list" where
  "full_log k ops = foldl (log_op k) [] ops"

lemma full_log_simps [simp]:
  "full_log k [] = []"
  "full_log k (ops @ [op1]) = log_op k (full_log k ops) op1"
  by (simp_all add: full_log_def)

lemma last_n_append_last_n: "last_n n (last_n n xs @ ys) = last_n n (xs @ ys)"
proof (cases "length xs \<le> n")
  case True
  then show ?thesis by (simp add: last_n_def)
next
  case False
  then show ?thesis by (simp add: last_n_def drop_append add.commute)
qed

lemma length_last_n: "length (last_n n xs) = min n (length xs)"
  by (simp add: last_n_def)

lemma last_n_Nil [simp]: "last_n n [] = []"
  by (simp add: last_n_def)

locale chat_history =
  fixes get :: "'s \<Rightarrow> session_key \<Rightarrow> chat_turn list \<times> 's"
    and append :: "'s \<Rightarrow> session_key \<Rightarrow> chat_turn list \<Rightarrow> 's"
    and clear :: "'s \<Rightarrow> session_key \<Rightarrow> 's"
    and inv :: "'s \<Rightarrow> bool"
    and window :: nat
  assumes inv_get: "inv s \<Longrightarrow> inv (snd (get s k))"
    and inv_append: "inv s \<Longrightarrow> inv (append s k ts)"
    and inv_clear: "inv s \<Longrightarrow> inv (clear s k)"
    and get_get: "inv s \<Longrightarrow> fst (get (snd (get s k)) k') = fst (get s k')"
    and get_append: "inv s \<Longrightarrow> fst (get (append s k ts) k') =
      (if k' = k then last_n window (fst (get s k) @ ts) else fst (get s k'))"
    and get_clear: "inv s \<Longrightarrow> fst (get (clear s k) k') = (if k' = k then [] else fst (get s k'))"
begin

definition apply_op :: "'s \<Rightarrow> hist_op \<Rightarrow> 's" where
  "apply_op s op1 = (case op1 of HGet k \<Rightarrow> snd (get s k) | HAppend k ts \<Rightarrow> append s k ts | HClear k \<Rightarrow> clear s k)"

lemma apply_op_simps [simp]:
  "apply_op s (HGet k) = snd (get s k)"
  "apply_op s (HAppend k ts) = append s k ts"
  "apply_op s (HClear k) = clear s k"
  by (simp_all add: apply_op_def)

lemma inv_run: "inv s \<Longrightarrow> inv (foldl apply_op s ops)"
proof (induction ops arbitrary: s)
  case (Cons op1 ops)
  then have "inv (apply_op s op1)" by (cases op1) (simp_all add: inv_get inv_append inv_clear)
  with Cons.IH show ?case by simp
qed simp

lemma get_run:
  assumes "inv s" "\<And>k. fst (get s k) = []"
  shows "fst (get (foldl apply_op s ops) k) = last_n window (full_log k ops)"
proof (induction ops arbitrary: k rule: rev_induct)
  case Nil
  then show ?case using assms by simp
next
  case (snoc op1 ops)
  let ?s = "foldl apply_op s ops"
  have "inv ?s" using assms(1) by (rule inv_run)
  then show ?case
    using snoc.IH
    by (cases op1) (simp_all add: get_get get_append get_clear last_n_append_last_n)
qed

end

section \<open>In memory\<close>

record history_store =
  max_messages :: nat
  messages :: "session_key \<Rightarrow> chat_turn list option"

definition mk_history_store :: "int \<Rightarrow> history_store res" where
  "mk_history_store max_turns =
     (if max_turns \<le> 0 then Inl (ValueError ''max_turns must be positive'')
      else Inr \<lparr>max_messages = nat (max_turns * 2), messages = (\<lambda>_. None)\<rparr>)"

text \<open>Reading \<open>defaultdict(list)\<close> at a missing key inserts the empty list.\<close>

definition entry :: "history_store \<Rightarrow> session_key \<Rightarrow> chat_turn list" where
  "entry h k = (case messages h k of None \<Rightarrow> [] | Some ts \<Rightarrow> ts)"

definition history_get :: "history_store \<Rightarrow> session_key \<Rightarrow> chat_turn list \<times> history_store" where
  "history_get h k = (entry h k, h\<lparr>messages := (messages h)(k \<mapsto> entry h k)\<rparr>)"

definition history_append :: "history_store \<Rightarrow> session_key \<Rightarrow> chat_turn list \<Rightarrow> history_store" where
  "history_append h k turns =
     h\<lparr>messages := (messages h)(k \<mapsto> last_n (max_messages h) (entry h k @ turns))\<rparr>"

definition history_clear :: "history_store \<Rightarrow> session_key \<Rightarrow> history_store" where
  "history_clear h k = h\<lparr>messages := (messages h)(k := None)\<rparr>"

interpretation memory_history: chat_history history_get history_append history_clear
  "\<lambda>h. max_messages h = w" w for w
  by unfold_locales (auto simp: history_get_def history_append_def history_clear_def entry_def)

section \<open>In PostgreSQL\<close>

record chat_row =
  cr_id :: nat
  cr_key :: session_key
  cr_turn :: chat_turn

text \<open>
  The table with its identity sequence. A statement runs with \<open>app.tenant_id\<close> set, so row security
  hides the rows of other tenants; the statements name the tenant as well.
\<close>

record chat_table =
  chat_rows :: "chat_row list"
  chat_next_id :: nat

definition rls_visible :: "string \<Rightarrow> chat_row \<Rightarrow> bool" where
  "rls_visible tenant r = (fst (cr_key r) = tenant)"

text \<open>\<open>SELECT ... WHERE tenant_id = .. AND user_id = .. AND session_id = .. ORDER BY id DESC LIMIT n\<close>\<close>

definition recent_rows :: "chat_table \<Rightarrow> session_key \<Rightarrow> nat \<Rightarrow> chat_row list" where
  "recent_rows T k n =
     take n (rev (sort_key cr_id (filter (\<lambda>r. rls_visible (fst k) r \<and> cr_key r = k) (chat_rows T))))"

definition pg_history_get :: "nat \<Rightarrow> chat_table \<Rightarrow> session_key \<Rightarrow> chat_turn list \<times> chat_table" where
  "pg_history_get w T k = (map cr_turn (sort_key cr_id (recent_rows T k w)), T)"

definition insert_chat_row :: "session_key \<Rightarrow> chat_table \<Rightarrow> chat_turn \<Rightarrow> chat_table" where
  "insert_chat_row k T t = \<lparr>chat_rows = chat_rows T @ [\<lparr>cr_id = chat_next_id T, cr_key = k, cr_turn = t\<rparr>],
     chat_next_id = chat_next_id T + 1\<rparr>"

definition pg_history_append :: "nat \<Rightarrow> chat_table \<Rightarrow> session_key \<Rightarrow> chat_turn list \<Rightarrow> chat_table" where
  "pg_history_append w T k turns =
     (let T1 = foldl (insert_chat_row k) T turns;
          kept = map cr_id (recent_rows T1 k w) in
      T1\<lparr>chat_rows := filter (\<lambda>r. \<not> (rls_visible (fst k) r \<and> cr_key r = k \<and> cr_id r \<notin> set kept)) (chat_rows T1)\<rparr>)"

definition pg_history_clear :: "chat_table \<Rightarrow> session_key \<Rightarrow> chat_table" where
  "pg_history_clear T k = T\<lparr>chat_rows := filter (\<lambda>r. \<not> (rls_visible (fst k) r \<and> cr_key r = k)) (chat_rows T)\<rparr>"

text \<open>Identifiers increase along the table and stay below the sequence; a session fits the window.\<close>

definition session_rows :: "chat_table \<Rightarrow> session_key \<Rightarrow> chat_row list" where
  "session_rows T k = filter (\<lambda>r. cr_key r = k) (chat_rows T)"

definition chat_table_ok :: "nat \<Rightarrow> chat_table \<Rightarrow> bool" where
  "chat_table_ok w T = (sorted_wrt (<) (map cr_id (chat_rows T)) \<and> (\<forall>r\<in>set (chat_rows T). cr_id r < chat_next_id T)
     \<and> (\<forall>k. length (session_rows T k) \<le> w))"

lemma filter_ids_drop:
  "distinct (map f xs) \<Longrightarrow> filter (\<lambda>x. f x \<in> set (map f (drop n xs))) xs = drop n xs"
proof (induction xs arbitrary: n)
  case (Cons x xs)
  show ?case
  proof (cases n)
    case 0
    then show ?thesis by simp
  next
    case (Suc m)
    have "f x \<notin> set (map f (drop m xs))" using Cons.prems in_set_dropD by fastforce
    with Suc Cons show ?thesis by simp
  qed
qed simp

lemma sort_key_sorted: "sorted_wrt (<) (map f xs) \<Longrightarrow> sort_key f xs = xs"
  by (intro sort_key_id_if_sorted) (simp add: strict_sorted_imp_sorted)

lemma filter_same_id: "distinct (map f xs) \<Longrightarrow> k \<in> set xs \<Longrightarrow> filter (\<lambda>x. f k = f x) xs = [k]"
proof (induction xs)
  case (Cons x xs)
  show ?case
  proof (cases "k = x")
    case True
    have "f x \<noteq> f y" if "y \<in> set xs" for y using Cons.prems(1) that by (auto simp: image_iff)
    then have "filter (\<lambda>y. f x = f y) xs = []" by (simp add: filter_empty_conv)
    with True show ?thesis by simp
  next
    case False
    with Cons.prems have "k \<in> set xs" "f k \<noteq> f x" by (auto simp: image_iff)
    with Cons show ?thesis by simp
  qed
qed simp

lemma sort_key_rev: "sorted_wrt (<) (map (f :: 'a \<Rightarrow> nat) xs) \<Longrightarrow> sort_key f (rev xs) = xs"
proof (intro properties_for_sort_key)
  assume s: "sorted_wrt (<) (map f xs)"
  then have d: "distinct (map f xs)" using strict_sorted_iff by blast
  show "filter (\<lambda>x. f k = f x) xs = filter (\<lambda>x. f k = f x) (rev xs)" if "k \<in> set xs" for k
    using that filter_same_id[OF d, of k] by (simp add: rev_filter[symmetric])
  show "sorted (map f xs)" using s by (simp add: strict_sorted_imp_sorted)
qed simp

lemma sorted_wrt_filter_map: "sorted_wrt (<) (map f xs) \<Longrightarrow> sorted_wrt (<) (map f (filter P xs))"
  by (simp add: sorted_wrt_map sorted_wrt_filter)

lemma session_rows_sorted:
  "sorted_wrt (<) (map cr_id (chat_rows T)) \<Longrightarrow> sorted_wrt (<) (map cr_id (session_rows T k))"
  unfolding session_rows_def by (rule sorted_wrt_filter_map)

lemma recent_rows_eq:
  assumes "sorted_wrt (<) (map cr_id (chat_rows T))"
  shows "recent_rows T k n = rev (last_n n (session_rows T k))"
proof -
  have "filter (\<lambda>r. rls_visible (fst k) r \<and> cr_key r = k) (chat_rows T) = session_rows T k"
    by (auto simp: session_rows_def rls_visible_def intro: filter_cong)
  then show ?thesis
    using sort_key_sorted[OF session_rows_sorted[OF assms, of k]]
    by (simp add: recent_rows_def last_n_def take_rev)
qed

lemma chat_table_okD:
  assumes "chat_table_ok w T"
  shows "sorted_wrt (<) (map cr_id (chat_rows T))" "\<forall>r\<in>set (chat_rows T). cr_id r < chat_next_id T"
    "length (session_rows T k) \<le> w"
  using assms unfolding chat_table_ok_def by blast+

lemma chat_table_okI:
  assumes "sorted_wrt (<) (map cr_id (chat_rows T))" "\<forall>r\<in>set (chat_rows T). cr_id r < chat_next_id T"
    "\<And>k. length (session_rows T k) \<le> w"
  shows "chat_table_ok w T"
  using assms unfolding chat_table_ok_def by blast

lemma pg_history_get_eq:
  assumes "chat_table_ok w T"
  shows "fst (pg_history_get w T k) = map cr_turn (session_rows T k)"
proof -
  have s: "sorted_wrt (<) (map cr_id (chat_rows T))" and l: "length (session_rows T k) \<le> w"
    using chat_table_okD[OF assms] by auto
  have "recent_rows T k w = rev (session_rows T k)" using recent_rows_eq[OF s] l by (simp add: last_n_def)
  then show ?thesis using sort_key_rev[OF session_rows_sorted[OF s, of k]] by (simp add: pg_history_get_def)
qed

lemma insert_rows_conj:
  assumes "sorted_wrt (<) (map cr_id (chat_rows T))" "\<forall>r\<in>set (chat_rows T). cr_id r < chat_next_id T"
    and "T1 = foldl (insert_chat_row k) T turns"
  shows "sorted_wrt (<) (map cr_id (chat_rows T1)) \<and> (\<forall>r\<in>set (chat_rows T1). cr_id r < chat_next_id T1)
    \<and> map cr_turn (session_rows T1 k) = map cr_turn (session_rows T k) @ turns
    \<and> (\<forall>k'. k' \<noteq> k \<longrightarrow> session_rows T1 k' = session_rows T k')"
  using assms
proof (induction turns arbitrary: T)
  case (Cons t turns)
  let ?T = "insert_chat_row k T t"
  have ok: "sorted_wrt (<) (map cr_id (chat_rows ?T))" "\<forall>r\<in>set (chat_rows ?T). cr_id r < chat_next_id ?T"
    using Cons.prems by (auto simp: insert_chat_row_def sorted_wrt_append)
  have rows: "session_rows ?T k = session_rows T k @ [\<lparr>cr_id = chat_next_id T, cr_key = k, cr_turn = t\<rparr>]"
    "\<And>k'. k' \<noteq> k \<Longrightarrow> session_rows ?T k' = session_rows T k'"
    by (simp_all add: insert_chat_row_def session_rows_def)
  have "T1 = foldl (insert_chat_row k) ?T turns" using Cons.prems by simp
  with Cons.IH[OF ok] rows show ?case by simp
qed simp

lemma insert_rows:
  assumes "sorted_wrt (<) (map cr_id (chat_rows T))" "\<forall>r\<in>set (chat_rows T). cr_id r < chat_next_id T"
    and "T1 = foldl (insert_chat_row k) T turns"
  shows "sorted_wrt (<) (map cr_id (chat_rows T1))" "\<forall>r\<in>set (chat_rows T1). cr_id r < chat_next_id T1"
    "map cr_turn (session_rows T1 k) = map cr_turn (session_rows T k) @ turns"
    "k' \<noteq> k \<Longrightarrow> session_rows T1 k' = session_rows T k'"
  using insert_rows_conj[OF assms] by blast+

lemma pg_append_rows:
  assumes "chat_table_ok w T"
    and T1_def: "T1 = foldl (insert_chat_row k) T turns"
  shows "session_rows (pg_history_append w T k turns) k' =
    (if k' = k then last_n w (session_rows T1 k) else session_rows T k')"
proof -
  have T: "sorted_wrt (<) (map cr_id (chat_rows T))" "\<forall>r\<in>set (chat_rows T). cr_id r < chat_next_id T"
    using chat_table_okD[OF assms(1)] by auto
  note T1 = insert_rows[OF T T1_def]
  let ?keep = "set (map cr_id (last_n w (session_rows T1 k)))"
  have app: "chat_rows (pg_history_append w T k turns) = filter (\<lambda>r. \<not> (cr_key r = k \<and> cr_id r \<notin> ?keep)) (chat_rows T1)"
    by (auto simp: pg_history_append_def rls_visible_def recent_rows_eq[OF T1(1)] T1_def[symmetric] intro: filter_cong)
  show ?thesis
  proof (cases "k' = k")
    case True
    have "distinct (map cr_id (session_rows T1 k))"
      using session_rows_sorted[OF T1(1), of k] strict_sorted_iff by blast
    then have "filter (\<lambda>r. cr_id r \<in> ?keep) (session_rows T1 k) = last_n w (session_rows T1 k)"
      using filter_ids_drop by (simp only: last_n_def)
    moreover have "session_rows (pg_history_append w T k turns) k = filter (\<lambda>r. cr_id r \<in> ?keep) (session_rows T1 k)"
      unfolding app session_rows_def[of "pg_history_append w T k turns"] session_rows_def[of T1]
      by (auto intro: filter_cong)
    ultimately show ?thesis using True by simp
  next
    case False
    then have "session_rows (pg_history_append w T k turns) k' = session_rows T1 k'"
      by (auto simp: session_rows_def app intro: filter_cong)
    with False T1(4) show ?thesis by simp
  qed
qed

lemma pg_append_ok:
  assumes "chat_table_ok w T"
  shows "chat_table_ok w (pg_history_append w T k turns)"
proof (rule chat_table_okI)
  note T = chat_table_okD(1,2)[OF assms]
  let ?T = "pg_history_append w T k turns"
  show "sorted_wrt (<) (map cr_id (chat_rows ?T))" "\<forall>r\<in>set (chat_rows ?T). cr_id r < chat_next_id ?T"
    using insert_rows(1,2)[OF T refl, of k turns] by (simp_all add: pg_history_append_def sorted_wrt_filter_map)
  show "length (session_rows ?T k') \<le> w" for k'
    using chat_table_okD(3)[OF assms, of k'] by (simp add: pg_append_rows[OF assms refl] length_last_n)
qed

lemma pg_clear_rows: "session_rows (pg_history_clear T k) k' = (if k' = k then [] else session_rows T k')"
  by (auto simp: session_rows_def pg_history_clear_def rls_visible_def filter_empty_conv intro: filter_cong)

lemma pg_clear_ok: "chat_table_ok w T \<Longrightarrow> chat_table_ok w (pg_history_clear T k)"
  using chat_table_okD[of w T] pg_clear_rows[of T k]
  by (intro chat_table_okI) (auto simp: pg_history_clear_def sorted_wrt_filter_map)

lemma map_last_n: "map f (last_n n xs) = last_n n (map f xs)"
  by (simp add: last_n_def drop_map)

interpretation pg_history: chat_history "pg_history_get w" "pg_history_append w" pg_history_clear
  "chat_table_ok w" w for w
proof
  fix T k k' turns
  assume ok: "chat_table_ok w T"
  note T = chat_table_okD(1,2)[OF ok]
  show "chat_table_ok w (snd (pg_history_get w T k))"
    "fst (pg_history_get w (snd (pg_history_get w T k)) k') = fst (pg_history_get w T k')"
    using ok by (simp_all add: pg_history_get_def)
  show "chat_table_ok w (pg_history_append w T k turns)" using ok by (rule pg_append_ok)
  show "chat_table_ok w (pg_history_clear T k)" using ok by (rule pg_clear_ok)
  show "fst (pg_history_get w (pg_history_append w T k turns) k') =
      (if k' = k then last_n w (fst (pg_history_get w T k) @ turns) else fst (pg_history_get w T k'))"
    using ok pg_append_ok[OF ok] insert_rows(3)[OF T refl, of k turns]
    by (simp add: pg_history_get_eq pg_append_rows[OF ok refl] map_last_n)
  show "fst (pg_history_get w (pg_history_clear T k) k') = (if k' = k then [] else fst (pg_history_get w T k'))"
    using ok pg_clear_ok[OF ok] by (simp add: pg_history_get_eq pg_clear_rows)
qed

section \<open>Properties\<close>

definition empty_chat_table :: chat_table where
  "empty_chat_table = \<lparr>chat_rows = [], chat_next_id = 1\<rparr>"

lemma empty_chat_table_ok [simp]: "chat_table_ok w empty_chat_table"
  by (simp add: chat_table_ok_def empty_chat_table_def session_rows_def)

lemma empty_table_get [simp]: "fst (pg_history_get w empty_chat_table k) = []"
  by (simp add: pg_history_get_eq[OF empty_chat_table_ok]) (simp add: empty_chat_table_def session_rows_def)

abbreviation run_memory :: "history_store \<Rightarrow> hist_op list \<Rightarrow> history_store" where
  "run_memory \<equiv> foldl (chat_history.apply_op history_get history_append history_clear)"

abbreviation run_pg :: "nat \<Rightarrow> chat_table \<Rightarrow> hist_op list \<Rightarrow> chat_table" where
  "run_pg w \<equiv> foldl (chat_history.apply_op (pg_history_get w) (pg_history_append w) pg_history_clear)"

text \<open>A session shows the last \<open>max_turns * 2\<close> messages of its own conversation, in order:
  after any sequence of reads, appends and clears over any sessions, \<open>get\<close> returns the end of what was
  appended to this session since it was last cleared, and nothing of any other tenant, user or session.\<close>

theorem history_window:
  assumes "mk_history_store max_turns = Inr h"
  shows "fst (history_get (run_memory h ops) k) = last_n (nat (max_turns * 2)) (full_log k ops)"
proof -
  have h: "max_messages h = nat (max_turns * 2)" "\<And>k. fst (history_get h k) = []"
    using assms by (auto simp: mk_history_store_def history_get_def entry_def split: if_splits)
  show ?thesis using memory_history.get_run[OF h] .
qed

theorem history_window_witness:
  "\<exists>h. mk_history_store 1 = Inr h \<and>
    fst (history_get (run_memory h [HAppend (''t'', ''u'', ''s'') [\<lparr>role = ''user'', content = ''a''\<rparr>,
      \<lparr>role = ''assistant'', content = ''b''\<rparr>, \<lparr>role = ''user'', content = ''c''\<rparr>]]) (''t'', ''u'', ''s''))
    = [\<lparr>role = ''assistant'', content = ''b''\<rparr>, \<lparr>role = ''user'', content = ''c''\<rparr>]"
proof -
  let ?ts = "[\<lparr>role = ''user'', content = ''a''\<rparr>, \<lparr>role = ''assistant'', content = ''b''\<rparr>,
    \<lparr>role = ''user'', content = ''c''\<rparr>]"
  obtain h where "mk_history_store 1 = Inr h" by (simp add: mk_history_store_def)
  moreover have "last_n 2 (full_log (''t'', ''u'', ''s'') [HAppend (''t'', ''u'', ''s'') ?ts]) = drop 1 ?ts"
    by (simp add: full_log_def last_n_def)
  ultimately show ?thesis
    using history_window[of 1 h "[HAppend (''t'', ''u'', ''s'') ?ts]" "(''t'', ''u'', ''s'')"] by simp
qed



end
