(* ===== verification/Observability.thy ===== *)
theory Observability
  imports Rag_Prelude
begin

text \<open>
  Metrics and limits of \<open>observability.py\<close>: counters and the latency histogram with its Prometheus
  rendering (number formatting is a parameter), the token-bucket rate limiter over clock readings, and
  the daily token budget. Logging is not modelled.
\<close>

section \<open>Metrics\<close>

type_synonym labels = "(string \<times> string) list"

definition LATENCY_BUCKETS :: "real list" where
  "LATENCY_BUCKETS = [5/1000, 1/100, 25/1000, 5/100, 1/10, 25/100, 1/2, 1, 5/2, 5, 10, 30]"

record metrics =
  counters :: "(string \<times> (labels \<times> real) list) list"
  help_texts :: "(string \<times> string) list"
  histogram :: "(labels \<times> real list) list"

definition empty_metrics :: metrics where
  "empty_metrics = \<lparr>counters = [], help_texts = [], histogram = []\<rparr>"

definition dict_get :: "('k \<times> 'v) list \<Rightarrow> 'k \<Rightarrow> 'v \<Rightarrow> 'v" where
  "dict_get d k v = (case map_of d k of None \<Rightarrow> v | Some x \<Rightarrow> x)"

definition inc :: "metrics \<Rightarrow> string \<Rightarrow> string \<Rightarrow> real \<Rightarrow> labels \<Rightarrow> metrics" where
  "inc m name help_text v labels =
     (let key = sort labels; series = dict_get (counters m) name [] in
      m\<lparr>help_texts := AList.update name help_text (help_texts m),
        counters := AList.update name (AList.update key (dict_get series key 0 + v) series) (counters m)\<rparr>)"

text \<open>
  A series holds one count per bound, then the sum and the count. \<open>bump\<close> is the loop over the bounds
  followed by the updates of \<open>series[-2]\<close> and \<open>series[-1]\<close>.
\<close>

fun bump :: "real \<Rightarrow> real list \<Rightarrow> real list \<Rightarrow> real list" where
  "bump seconds (bound # bounds) (x # xs) = (if seconds \<le> bound then x + 1 else x) # bump seconds bounds xs"
| "bump seconds [] [ssum, n] = [ssum + seconds, n + 1]"
| "bump seconds _ xs = xs"

definition observe_latency :: "metrics \<Rightarrow> real \<Rightarrow> labels \<Rightarrow> metrics" where
  "observe_latency m seconds labels =
     (let key = sort labels;
          series = dict_get (histogram m) key (replicate (length LATENCY_BUCKETS + 2) 0) in
      m\<lparr>histogram := AList.update key (bump seconds LATENCY_BUCKETS series) (histogram m)\<rparr>)"

definition replace_char :: "char \<Rightarrow> string \<Rightarrow> string \<Rightarrow> string" where
  "replace_char c r s = concat (map (\<lambda>d. if d = c then r else [d]) s)"

definition escape_label :: "string \<Rightarrow> string" where
  "escape_label v = replace_char (CHR 0x22) [CHR 0x5C, CHR 0x22]
     (replace_char (CHR 0x5C) [CHR 0x5C, CHR 0x5C] v)"

definition render_labels :: "labels \<Rightarrow> string" where
  "render_labels pairs =
     (let escaped = map (\<lambda>(key, v). key @ ''='' @ [CHR 0x22] @ escape_label v @ [CHR 0x22]) pairs in
      if escaped \<noteq> [] then ''{'' @ join '','' escaped @ ''}'' else [])"

definition duration_name :: string where
  "duration_name = ''rag_http_request_duration_seconds''"

definition render_counter :: "(real \<Rightarrow> string) \<Rightarrow> metrics \<Rightarrow> string \<Rightarrow> string list" where
  "render_counter fmt_g m name =
     [''# HELP '' @ name @ '' '' @ dict_get (help_texts m) name [], ''# TYPE '' @ name @ '' counter''] @
     map (\<lambda>(key, v). name @ render_labels key @ '' '' @ fmt_g v) (sort_key fst (dict_get (counters m) name []))"

definition render_series :: "(real \<Rightarrow> string) \<Rightarrow> (real \<Rightarrow> string) \<Rightarrow> labels \<times> real list \<Rightarrow> string list" where
  "render_series fmt_g fmt_6f = (\<lambda>(key, series).
     map (\<lambda>(bound, x). duration_name @ ''_bucket'' @ render_labels (key @ [(''le'', fmt_g bound)]) @ '' '' @ fmt_g x)
       (zip LATENCY_BUCKETS series) @
     [duration_name @ ''_bucket'' @ render_labels (key @ [(''le'', ''+Inf'')]) @ '' '' @ fmt_g (last series),
      duration_name @ ''_sum'' @ render_labels key @ '' '' @ fmt_6f (last (butlast series)),
      duration_name @ ''_count'' @ render_labels key @ '' '' @ fmt_g (last series)])"

definition render :: "(real \<Rightarrow> string) \<Rightarrow> (real \<Rightarrow> string) \<Rightarrow> metrics \<Rightarrow> string" where
  "render fmt_g fmt_6f m =
     (let newline = [CHR 0x0A];
          lines = concat (map (render_counter fmt_g m) (sort (map fst (counters m)))) @
            [''# HELP '' @ duration_name @ '' HTTP request latency by route.'',
             ''# TYPE '' @ duration_name @ '' histogram''] @
            concat (map (render_series fmt_g fmt_6f) (sort_key fst (histogram m))) in
      join newline lines @ newline)"

section \<open>Rate limiter\<close>

record rate_limiter =
  rate :: real
  capacity :: real
  buckets :: "string \<Rightarrow> (real \<times> real) option"

definition mk_rate_limiter :: "real \<Rightarrow> real option \<Rightarrow> rate_limiter" where
  "mk_rate_limiter rate_per_minute burst = \<lparr>rate = rate_per_minute / 60,
     capacity = (case burst of Some b \<Rightarrow> b | None \<Rightarrow> max 1 rate_per_minute), buckets = (\<lambda>_. None)\<rparr>"

definition acquire :: "real \<Rightarrow> string \<Rightarrow> rate_limiter \<Rightarrow> real \<times> rate_limiter" where
  "acquire now key L =
     (if rate L \<le> 0 then (0, L)
      else
        let (tokens0, updated) = (case buckets L key of None \<Rightarrow> (capacity L, now) | Some b \<Rightarrow> b);
            tokens = min (capacity L) (tokens0 + (now - updated) * rate L) in
        if tokens \<ge> 1 then (0, L\<lparr>buckets := (buckets L)(key \<mapsto> (tokens - 1, now))\<rparr>)
        else ((1 - tokens) / rate L, L\<lparr>buckets := (buckets L)(key \<mapsto> (tokens, now))\<rparr>))"

section \<open>Daily token budget\<close>

text \<open>The day is the UTC date as an ISO string; an unlimited budget is \<open>None\<close>.\<close>

record token_budget =
  limit :: int
  used :: "(string \<times> string) \<Rightarrow> int"

definition mk_token_budget :: "int \<Rightarrow> token_budget" where
  "mk_token_budget l = \<lparr>limit = l, used = (\<lambda>_. 0)\<rparr>"

definition remaining :: "string \<Rightarrow> token_budget \<Rightarrow> string \<Rightarrow> int option" where
  "remaining day B tenant = (if limit B \<le> 0 then None else Some (limit B - used B (tenant, day)))"

definition spend :: "string \<Rightarrow> token_budget \<Rightarrow> string \<Rightarrow> int \<Rightarrow> token_budget" where
  "spend day B tenant tokens =
     (if limit B > 0 then B\<lparr>used := (used B)((tenant, day) := used B (tenant, day) + tokens)\<rparr> else B)"

definition seconds_until_reset :: "int \<Rightarrow> int \<Rightarrow> int \<Rightarrow> int" where
  "seconds_until_reset hour minute second = 86400 - (hour * 3600 + minute * 60 + second)"

section \<open>Properties of the histogram\<close>

definition observe_all :: "metrics \<Rightarrow> (real \<times> labels) list \<Rightarrow> metrics" where
  "observe_all m obs = foldl (\<lambda>m (seconds, labels). observe_latency m seconds labels) m obs"

text \<open>The series a list of latencies should give: cumulative counts, the sum and the count.\<close>

definition series_of :: "real list \<Rightarrow> real list" where
  "series_of xs = map (\<lambda>b. real (length (filter (\<lambda>x. x \<le> b) xs))) LATENCY_BUCKETS @ [sum_list xs, real (length xs)]"

definition latencies :: "labels \<Rightarrow> (real \<times> labels) list \<Rightarrow> real list" where
  "latencies key obs = map fst (filter (\<lambda>(_, l). sort l = key) obs)"

lemma bump_series:
  "bump s bs (map (\<lambda>b. real (length (filter (\<lambda>x. x \<le> b) xs))) bs @ [t, n])
   = map (\<lambda>b. real (length (filter (\<lambda>x. x \<le> b) (xs @ [s])))) bs @ [t + s, n + 1]"
  by (induction bs) auto

lemma bump_series_of: "bump s LATENCY_BUCKETS (series_of xs) = series_of (xs @ [s])"
  using bump_series[of s LATENCY_BUCKETS xs "sum_list xs" "real (length xs)"] by (simp add: series_of_def)

lemma series_of_Nil: "series_of [] = replicate (length LATENCY_BUCKETS + 2) 0"
  by (simp add: series_of_def LATENCY_BUCKETS_def)

text \<open>The latency histogram is what Prometheus expects: after any observations, the series of a
  label set holds, for each bound, how many of its latencies are at most the bound, then their sum and
  their number; a label set that was never observed has no series.\<close>

theorem histogram_series:
  "map_of (histogram (observe_all empty_metrics obs)) key =
     (if latencies key obs = [] then None else Some (series_of (latencies key obs)))"
proof (induction obs rule: rev_induct)
  case Nil
  then show ?case by (simp add: observe_all_def empty_metrics_def latencies_def)
next
  case (snoc x obs)
  obtain s l where x: "x = (s, l)" by (metis surj_pair)
  let ?m = "observe_all empty_metrics obs"
  have step: "observe_all empty_metrics (obs @ [x]) = observe_latency ?m s l" by (simp add: observe_all_def x)
  have lat: "latencies k (obs @ [x]) = (if sort l = k then latencies k obs @ [s] else latencies k obs)" for k
    by (simp add: latencies_def x)
  have "dict_get (histogram ?m) key (replicate (length LATENCY_BUCKETS + 2) 0) = series_of (latencies key obs)"
    using snoc by (simp add: dict_get_def series_of_Nil)
  then show ?case
    using snoc bump_series_of[of s "latencies key obs"]
    by (cases "sort l = key") (simp_all add: step lat observe_latency_def AList.update_conv)
qed

section \<open>Properties of the limiter\<close>

text \<open>The tokens a key could use at a time.\<close>

definition available :: "rate_limiter \<Rightarrow> string \<Rightarrow> real \<Rightarrow> real" where
  "available L key now = (case buckets L key of None \<Rightarrow> capacity L
     | Some (tokens, updated) \<Rightarrow> min (capacity L) (tokens + (now - updated) * rate L))"

lemma acquire_eq:
  assumes "rate L > 0"
  shows "acquire now key L =
    (if available L key now \<ge> 1 then (0, L\<lparr>buckets := (buckets L)(key \<mapsto> (available L key now - 1, now))\<rparr>)
     else ((1 - available L key now) / rate L, L\<lparr>buckets := (buckets L)(key \<mapsto> (available L key now, now))\<rparr>))"
  using assms by (auto simp: acquire_def available_def split: option.splits)

lemma acquire_keeps: "acquire now key L = (w, L') \<Longrightarrow> rate L' = rate L \<and> capacity L' = capacity L"
  by (auto simp: acquire_def split: if_splits option.splits prod.splits)

text \<open>A bucket never holds more than the capacity and was last updated in the past.\<close>

definition limiter_ok :: "real \<Rightarrow> rate_limiter \<Rightarrow> bool" where
  "limiter_ok now L = (rate L > 0 \<and> capacity L \<ge> 1 \<and>
     (\<forall>key tokens updated. buckets L key = Some (tokens, updated) \<longrightarrow>
        0 \<le> tokens \<and> tokens \<le> capacity L \<and> updated \<le> now))"

lemma limiter_ok_mono: "limiter_ok t L \<Longrightarrow> t \<le> now \<Longrightarrow> limiter_ok now L"
  unfolding limiter_ok_def by force

lemma available_bounds:
  assumes "limiter_ok now L"
  shows "0 \<le> available L key now" "available L key now \<le> capacity L"
  using assms by (auto simp: available_def limiter_ok_def split: option.splits)

lemma available_later:
  assumes "limiter_ok t L" "t \<le> now"
  shows "available L key now \<le> available L key t + rate L * (now - t)"
proof (cases "buckets L key")
  case None
  with assms show ?thesis by (simp add: available_def limiter_ok_def)
next
  case (Some b)
  obtain x u where b: "b = (x, u)" by (metis surj_pair)
  have "x + (now - u) * rate L = x + (t - u) * rate L + rate L * (now - t)" by (simp add: algebra_simps)
  moreover have "0 \<le> rate L * (now - t)" using assms by (simp add: limiter_ok_def)
  ultimately show ?thesis using Some b by (auto simp: available_def min_def)
qed

lemma acquire_ok:
  assumes "limiter_ok now L" "acquire now key L = (w, L')"
  shows "limiter_ok now L'"
  using assms available_bounds[OF assms(1), of key] acquire_eq[of L now key]
  by (auto simp: limiter_ok_def split: if_splits)

fun grants :: "string \<Rightarrow> (real \<times> string) list \<Rightarrow> rate_limiter \<Rightarrow> nat" where
  "grants key [] L = 0"
| "grants key ((now, k) # reqs) L =
     (case acquire now k L of (w, L') \<Rightarrow> (if k = key \<and> w = 0 then 1 else 0) + grants key reqs L')"

lemma acquire_available:
  assumes "limiter_ok now L" "acquire now k L = (w, L')"
  shows "available L' key now + (if k = key \<and> w = 0 then 1 else 0) \<le> available L key now"
proof (cases "k = key")
  case True
  then show ?thesis
    using assms acquire_eq[of L now k] available_bounds[OF assms(1), of k]
    by (auto simp: limiter_ok_def available_def[of L'] split: if_splits)
next
  case False
  then have "buckets L' key = buckets L key" "rate L' = rate L" "capacity L' = capacity L"
    using assms acquire_eq[of L now k] by (auto simp: limiter_ok_def split: if_splits)
  with False show ?thesis by (simp add: available_def split: option.split)
qed

lemma grants_available:
  assumes "limiter_ok t L" "sorted_wrt (\<le>) (map fst reqs)" "\<forall>r\<in>set reqs. t \<le> fst r \<and> fst r \<le> t1" "t \<le> t1"
  shows "real (grants key reqs L) \<le> available L key t + rate L * (t1 - t)"
  using assms
proof (induction reqs arbitrary: t L)
  case Nil
  have "0 \<le> available L key t" using available_bounds Nil by blast
  moreover have "0 \<le> rate L * (t1 - t)" using Nil by (simp add: limiter_ok_def)
  ultimately show ?case by simp
next
  case (Cons r reqs)
  obtain now k where r: "r = (now, k)" by (metis surj_pair)
  obtain w L' where a: "acquire now k L = (w, L')" by (metis surj_pair)
  have t: "t \<le> now" "now \<le> t1" using Cons.prems r by auto
  have ok: "limiter_ok now L" using Cons.prems(1) t(1) by (rule limiter_ok_mono)
  have "real (grants key reqs L') \<le> available L' key now + rate L' * (t1 - now)"
    using Cons.IH[OF acquire_ok[OF ok a]] Cons.prems r t by auto
  moreover have "rate L' = rate L" using acquire_keeps[OF a] by simp
  moreover note acquire_available[OF ok a, of key] available_later[OF Cons.prems(1) t(1), of key]
  ultimately show ?case using r a by (cases "k = key \<and> w = 0") (auto simp: algebra_simps)
qed

text \<open>The rate limit holds: over any window of time, in any sequence of requests by any keys, a key
  is granted at most its burst capacity plus the sustained rate times the length of the window.\<close>

theorem rate_limit_respected:
  assumes "limiter_ok t0 L" "sorted_wrt (\<le>) (map fst reqs)" "\<forall>r\<in>set reqs. t0 \<le> fst r \<and> fst r \<le> t1" "t0 \<le> t1"
  shows "real (grants key reqs L) \<le> capacity L + rate L * (t1 - t0)"
  using grants_available[OF assms, of key] available_bounds(2)[OF assms(1), of key] by simp

theorem rate_limit_respected_witness:
  "real (grants ''k'' [(0, ''k''), (0, ''k''), (1, ''k'')] (mk_rate_limiter 60 (Some 1))) \<le> 2"
proof -
  have "limiter_ok 0 (mk_rate_limiter 60 (Some 1))" by (simp add: limiter_ok_def mk_rate_limiter_def)
  from rate_limit_respected[OF this, of "[(0, ''k''), (0, ''k''), (1, ''k'')]" 1 "''k''"]
  show ?thesis by (simp add: mk_rate_limiter_def)
qed

text \<open>The wait a refused caller is told is enough and never longer than one token takes: it is
  positive, at most \<open>1 / rate\<close>, and a request by the same key after it is granted.\<close>

theorem retry_after_suffices:
  assumes "limiter_ok now L" "acquire now key L = (w, L')" "w \<noteq> 0" "now + w \<le> later"
  shows "0 < w \<and> w \<le> 1 / rate L \<and> fst (acquire later key L') = 0"
proof -
  have rate: "rate L > 0" "capacity L \<ge> 1" using assms(1) by (auto simp: limiter_ok_def)
  let ?a = "available L key now"
  have a: "\<not> ?a \<ge> 1" "w = (1 - ?a) / rate L" "L' = L\<lparr>buckets := (buckets L)(key \<mapsto> (?a, now))\<rparr>"
    using assms(2,3) acquire_eq[OF rate(1), of now key] by (auto split: if_splits)
  have "0 \<le> ?a" using available_bounds(1)[OF assms(1)] .
  then have w: "0 < w" "w \<le> 1 / rate L" using a(1,2) rate(1) by (auto simp: divide_right_mono)
  have "(later - now) * rate L \<ge> w * rate L" using assms(4) rate(1) by (intro mult_right_mono) auto
  moreover have "w * rate L = 1 - ?a" using a(2) rate(1) by simp
  ultimately have "available L' key later \<ge> 1" using a(3) rate(2) by (simp add: available_def)
  with w a(3) rate(1) show ?thesis by (simp add: acquire_eq)
qed

theorem retry_after_suffices_witness:
  "let L = snd (acquire 0 ''k'' (mk_rate_limiter 60 (Some 1))); (w, L') = acquire 0 ''k'' L
   in w \<noteq> 0 \<and> fst (acquire w ''k'' L') = 0"
proof -
  let ?L = "snd (acquire 0 ''k'' (mk_rate_limiter 60 (Some 1)))"
  have ok: "limiter_ok 0 ?L" by (simp add: limiter_ok_def mk_rate_limiter_def acquire_def)
  obtain w L' where a: "acquire 0 ''k'' ?L = (w, L')" by (metis surj_pair)
  moreover have "w = 1" using a by (simp add: mk_rate_limiter_def acquire_def)
  ultimately show ?thesis using retry_after_suffices[OF ok a, of w] by simp
qed

lemma spend_remaining:
  "remaining day (spend day' B tenant' n) tenant =
     (if limit B \<le> 0 then None
      else Some (limit B - used B (tenant, day) - (if tenant = tenant' \<and> day = day' then n else 0)))"
  by (simp add: remaining_def spend_def)

lemma seconds_until_reset_bounds:
  "0 \<le> h \<Longrightarrow> h < 24 \<Longrightarrow> 0 \<le> m \<Longrightarrow> m < 60 \<Longrightarrow> 0 \<le> s \<Longrightarrow> s < 60 \<Longrightarrow>
   1 \<le> seconds_until_reset h m s \<and> seconds_until_reset h m s \<le> 86400"
  by (simp add: seconds_until_reset_def)

end
