(* ===== verification/Document_Store.thy ===== *)
theory Document_Store
  imports Ingestion Permissions
begin

text \<open>
  What \<open>persistence.py\<close> and \<open>memory_store.py\<close> share: the document metadata, the operations of a store
  and the contract the API relies on, as the locale \<open>document_store\<close>. Tenant isolation is proved once
  from the contract and holds for every store that satisfies it.
\<close>

record source_ref =
  src_system :: string
  src_id :: string
  src_version :: "string option"
  src_modified_at :: "int option"

definition upload_ref :: "string \<Rightarrow> source_ref" where
  "upload_ref i = \<lparr>src_system = ''upload'', src_id = i, src_version = None, src_modified_at = None\<rparr>"

text \<open>\<open>source or SourceRef(id=filename)\<close>\<close>

definition source_of :: "ingest_result \<Rightarrow> source_ref option \<Rightarrow> source_ref" where
  "source_of r source = (case source of Some s \<Rightarrow> s | None \<Rightarrow> upload_ref (chunk_source (hd (ir_chunks r))))"

record persist_result =
  pr_document_id :: string
  pr_chunks_written :: nat
  pr_already_existed :: bool
  pr_version :: nat
  pr_superseded :: "string list"

datatype doc_status = Ready | Superseded

record doc_meta =
  dm_document_id :: string
  dm_source :: string
  dm_source_system :: string
  dm_source_id :: string
  dm_version :: nat
  dm_status :: doc_status
  dm_content_type :: string
  dm_content_sha256 :: string
  dm_chunk_count :: nat
  dm_allowed_groups :: "string list"
  dm_source_version :: "string option"
  dm_source_modified_at :: "int option"
  dm_last_checked_at :: int
  dm_created_at :: int
  dm_updated_at :: int

type_synonym doc_key = "string \<times> string"

text \<open>The version number after a set of versions: \<open>max(..., default=0) + 1\<close>.\<close>

definition next_version :: "doc_meta list \<Rightarrow> nat" where
  "next_version ms = foldl max 0 (map dm_version ms) + 1"

lemma foldl_max_ge: "(x :: 'a :: linorder) \<in> set xs \<Longrightarrow> x \<le> foldl max a xs" "a \<le> foldl max a xs"
proof -
  have "a \<le> foldl max a xs \<and> (\<forall>x\<in>set xs. x \<le> foldl max a xs)"
  proof (induction xs arbitrary: a)
    case (Cons y ys)
    then have "max a y \<le> foldl max (max a y) ys" by blast
    with Cons[of "max a y"] show ?case by auto
  qed simp
  then show "x \<in> set xs \<Longrightarrow> x \<le> foldl max a xs" "a \<le> foldl max a xs" by auto
qed

lemma next_version_greater: "m \<in> set ms \<Longrightarrow> dm_version m < next_version ms"
  unfolding next_version_def by (simp add: foldl_max_ge(1) less_Suc_eq_le)

text \<open>An update of the rows or entries that satisfy a condition; the order is kept.\<close>

definition update_where :: "(doc_key \<times> doc_meta \<Rightarrow> bool) \<Rightarrow> (doc_meta \<Rightarrow> doc_meta) \<Rightarrow>
    (doc_key \<times> doc_meta) list \<Rightarrow> (doc_key \<times> doc_meta) list" where
  "update_where P f ds = map (\<lambda>x. if P x then (fst x, f (snd x)) else x) ds"

lemma keys_update_where [simp]: "map fst (update_where P f ds) = map fst ds"
  by (simp add: update_where_def)

lemma map_of_update_where:
  "map_of (update_where P f ds) k = map_option (\<lambda>m. if P (k, m) then f m else m) (map_of ds k)"
  by (induction ds) (auto simp: update_where_def)

lemma update_where_memE:
  assumes "x \<in> set (update_where P f ds)"
  obtains k m where "(k, m) \<in> set ds" "x = (k, if P (k, m) then f m else m)"
proof -
  obtain y where y: "y \<in> set ds" "x = (if P y then (fst y, f (snd y)) else y)"
    using assms unfolding update_where_def set_map by blast
  show thesis using y that[of "fst y" "snd y"] by (simp split: if_splits)
qed

lemma filter_update_where:
  "(\<And>x. P x \<Longrightarrow> \<not> Q (fst x)) \<Longrightarrow> filter (\<lambda>x. Q (fst x)) (update_where P f ds) = filter (\<lambda>x. Q (fst x)) ds"
  by (induction ds) (auto simp: update_where_def)

lemma own_docs_update_where:
  "(\<And>x. P x \<Longrightarrow> fst (fst x) \<noteq> t) \<Longrightarrow>
   filter (\<lambda>x. fst (fst x) = t) (update_where P f ds) = filter (\<lambda>x. fst (fst x) = t) ds"
  by (rule filter_update_where[where Q = "\<lambda>k. fst k = t"])

section \<open>The contract of a store\<close>

text \<open>The operations that change a store, with the clock reading each of them takes.\<close>

datatype store_op =
    OpPersist int ingest_result "real list list" "string list option" "string list" string "source_ref option"
  | OpMarkChecked int string string
  | OpUpdate int string string "string list" "string list option" "string option"
  | OpDelete string string "string list"

text \<open>The tenant an operation works for; an upload works for the tenant of its chunks.\<close>

fun op_tenant :: "store_op \<Rightarrow> string" where
  "op_tenant (OpPersist _ r _ _ _ _ _) = chunk_tenant_id (hd (ir_chunks r))"
| "op_tenant (OpMarkChecked _ t _) = t"
| "op_tenant (OpUpdate _ t _ _ _ _) = t"
| "op_tenant (OpDelete t _ _) = t"

definition result_key :: "ingest_result \<Rightarrow> doc_key" where
  "result_key r = (chunk_tenant_id (hd (ir_chunks r)), ir_document_id r)"

text \<open>An ingestion result as \<open>rag.py\<close> builds it: every chunk names the tenant and the document.\<close>

definition result_ok :: "ingest_result \<Rightarrow> bool" where
  "result_ok r = list_all (\<lambda>c. chunk_document_id c = ir_document_id r
     \<and> chunk_tenant_id c = chunk_tenant_id (hd (ir_chunks r))) (ir_chunks r)"

text \<open>Tenant names reach a store trimmed: \<open>auth.py\<close> and \<open>rag.py\<close> strip them.\<close>

definition op_ok :: "store_op \<Rightarrow> bool" where
  "op_ok x = (strip (op_tenant x) = op_tenant x \<and>
     (case x of OpPersist _ r _ _ _ _ _ \<Rightarrow> result_ok r | _ \<Rightarrow> True))"

locale document_store =
  fixes step :: "'s \<Rightarrow> store_op \<Rightarrow> 's"
    and list_docs :: "'s \<Rightarrow> string \<Rightarrow> string list \<Rightarrow> bool \<Rightarrow> doc_meta list"
    and get_doc :: "'s \<Rightarrow> string \<Rightarrow> string \<Rightarrow> string list \<Rightarrow> doc_meta option"
    and readable :: "'s \<Rightarrow> principal \<Rightarrow> chunk list"
    and doc_of :: "'s \<Rightarrow> doc_key \<Rightarrow> doc_meta option"
    and tenant_view :: "'s \<Rightarrow> string \<Rightarrow> 'v"
    and inv :: "'s \<Rightarrow> bool"
  assumes inv_step: "inv s \<Longrightarrow> op_ok x \<Longrightarrow> inv (step s x)"
    and step_other: "inv s \<Longrightarrow> op_ok x \<Longrightarrow> op_tenant x \<noteq> t \<Longrightarrow> tenant_view (step s x) t = tenant_view s t"
    and list_view: "tenant_view s t = tenant_view s' t \<Longrightarrow> list_docs s t g b = list_docs s' t g b"
    and get_view: "tenant_view s t = tenant_view s' t \<Longrightarrow> get_doc s t d g = get_doc s' t d g"
    and readable_view: "tenant_view s (p_tenant_id p) = tenant_view s' (p_tenant_id p) \<Longrightarrow>
      readable s p = readable s' p"
    and list_acl: "inv s \<Longrightarrow> m \<in> set (list_docs s t g b) \<Longrightarrow>
      doc_of s (t, dm_document_id m) = Some m \<and> acl_admits (set (dm_allowed_groups m)) (set g)"
    and get_acl: "inv s \<Longrightarrow> get_doc s t d g = Some m \<Longrightarrow>
      doc_of s (t, d) = Some m \<and> acl_admits (set (dm_allowed_groups m)) (set g)"
    and readable_acl: "inv s \<Longrightarrow> c \<in> set (readable s p) \<Longrightarrow>
      \<exists>m. doc_of s (p_tenant_id p, chunk_document_id c) = Some m \<and> dm_status m = Ready
        \<and> chunk_tenant_id c = p_tenant_id p \<and> acl_admits (set (dm_allowed_groups m)) (fset (p_groups p))"
begin

lemma inv_run: "inv s \<Longrightarrow> list_all op_ok xs \<Longrightarrow> inv (foldl step s xs)"
  by (induction xs arbitrary: s) (auto simp: inv_step)

lemma view_run:
  "inv s \<Longrightarrow> list_all op_ok xs \<Longrightarrow> list_all (\<lambda>x. op_tenant x \<noteq> t) xs \<Longrightarrow>
   tenant_view (foldl step s xs) t = tenant_view s t"
  by (induction xs arbitrary: s) (auto simp: inv_step step_other)

text \<open>Whatever other tenants do, a tenant reads the same documents and chunks.\<close>

lemma tenant_isolation:
  assumes "inv s" "list_all op_ok xs" "list_all (\<lambda>x. op_tenant x \<noteq> t) xs"
  shows "list_docs (foldl step s xs) t g b = list_docs s t g b
    \<and> get_doc (foldl step s xs) t d g = get_doc s t d g
    \<and> (p_tenant_id p = t \<longrightarrow> readable (foldl step s xs) p = readable s p)"
  using view_run[OF assms] list_view get_view readable_view by metis

text \<open>Whatever happened before, a caller reads only documents of its tenant that its groups admit.\<close>

lemma reads_respect_acl:
  assumes "inv s" "list_all op_ok xs"
  shows "\<And>m. m \<in> set (list_docs (foldl step s xs) t g b) \<Longrightarrow> acl_admits (set (dm_allowed_groups m)) (set g)"
    and "\<And>m. get_doc (foldl step s xs) t d g = Some m \<Longrightarrow> acl_admits (set (dm_allowed_groups m)) (set g)"
    and "\<And>c. c \<in> set (readable (foldl step s xs) p) \<Longrightarrow>
      \<exists>m. doc_of (foldl step s xs) (p_tenant_id p, chunk_document_id c) = Some m \<and> dm_status m = Ready
        \<and> chunk_tenant_id c = p_tenant_id p \<and> acl_admits (set (dm_allowed_groups m)) (fset (p_groups p))"
  using list_acl[OF inv_run[OF assms]] get_acl[OF inv_run[OF assms]] readable_acl[OF inv_run[OF assms]]
  by blast+

end

text \<open>A small upload, on which the properties of the stores are tried.\<close>

definition upload_chunk :: "string \<Rightarrow> string \<Rightarrow> chunk" where
  "upload_chunk t d = \<lparr>chunk_text = ''Refunds take five days.'', chunk_document_id = d, chunk_index = 0, chunk_tenant_id = t,
     chunk_source = ''policy.txt'', chunk_id = ''c1'', chunk_created_at = 0, chunk_page = None\<rparr>"

definition sample_result :: "string \<Rightarrow> string \<Rightarrow> ingest_result" where
  "sample_result t d = \<lparr>ir_document_id = d, ir_content_sha256 = d, ir_chunks = [upload_chunk t d]\<rparr>"

end
