(* ===== verification/Memory_Store.thy ===== *)
theory Memory_Store
  imports Document_Store
begin

text \<open>
  The in-memory store (\<open>memory_store.py\<close>): two dictionaries in insertion order, every operation of the
  class, the invariant they keep, and the interpretation of the store contract.
\<close>

record memory_store =
  ms_documents :: "(doc_key \<times> doc_meta) list"
  ms_chunks :: "(doc_key \<times> chunk list) list"

definition empty_store :: memory_store where
  "empty_store = \<lparr>ms_documents = [], ms_chunks = []\<rparr>"

definition visible :: "doc_meta \<Rightarrow> string list \<Rightarrow> bool" where
  "visible m groups = (dm_allowed_groups m = [] \<or> list_ex (\<lambda>g. g \<in> set groups) (dm_allowed_groups m))"

lemma visible_iff [acl]: "visible m groups \<longleftrightarrow> acl_admits (set (dm_allowed_groups m)) (set groups)"
  by (auto simp: visible_def acl_admits_def list_ex_iff)

definition is_version :: "string \<Rightarrow> string \<Rightarrow> string \<Rightarrow> string list \<Rightarrow> doc_key \<times> doc_meta \<Rightarrow> bool" where
  "is_version tenant system sid groups = (\<lambda>((owner, _), m).
     owner = tenant \<and> dm_source_system m = system \<and> dm_source_id m = sid \<and> visible m groups)"

definition versions :: "memory_store \<Rightarrow> string \<Rightarrow> string \<Rightarrow> string \<Rightarrow> string list \<Rightarrow> doc_meta list" where
  "versions S tenant system sid groups =
     map snd (filter (is_version tenant system sid groups) (ms_documents S))"

text \<open>The other versions of the document that is being stored, and the store with them superseded.\<close>

definition is_sibling :: "string \<Rightarrow> source_ref \<Rightarrow> string list \<Rightarrow> string \<Rightarrow> doc_key \<times> doc_meta \<Rightarrow> bool" where
  "is_sibling tenant src groups document_id x =
     (is_version tenant (src_system src) (src_id src) groups x \<and> dm_document_id (snd x) \<noteq> document_id)"

definition supersede :: "int \<Rightarrow> string \<Rightarrow> source_ref \<Rightarrow> string list \<Rightarrow> string \<Rightarrow>
    (doc_key \<times> doc_meta) list \<Rightarrow> (doc_key \<times> doc_meta) list" where
  "supersede now tenant src groups document_id =
     update_where (\<lambda>x. is_sibling tenant src groups document_id x \<and> dm_status (snd x) = Ready)
       (\<lambda>m. m\<lparr>dm_status := Superseded, dm_updated_at := now\<rparr>)"

definition persist :: "memory_store \<Rightarrow> int \<Rightarrow> ingest_result \<Rightarrow> string list option \<Rightarrow> string list \<Rightarrow> string \<Rightarrow>
    source_ref option \<Rightarrow> (persist_result \<times> memory_store) res" where
  "persist S now result allowed groups content_type source =
     (let chunks = ir_chunks result; docid = ir_document_id result in
      if chunks = [] then Inl (ValueError ''cannot persist an ingestion result with no chunks'')
      else
        let tenant = chunk_tenant_id (hd chunks); filename = chunk_source (hd chunks);
            src = source_of result source;
            key = (tenant, docid);
            vs = versions S tenant (src_system src) (src_id src) groups;
            current = filter (\<lambda>m. dm_status m = Ready) vs;
            acl = (case allowed of Some a \<Rightarrow> a
              | None \<Rightarrow> (case current of [] \<Rightarrow> [] | m # _ \<Rightarrow> dm_allowed_groups m));
            existing = map_of (ms_documents S) key in
        if existing \<noteq> None \<and> dm_status (the existing) = Ready
        then Inr (\<lparr>pr_document_id = docid, pr_chunks_written = 0, pr_already_existed = True,
                pr_version = dm_version (the existing), pr_superseded = []\<rparr>,
              S\<lparr>ms_documents := update_where (\<lambda>(k, _). k = key) (\<lambda>m. m\<lparr>dm_last_checked_at := now\<rparr>) (ms_documents S)\<rparr>)
        else
          let siblings = map snd (filter (is_sibling tenant src groups docid) (ms_documents S));
              superseded = map dm_document_id (filter (\<lambda>m. dm_status m = Ready) siblings);
              docs = supersede now tenant src groups docid (ms_documents S);
              version = next_version siblings;
              S' = (case existing of
                  None \<Rightarrow>
                    S\<lparr>ms_documents := docs @ [(key,
                        \<lparr>dm_document_id = docid, dm_source = filename, dm_source_system = src_system src,
                         dm_source_id = src_id src, dm_version = version, dm_status = Ready,
                         dm_content_type = content_type, dm_content_sha256 = ir_content_sha256 result,
                         dm_chunk_count = length chunks, dm_allowed_groups = acl,
                         dm_source_version = src_version src, dm_source_modified_at = src_modified_at src,
                         dm_last_checked_at = now, dm_created_at = now, dm_updated_at = now\<rparr>)],
                      ms_chunks := AList.update key chunks (ms_chunks S)\<rparr>
                | Some _ \<Rightarrow>
                    S\<lparr>ms_documents := update_where (\<lambda>(k, _). k = key)
                      (\<lambda>m. m\<lparr>dm_status := Ready, dm_version := version, dm_source := filename,
                         dm_updated_at := now, dm_last_checked_at := now\<rparr>) docs\<rparr>) in
          Inr (\<lparr>pr_document_id = docid,
                pr_chunks_written = (if existing = None then length chunks else 0),
                pr_already_existed = (existing \<noteq> None), pr_version = version, pr_superseded = superseded\<rparr>, S'))"

definition current_version :: "memory_store \<Rightarrow> string \<Rightarrow> source_ref \<Rightarrow> string list \<Rightarrow> doc_meta option" where
  "current_version S tenant src groups =
     List.find (\<lambda>m. dm_status m = Ready) (versions S tenant (src_system src) (src_id src) groups)"

definition mark_checked :: "memory_store \<Rightarrow> int \<Rightarrow> string \<Rightarrow> string \<Rightarrow> memory_store" where
  "mark_checked S now tenant document_id =
     S\<lparr>ms_documents := update_where (\<lambda>(k, _). k = (tenant, document_id)) (\<lambda>m. m\<lparr>dm_last_checked_at := now\<rparr>)
        (ms_documents S)\<rparr>"

definition apply_changes :: "int \<Rightarrow> string list option \<Rightarrow> string option \<Rightarrow> doc_meta \<Rightarrow> doc_meta" where
  "apply_changes now allowed display m =
     (let m1 = (case allowed of None \<Rightarrow> m | Some a \<Rightarrow> m\<lparr>dm_allowed_groups := a\<rparr>);
          m2 = (case display of None \<Rightarrow> m1 | Some n \<Rightarrow> m1\<lparr>dm_source := n\<rparr>) in
      m2\<lparr>dm_updated_at := now\<rparr>)"

definition get_document :: "memory_store \<Rightarrow> string \<Rightarrow> string \<Rightarrow> string list \<Rightarrow> doc_meta option" where
  "get_document S tenant document_id groups =
     (case map_of (ms_documents S) (tenant, document_id) of
        Some m \<Rightarrow> if visible m groups then Some m else None
      | None \<Rightarrow> None)"

definition update_document :: "memory_store \<Rightarrow> int \<Rightarrow> string \<Rightarrow> string \<Rightarrow> string list \<Rightarrow> string list option \<Rightarrow>
    string option \<Rightarrow> (bool \<times> doc_meta option) \<times> memory_store" where
  "update_document S now tenant document_id groups allowed display =
     (case map_of (ms_documents S) (tenant, document_id) of
        None \<Rightarrow> ((False, None), S)
      | Some m \<Rightarrow>
          if \<not> visible m groups then ((False, None), S)
          else
            let S' = S\<lparr>ms_documents := update_where
                  (is_version tenant (dm_source_system m) (dm_source_id m) groups)
                  (apply_changes now allowed display) (ms_documents S)\<rparr> in
            ((True, get_document S' tenant document_id groups), S'))"

text \<open>\<open>sorted(rows, key=(created_at, document_id), reverse=True)\<close>: Python keeps the order of equal rows.\<close>

definition doc_order :: "doc_meta \<Rightarrow> int \<times> string" where
  "doc_order m = (dm_created_at m, dm_document_id m)"

definition list_documents :: "memory_store \<Rightarrow> string \<Rightarrow> string list \<Rightarrow> bool \<Rightarrow> doc_meta list" where
  "list_documents S tenant groups include_superseded =
     rev (sort_key doc_order (rev (map snd (filter (\<lambda>((owner, _), m). owner = tenant \<and> visible m groups
        \<and> (include_superseded \<or> dm_status m = Ready)) (ms_documents S)))))"

definition delete_document :: "memory_store \<Rightarrow> string \<Rightarrow> string \<Rightarrow> string list \<Rightarrow> bool \<times> memory_store" where
  "delete_document S tenant document_id groups =
     (case map_of (ms_documents S) (tenant, document_id) of
        None \<Rightarrow> (False, S)
      | Some m \<Rightarrow>
          if \<not> visible m groups then (False, S)
          else (True, \<lparr>ms_documents = AList.delete (tenant, document_id) (ms_documents S),
                       ms_chunks = AList.delete (tenant, document_id) (ms_chunks S)\<rparr>))"

definition renamed :: "string \<Rightarrow> chunk \<Rightarrow> chunk" where
  "renamed source c = (if chunk_source c = source then c else c\<lparr>chunk_source := source\<rparr>)"

text \<open>\<open>self._chunks[key]\<close> raises \<open>KeyError\<close> for a document without chunks.\<close>

definition doc_chunks :: "memory_store \<Rightarrow> doc_key \<times> doc_meta \<Rightarrow> chunk list res" where
  "doc_chunks S = (\<lambda>(k, m). case map_of (ms_chunks S) k of
     None \<Rightarrow> Inl (KeyError (snd k)) | Some cs \<Rightarrow> Inr (map (renamed (dm_source m)) cs))"

definition readable_docs :: "memory_store \<Rightarrow> principal \<Rightarrow> (doc_key \<times> doc_meta) list" where
  "readable_docs S p = filter (\<lambda>(k, m). fst k = p_tenant_id p \<and> dm_status m = Ready
     \<and> can_read_groups (Some (dm_allowed_groups m)) p) (ms_documents S)"

definition readable_chunks :: "memory_store \<Rightarrow> principal \<Rightarrow> chunk list res" where
  "readable_chunks S p = bind_res (map_res (doc_chunks S) (readable_docs S p)) (\<lambda>css. Inr (concat css))"

section \<open>The invariant\<close>

definition entry_ok :: "(doc_key \<times> chunk list) list \<Rightarrow> doc_key \<times> doc_meta \<Rightarrow> bool" where
  "entry_ok chunks x = (case x of (k, m) \<Rightarrow> dm_document_id m = snd k \<and>
     (case map_of chunks k of None \<Rightarrow> False
      | Some cs \<Rightarrow> cs \<noteq> [] \<and> dm_chunk_count m = length cs \<and>
          list_all (\<lambda>c. chunk_document_id c = snd k \<and> chunk_tenant_id c = fst k) cs))"

definition store_ok :: "memory_store \<Rightarrow> bool" where
  "store_ok S = (distinct (map fst (ms_documents S)) \<and> list_all (entry_ok (ms_chunks S)) (ms_documents S))"

lemma entry_ok_pair:
  "entry_ok chunks (k, m) \<longleftrightarrow> dm_document_id m = snd k \<and> (\<exists>cs. map_of chunks k = Some cs \<and> cs \<noteq> []
     \<and> dm_chunk_count m = length cs \<and> list_all (\<lambda>c. chunk_document_id c = snd k \<and> chunk_tenant_id c = fst k) cs)"
  by (auto simp: entry_ok_def split: option.splits)

lemma entry_ok_f:
  "dm_document_id m' = dm_document_id m \<Longrightarrow> dm_chunk_count m' = dm_chunk_count m \<Longrightarrow>
   entry_ok chunks (k, m') = entry_ok chunks (k, m)"
  by (simp add: entry_ok_pair)

lemma entry_ok_update_where:
  assumes "list_all (entry_ok chunks) ds"
    and "\<And>m. dm_document_id (f m) = dm_document_id m" "\<And>m. dm_chunk_count (f m) = dm_chunk_count m"
  shows "list_all (entry_ok chunks) (update_where P f ds)"
proof (unfold list_all_iff, intro ballI)
  fix x assume "x \<in> set (update_where P f ds)"
  then obtain k m where x: "(k, m) \<in> set ds" "x = (k, if P (k, m) then f m else m)"
    by (rule update_where_memE)
  then have "entry_ok chunks (k, m)" using assms(1) by (auto simp: list_all_iff)
  with x(2) entry_ok_f[of "f m" m chunks k, OF assms(2,3)] show "entry_ok chunks x" by simp
qed

lemma store_okD:
  assumes "store_ok S" "map_of (ms_documents S) k = Some m"
  shows "dm_document_id m = snd k" "\<exists>cs. map_of (ms_chunks S) k = Some cs \<and> cs \<noteq> [] \<and> dm_chunk_count m = length cs \<and>
    (\<forall>c\<in>set cs. chunk_document_id c = snd k \<and> chunk_tenant_id c = fst k)"
proof -
  have "entry_ok (ms_chunks S) (k, m)"
    using assms by (auto simp: store_ok_def list_all_iff dest: map_of_SomeD)
  then show "dm_document_id m = snd k" "\<exists>cs. map_of (ms_chunks S) k = Some cs \<and> cs \<noteq> [] \<and> dm_chunk_count m = length cs \<and>
    (\<forall>c\<in>set cs. chunk_document_id c = snd k \<and> chunk_tenant_id c = fst k)"
    by (auto simp: entry_ok_pair list_all_iff)
qed

lemma store_ok_update_where:
  assumes "store_ok S" "\<And>m. dm_document_id (f m) = dm_document_id m" "\<And>m. dm_chunk_count (f m) = dm_chunk_count m"
  shows "store_ok (S\<lparr>ms_documents := update_where P f (ms_documents S)\<rparr>)"
  using assms by (simp add: store_ok_def entry_ok_update_where)

lemma supersede_entries:
  "map fst (supersede now t src g d ds) = map fst ds"
  "list_all (entry_ok chunks) ds \<Longrightarrow> list_all (entry_ok chunks) (supersede now t src g d ds)"
  unfolding supersede_def by (simp, intro entry_ok_update_where) auto

lemma entry_ok_new_chunks:
  assumes "list_all (entry_ok chunks) ds" "k \<notin> set (map fst ds)"
  shows "list_all (entry_ok (AList.update k cs chunks)) ds"
proof (unfold list_all_iff, intro ballI)
  fix x assume x: "x \<in> set ds"
  obtain k' m where km: "x = (k', m)" by (metis surj_pair)
  with x assms have "k' \<noteq> k" "entry_ok chunks (k', m)" by (force, auto simp: list_all_iff)
  with km show "entry_ok (AList.update k cs chunks) x" by (simp add: entry_ok_pair AList.update_conv)
qed

lemma persist_ok:
  assumes "store_ok S" "result_ok r" "persist S now r allowed g ct source = Inr (pr, S')"
  shows "store_ok S'"
proof -
  let ?t = "chunk_tenant_id (hd (ir_chunks r))" and ?d = "ir_document_id r"
  have S: "distinct (map fst (ms_documents S))" "list_all (entry_ok (ms_chunks S)) (ms_documents S)"
    using assms(1) by (auto simp: store_ok_def)
  show ?thesis
  proof (cases "map_of (ms_documents S) (?t, ?d)")
    case None
    then have new: "(?t, ?d) \<notin> set (map fst (ms_documents S))" by (simp add: map_of_eq_None_iff)
    then have "list_all (entry_ok (AList.update (?t, ?d) (ir_chunks r) (ms_chunks S))) (supersede now ?t src g ?d (ms_documents S))" for src
      using S(2) by (intro entry_ok_new_chunks) (simp_all add: supersede_entries)
    moreover have "entry_ok (AList.update (?t, ?d) (ir_chunks r) (ms_chunks S)) ((?t, ?d), m)"
      if "dm_document_id m = ?d" "dm_chunk_count m = length (ir_chunks r)" "ir_chunks r \<noteq> []" for m
      using that assms(2) by (simp add: entry_ok_pair AList.update_conv result_ok_def)
    ultimately show ?thesis using assms(3) None S new
      by (auto simp: persist_def store_ok_def supersede_entries split: if_splits)
  next
    case (Some e)
    then show ?thesis using assms(3) S
      by (auto simp: persist_def store_ok_def supersede_entries entry_ok_update_where split: if_splits)
  qed
qed

lemma update_document_ok: "store_ok S \<Longrightarrow> update_document S now t d g a n = (r, S') \<Longrightarrow> store_ok S'"
  by (auto simp: update_document_def apply_changes_def intro!: store_ok_update_where
      split: option.splits if_splits)

lemma delete_document_ok:
  assumes "store_ok S" "delete_document S t d g = (b, S')"
  shows "store_ok S'"
proof -
  have "entry_ok (AList.delete k chunks) (k', m)" if "entry_ok chunks (k', m)" "k' \<noteq> k" for k chunks k' m
    using that by (simp add: entry_ok_pair AList.delete_conv)
  then have "list_all (entry_ok (AList.delete (t, d) (ms_chunks S))) (AList.delete (t, d) (ms_documents S))"
    using assms(1) by (auto simp: store_ok_def list_all_iff AList.delete_eq)
  then show ?thesis
    using assms by (auto simp: delete_document_def store_ok_def AList.distinct_delete split: option.splits if_splits)
qed

section \<open>The contract\<close>

fun mem_step :: "memory_store \<Rightarrow> store_op \<Rightarrow> memory_store" where
  "mem_step S (OpPersist now r _ allowed groups ct source) =
     (case persist S now r allowed groups ct source of Inl _ \<Rightarrow> S | Inr (_, S') \<Rightarrow> S')"
| "mem_step S (OpMarkChecked now t d) = mark_checked S now t d"
| "mem_step S (OpUpdate now t d groups allowed display) = snd (update_document S now t d groups allowed display)"
| "mem_step S (OpDelete t d groups) = snd (delete_document S t d groups)"

definition readable_list :: "memory_store \<Rightarrow> principal \<Rightarrow> chunk list" where
  "readable_list S p = (case readable_chunks S p of Inl _ \<Rightarrow> [] | Inr cs \<Rightarrow> cs)"

definition doc_at :: "memory_store \<Rightarrow> doc_key \<Rightarrow> doc_meta option" where
  "doc_at S k = map_of (ms_documents S) k"

definition own_docs :: "memory_store \<Rightarrow> string \<Rightarrow> (doc_key \<times> doc_meta) list" where
  "own_docs S t = filter (\<lambda>x. fst (fst x) = t) (ms_documents S)"

definition mem_view :: "memory_store \<Rightarrow> string \<Rightarrow> (doc_key \<times> doc_meta) list \<times> (string \<Rightarrow> chunk list option)" where
  "mem_view S t = (own_docs S t, \<lambda>d. map_of (ms_chunks S) (t, d))"

lemma own_docs_supersede:
  "t' \<noteq> t \<Longrightarrow> filter (\<lambda>x. fst (fst x) = t') (supersede now t src g d ds) = filter (\<lambda>x. fst (fst x) = t') ds"
  unfolding supersede_def by (rule own_docs_update_where) (auto simp: is_sibling_def is_version_def)

lemma own_docs_key:
  "fst k \<noteq> t' \<Longrightarrow> filter (\<lambda>x. fst (fst x) = t') (update_where (\<lambda>(k', _). k' = k) f ds) = filter (\<lambda>x. fst (fst x) = t') ds"
  by (rule own_docs_update_where) auto

lemma persist_view:
  assumes "persist S now r allowed g ct source = Inr (pr, S')" "t' \<noteq> chunk_tenant_id (hd (ir_chunks r))"
  shows "mem_view S' t' = mem_view S t'"
  using assms
  by (auto simp: persist_def mem_view_def own_docs_def own_docs_supersede own_docs_key AList.update_conv
      split: if_splits option.splits)

lemma mark_checked_view: "t' \<noteq> t \<Longrightarrow> mem_view (mark_checked S now t d) t' = mem_view S t'"
  by (simp add: mark_checked_def mem_view_def own_docs_def own_docs_key)

lemma update_document_view:
  "t' \<noteq> t \<Longrightarrow> mem_view (snd (update_document S now t d g a n)) t' = mem_view S t'"
  by (auto simp: update_document_def mem_view_def own_docs_def is_version_def split: option.split
      intro!: own_docs_update_where)

lemma delete_document_view:
  assumes "t' \<noteq> t"
  shows "mem_view (snd (delete_document S t d g)) t' = mem_view S t'"
proof -
  have "filter (\<lambda>x. fst (fst x) = t') (AList.delete (t, d) ds) = filter (\<lambda>x. fst (fst x) = t') ds"
    for ds :: "(doc_key \<times> doc_meta) list"
    using assms by (auto simp: AList.delete_eq intro!: filter_cong)
  then show ?thesis using assms
    by (auto simp: delete_document_def mem_view_def own_docs_def AList.delete_conv split: option.split)
qed

lemma map_of_own: "map_of (ms_documents S) (t, d) = map_of (own_docs S t) (t, d)"
proof -
  have "map_of ds (t, d) = map_of (filter (\<lambda>x. fst (fst x) = t) ds) (t, d)" for ds :: "(doc_key \<times> doc_meta) list"
    by (induction ds) auto
  then show ?thesis by (simp add: own_docs_def)
qed

lemma list_documents_own:
  "list_documents S t g b = rev (sort_key doc_order (rev (map snd (filter (\<lambda>(_, m). visible m g
     \<and> (b \<or> dm_status m = Ready)) (own_docs S t)))))"
proof -
  have "filter (\<lambda>((owner, _), m). owner = t \<and> visible m g \<and> (b \<or> dm_status m = Ready)) (ms_documents S) =
      filter (\<lambda>(_, m). visible m g \<and> (b \<or> dm_status m = Ready)) (own_docs S t)"
    by (auto simp: own_docs_def intro!: filter_cong)
  then show ?thesis by (simp add: list_documents_def)
qed

lemma readable_chunks_view:
  assumes "mem_view S (p_tenant_id p) = mem_view S' (p_tenant_id p)"
  shows "readable_chunks S p = readable_chunks S' p"
proof -
  have "readable_docs S p = filter (\<lambda>(_, m). dm_status m = Ready \<and> can_read_groups (Some (dm_allowed_groups m)) p)
      (own_docs S (p_tenant_id p))" for S
    by (auto simp: readable_docs_def own_docs_def intro!: filter_cong)
  then have docs: "readable_docs S p = readable_docs S' p" using assms by (simp add: mem_view_def)
  have "doc_chunks S x = doc_chunks S' x" if "x \<in> set (readable_docs S' p)" for x
  proof -
    obtain k m where x: "x = (k, m)" by (metis surj_pair)
    then have "k = (p_tenant_id p, snd k)" using that by (cases k) (simp add: readable_docs_def)
    then obtain d where "x = ((p_tenant_id p, d), m)" using x by blast
    then show ?thesis using assms by (simp add: doc_chunks_def mem_view_def fun_eq_iff)
  qed
  then have "map_res (doc_chunks S) (readable_docs S p) = map_res (doc_chunks S') (readable_docs S' p)"
    using docs by (intro map_res_cong)
  then show ?thesis by (simp add: readable_chunks_def)
qed

lemma doc_chunks_ok: "entry_ok (ms_chunks S) x \<Longrightarrow> \<exists>cs. doc_chunks S x = Inr cs"
  by (cases x) (auto simp: entry_ok_pair doc_chunks_def)

lemma map_res_total: "\<forall>x\<in>set xs. \<exists>y. f x = Inr y \<Longrightarrow> \<exists>ys. map_res f xs = Inr ys"
  by (induction xs) auto

lemma readable_chunks_total:
  assumes "store_ok S"
  shows "\<exists>css. map_res (doc_chunks S) (readable_docs S p) = Inr css \<and> readable_list S p = concat css"
proof -
  have "\<forall>x\<in>set (readable_docs S p). \<exists>cs. doc_chunks S x = Inr cs"
    using assms doc_chunks_ok by (simp add: store_ok_def list_all_iff readable_docs_def)
  from map_res_total[OF this] show ?thesis by (auto simp: readable_list_def readable_chunks_def)
qed

lemma readable_mem:
  assumes "store_ok S" "c \<in> set (readable_list S p)"
  shows "\<exists>k m cs c0. (k, m) \<in> set (readable_docs S p) \<and> map_of (ms_chunks S) k = Some cs
    \<and> c0 \<in> set cs \<and> c = renamed (dm_source m) c0"
proof -
  obtain css where css: "map_res (doc_chunks S) (readable_docs S p) = Inr css" "readable_list S p = concat css"
    using readable_chunks_total[OF assms(1)] by blast
  then obtain ys where ys: "ys \<in> set css" "c \<in> set ys" using assms(2) by auto
  from map_res_set[OF css(1) ys(1)] obtain k m where "(k, m) \<in> set (readable_docs S p)" "doc_chunks S (k, m) = Inr ys"
    by (metis surj_pair)
  with ys(2) show ?thesis by (fastforce simp: doc_chunks_def split: option.splits)
qed

lemma readable_memI:
  assumes "store_ok S" "(k, m) \<in> set (readable_docs S p)" "map_of (ms_chunks S) k = Some cs" "c \<in> set cs"
  shows "renamed (dm_source m) c \<in> set (readable_list S p)"
proof -
  obtain css where css: "map_res (doc_chunks S) (readable_docs S p) = Inr css" "readable_list S p = concat css"
    using readable_chunks_total[OF assms(1)] by blast
  obtain ys where "ys \<in> set css" "doc_chunks S (k, m) = Inr ys" using map_res_mem[OF css(1) assms(2)] by blast
  moreover have "renamed (dm_source m) c \<in> set ys" using calculation(2) assms(3,4) by (auto simp: doc_chunks_def)
  ultimately show ?thesis using css(2) by auto
qed

lemma renamed_fields [simp]:
  "chunk_document_id (renamed s c) = chunk_document_id c" "chunk_tenant_id (renamed s c) = chunk_tenant_id c"
  by (simp_all add: renamed_def)

lemma doc_at_mem: "store_ok S \<Longrightarrow> (k, m) \<in> set (ms_documents S) \<Longrightarrow> doc_at S k = Some m"
  by (simp add: doc_at_def store_ok_def)

lemma list_documents_mem:
  assumes "m \<in> set (list_documents S t g b)"
  shows "\<exists>d. ((t, d), m) \<in> set (ms_documents S) \<and> visible m g"
  using assms by (auto simp: list_documents_def)

lemma mem_step_ok: "store_ok S \<Longrightarrow> op_ok x \<Longrightarrow> store_ok (mem_step S x)"
proof (cases x)
  case (OpPersist now r em allowed g ct source)
  assume "store_ok S" "op_ok x"
  with OpPersist show ?thesis using persist_ok[of S r now allowed g ct source] by (auto simp: op_ok_def split: sum.split)
next
  case (OpMarkChecked now t d)
  assume "store_ok S"
  with OpMarkChecked show ?thesis by (simp add: mark_checked_def store_ok_update_where)
next
  case (OpUpdate now t d g allowed display)
  assume "store_ok S"
  with OpUpdate show ?thesis using update_document_ok[of S now t d g allowed display] by (metis mem_step.simps(3) prod.collapse)
next
  case (OpDelete t d g)
  assume "store_ok S"
  with OpDelete show ?thesis using delete_document_ok[of S t d g] by (metis mem_step.simps(4) prod.collapse)
qed

lemma mem_step_view: "op_tenant x \<noteq> t \<Longrightarrow> mem_view (mem_step S x) t = mem_view S t"
  by (cases x) (auto simp: persist_view mark_checked_view update_document_view delete_document_view split: sum.split)

lemma readable_list_acl:
  assumes "store_ok S" "c \<in> set (readable_list S p)"
  shows "\<exists>m. doc_at S (p_tenant_id p, chunk_document_id c) = Some m \<and> dm_status m = Ready
    \<and> chunk_tenant_id c = p_tenant_id p \<and> acl_admits (set (dm_allowed_groups m)) (fset (p_groups p))"
proof -
  obtain k m cs c0 where *: "(k, m) \<in> set (readable_docs S p)" "map_of (ms_chunks S) k = Some cs" "c0 \<in> set cs"
    "c = renamed (dm_source m) c0" using readable_mem[OF assms] by blast
  then have d: "doc_at S k = Some m" using assms(1) doc_at_mem by (simp add: readable_docs_def)
  then have "map_of (ms_documents S) k = Some m" by (simp add: doc_at_def)
  from store_okD(2)[OF assms(1) this] *(2,3) have "chunk_document_id c0 = snd k \<and> chunk_tenant_id c0 = fst k" by auto
  with * d show ?thesis by (cases k) (auto simp: acl readable_docs_def)
qed

lemma list_documents_acl:
  assumes "store_ok S" "m \<in> set (list_documents S t g b)"
  shows "doc_at S (t, dm_document_id m) = Some m \<and> acl_admits (set (dm_allowed_groups m)) (set g)"
proof -
  obtain d where d: "((t, d), m) \<in> set (ms_documents S)" "visible m g" using list_documents_mem[OF assms(2)] by blast
  then have at: "doc_at S (t, d) = Some m" using doc_at_mem[OF assms(1)] by blast
  then have "dm_document_id m = d" using store_okD(1)[OF assms(1), of "(t, d)" m] by (simp add: doc_at_def)
  with at d(2) show ?thesis by (simp add: acl)
qed

interpretation mem: document_store mem_step list_documents get_document readable_list doc_at mem_view store_ok
proof
  fix S S' :: memory_store and x t g b d p m c
  show "store_ok S \<Longrightarrow> op_ok x \<Longrightarrow> store_ok (mem_step S x)" by (rule mem_step_ok)
  show "op_tenant x \<noteq> t \<Longrightarrow> mem_view (mem_step S x) t = mem_view S t" by (rule mem_step_view)
  show "mem_view S t = mem_view S' t \<Longrightarrow> list_documents S t g b = list_documents S' t g b"
    by (simp add: list_documents_own mem_view_def)
  show "mem_view S t = mem_view S' t \<Longrightarrow> get_document S t d g = get_document S' t d g"
    by (simp add: get_document_def map_of_own mem_view_def)
  show "mem_view S (p_tenant_id p) = mem_view S' (p_tenant_id p) \<Longrightarrow> readable_list S p = readable_list S' p"
    unfolding readable_list_def by (drule readable_chunks_view) simp
  show "store_ok S \<Longrightarrow> m \<in> set (list_documents S t g b) \<Longrightarrow>
      doc_at S (t, dm_document_id m) = Some m \<and> acl_admits (set (dm_allowed_groups m)) (set g)"
    by (rule list_documents_acl)
  show "get_document S t d g = Some m \<Longrightarrow>
      doc_at S (t, d) = Some m \<and> acl_admits (set (dm_allowed_groups m)) (set g)"
    by (auto simp: get_document_def doc_at_def acl split: option.splits if_splits)
  show "store_ok S \<Longrightarrow> c \<in> set (readable_list S p) \<Longrightarrow>
      \<exists>m. doc_at S (p_tenant_id p, chunk_document_id c) = Some m \<and> dm_status m = Ready
        \<and> chunk_tenant_id c = p_tenant_id p \<and> acl_admits (set (dm_allowed_groups m)) (fset (p_groups p))"
    by (rule readable_list_acl)
qed

section \<open>Properties\<close>

lemma store_ok_empty [simp]: "store_ok empty_store"
  by (simp add: store_ok_def empty_store_def)

abbreviation mem_run :: "store_op list \<Rightarrow> memory_store" where
  "mem_run xs \<equiv> foldl mem_step empty_store xs"

text \<open>Tenants are isolated in the in-memory store: whatever other tenants upload, change or delete,
  and whatever happened before, a tenant lists, reads and retrieves exactly the same.\<close>

theorem memory_tenant_isolation:
  assumes "list_all op_ok before" "list_all op_ok xs" "list_all (\<lambda>x. op_tenant x \<noteq> t) xs" "p_tenant_id p = t"
  shows "list_documents (mem_run (before @ xs)) t g b = list_documents (mem_run before) t g b
    \<and> get_document (mem_run (before @ xs)) t d g = get_document (mem_run before) t d g
    \<and> readable_list (mem_run (before @ xs)) p = readable_list (mem_run before) p"
  using mem.tenant_isolation[OF mem.inv_run[OF store_ok_empty assms(1)] assms(2,3)] assms(4) by simp

definition sample_upload :: "string \<Rightarrow> string \<Rightarrow> string list option \<Rightarrow> store_op" where
  "sample_upload t d allowed = OpPersist 1 (sample_result t d) [] allowed [''staff''] ''text/plain'' None"

theorem memory_tenant_isolation_witness:
  "readable_list (mem_run ([sample_upload ''a'' ''d1'' None] @ [sample_upload ''b'' ''d2'' None]))
      \<lparr>p_tenant_id = ''a'', p_user_id = ''u'', p_groups = {||}\<rparr>
   = readable_list (mem_run [sample_upload ''a'' ''d1'' None]) \<lparr>p_tenant_id = ''a'', p_user_id = ''u'', p_groups = {||}\<rparr>"
  using memory_tenant_isolation[of "[sample_upload ''a'' ''d1'' None]" "[sample_upload ''b'' ''d2'' None]" "''a''"
      "\<lparr>p_tenant_id = ''a'', p_user_id = ''u'', p_groups = {||}\<rparr>"]
  by (simp add: sample_upload_def sample_result_def upload_chunk_def result_ok_def op_ok_def py_str is_space_def)

text \<open>No chunk leaks past its ACL: after any operations, every chunk offered to a caller's query
  belongs to the caller's tenant and to the current version of a document whose groups admit the caller.\<close>

theorem memory_chunks_respect_acl:
  assumes "list_all op_ok xs" "c \<in> set (readable_list (mem_run xs) p)"
  shows "\<exists>m. doc_at (mem_run xs) (p_tenant_id p, chunk_document_id c) = Some m \<and> dm_status m = Ready
    \<and> chunk_tenant_id c = p_tenant_id p \<and> acl_admits (set (dm_allowed_groups m)) (fset (p_groups p))"
  using mem.reads_respect_acl(3)[OF store_ok_empty assms] .

lemma sample_readable:
  "readable_list (mem_run [sample_upload ''a'' ''d1'' (Some [''staff''])])
      \<lparr>p_tenant_id = ''a'', p_user_id = ''u'', p_groups = {|''staff''|}\<rparr> = [upload_chunk ''a'' ''d1'']"
  by (simp add: sample_upload_def sample_result_def upload_chunk_def persist_def empty_store_def versions_def
      supersede_def update_where_def readable_list_def readable_chunks_def readable_docs_def doc_chunks_def
      can_read_groups_def renamed_def)

theorem memory_chunks_respect_acl_witness:
  "\<exists>m. doc_at (mem_run [sample_upload ''a'' ''d1'' (Some [''staff''])]) (''a'', ''d1'') = Some m
     \<and> acl_admits (set (dm_allowed_groups m)) {''staff''}"
proof -
  let ?p = "\<lparr>p_tenant_id = ''a'', p_user_id = ''u'', p_groups = {|''staff''|}\<rparr>"
  have "list_all op_ok [sample_upload ''a'' ''d1'' (Some [''staff''])]"
    by (simp add: sample_upload_def sample_result_def upload_chunk_def result_ok_def op_ok_def py_str is_space_def)
  moreover have "upload_chunk ''a'' ''d1'' \<in> set (readable_list (mem_run [sample_upload ''a'' ''d1'' (Some [''staff''])]) ?p)"
    by (simp only: sample_readable) simp
  ultimately show ?thesis using memory_chunks_respect_acl by (fastforce simp: upload_chunk_def)
qed

lemma doc_at_supersede:
  "map_of (supersede now t src g d ds) k = map_option (\<lambda>m. if is_sibling t src g d (k, m) \<and> dm_status m = Ready
     then m\<lparr>dm_status := Superseded, dm_updated_at := now\<rparr> else m) (map_of ds k)"
  by (simp add: supersede_def map_of_update_where)

text \<open>The two ways a result that is not the current version yet is stored.\<close>

lemma persist_stored:
  assumes "persist S now r allowed g ct source = Inr (pr, S')"
    and "\<And>e. doc_at S (result_key r) = Some e \<Longrightarrow> dm_status e = Superseded"
  defines "src \<equiv> source_of r source"
  defines "sib \<equiv> is_sibling (fst (result_key r)) src g (ir_document_id r)"
  shows "pr_version pr = next_version (map snd (filter sib (ms_documents S)))"
    "\<exists>m. doc_at S' (result_key r) = Some m \<and> dm_status m = Ready \<and> dm_version m = pr_version pr
      \<and> dm_source m = chunk_source (hd (ir_chunks r))"
    "k \<noteq> result_key r \<Longrightarrow> doc_at S' k = map_option (\<lambda>m. if sib (k, m) \<and> dm_status m = Ready
      then m\<lparr>dm_status := Superseded, dm_updated_at := now\<rparr> else m) (doc_at S k)"
proof -
  have not_ready: "\<not> (map_of (ms_documents S) (result_key r) \<noteq> None \<and>
      dm_status (the (map_of (ms_documents S) (result_key r))) = Ready)"
    using assms(2) by (auto simp: doc_at_def)
  note defs = persist_def doc_at_def result_key_def src_def sib_def doc_at_supersede map_of_update_where
  show "pr_version pr = next_version (map snd (filter sib (ms_documents S)))"
    using assms(1) not_ready by (auto simp: defs split: if_splits)
  show "\<exists>m. doc_at S' (result_key r) = Some m \<and> dm_status m = Ready \<and> dm_version m = pr_version pr
      \<and> dm_source m = chunk_source (hd (ir_chunks r))"
    using assms(1) not_ready by (auto simp: defs map_add_Some_iff split: if_splits option.splits)
  show "k \<noteq> result_key r \<Longrightarrow> doc_at S' k = map_option (\<lambda>m. if sib (k, m) \<and> dm_status m = Ready
      then m\<lparr>dm_status := Superseded, dm_updated_at := now\<rparr> else m) (doc_at S k)"
    using assms(1) not_ready
    by (auto simp: defs map_add_def option.map_comp comp_def split: if_splits option.splits)
qed

text \<open>C10. A new upload becomes the one current version of its document: when the content is not current
  already, it is stored or reinstated as ready under the uploaded name, its version number exceeds that
  of every other version the uploader can see, and all of those are superseded.\<close>

theorem persist_makes_current:
  assumes "store_ok S" "persist S now r allowed g ct source = Inr (pr, S')"
    and "\<And>e. doc_at S (result_key r) = Some e \<Longrightarrow> dm_status e = Superseded"
  shows "(\<exists>m. doc_at S' (result_key r) = Some m \<and> dm_status m = Ready \<and> dm_version m = pr_version pr
      \<and> dm_source m = chunk_source (hd (ir_chunks r)))
    \<and> (\<forall>k m. doc_at S' k = Some m \<longrightarrow> k \<noteq> result_key r \<longrightarrow>
        is_version (fst (result_key r)) (src_system (source_of r source)) (src_id (source_of r source)) g (k, m) \<longrightarrow>
        dm_status m = Superseded \<and> dm_version m < pr_version pr)"
proof (intro conjI allI impI)
  show "\<exists>m. doc_at S' (result_key r) = Some m \<and> dm_status m = Ready \<and> dm_version m = pr_version pr
      \<and> dm_source m = chunk_source (hd (ir_chunks r))"
    by (rule persist_stored(2)[OF assms(2,3)])
  fix k m
  assume m: "doc_at S' k = Some m" and k: "k \<noteq> result_key r"
    and v: "is_version (fst (result_key r)) (src_system (source_of r source)) (src_id (source_of r source)) g (k, m)"
  let ?sib = "is_sibling (fst (result_key r)) (source_of r source) g (ir_document_id r)"
  obtain m0 where m0: "doc_at S k = Some m0"
    "m = (if ?sib (k, m0) \<and> dm_status m0 = Ready then m0\<lparr>dm_status := Superseded, dm_updated_at := now\<rparr> else m0)"
    using persist_stored(3)[OF assms(2,3) k] m by (cases "doc_at S k") simp_all
  have "dm_document_id m0 = snd k" using store_okD(1)[OF assms(1), of k m0] m0(1) by (simp add: doc_at_def)
  moreover have "fst k = fst (result_key r)" using v by (cases k) (simp add: is_version_def)
  ultimately have "dm_document_id m0 \<noteq> ir_document_id r" using k by (cases k) (auto simp: result_key_def)
  moreover have "is_version (fst (result_key r)) (src_system (source_of r source)) (src_id (source_of r source)) g (k, m0)"
    using v m0(2) by (cases k) (auto simp: is_version_def visible_def split: if_splits)
  ultimately have sib: "?sib (k, m0)" by (simp add: is_sibling_def)
  have "m0 \<in> set (map snd (filter ?sib (ms_documents S)))"
    using sib m0(1) by (force simp: doc_at_def dest: map_of_SomeD)
  then have "dm_version m0 < pr_version pr"
    using persist_stored(1)[OF assms(2,3)] next_version_greater by simp
  with sib m0(2) show "dm_status m = Superseded" "dm_version m < pr_version pr"
    by (cases "dm_status m0"; simp)+
qed

lemmas sample_defs = op_ok_def py_str is_space_def sample_upload_def sample_result_def upload_chunk_def result_ok_def result_key_def

theorem persist_makes_current_witness:
  "\<exists>pr S' m. persist (mem_run [sample_upload ''a'' ''d1'' None]) 2 (sample_result ''a'' ''d2'') None [] ''text/plain'' None = Inr (pr, S')
     \<and> doc_at S' (''a'', ''d2'') = Some m \<and> dm_status m = Ready \<and> pr_version pr = 2"
proof -
  let ?S = "mem_run [sample_upload ''a'' ''d1'' None]" and ?r = "sample_result ''a'' ''d2''"
  have ok: "store_ok ?S"
    using mem.inv_run[OF store_ok_empty, of "[sample_upload ''a'' ''d1'' None]"] by (simp add: sample_defs)
  have key: "result_key ?r = (''a'', ''d2'')" by (simp add: sample_defs)
  have none: "doc_at ?S (result_key ?r) = None"
    by (simp add: key doc_at_def sample_defs persist_def empty_store_def versions_def supersede_def update_where_def)
  obtain pr S' where p: "persist ?S 2 ?r None [] ''text/plain'' None = Inr (pr, S')" "pr_version pr = 2"
    by (simp add: sample_defs persist_def empty_store_def versions_def supersede_def update_where_def is_sibling_def
        is_version_def visible_def next_version_def source_of_def upload_ref_def)
  from persist_makes_current[OF ok p(1)] none key p show ?thesis by auto
qed

lemma map_res_map: "map_res g (map f xs) = map_res (g \<circ> f) xs"
  by (induction xs) simp_all

lemma readable_update_where:
  assumes "\<And>m. dm_status (f m) = dm_status m" "\<And>m. dm_allowed_groups (f m) = dm_allowed_groups m"
    "\<And>m. dm_source (f m) = dm_source m"
  shows "readable_chunks (S\<lparr>ms_documents := update_where P f (ms_documents S)\<rparr>) p = readable_chunks S p"
proof -
  let ?S = "S\<lparr>ms_documents := update_where P f (ms_documents S)\<rparr>"
  let ?F = "\<lambda>x. if P x then (fst x, f (snd x)) else x"
  let ?Q = "\<lambda>(k, m). fst k = p_tenant_id p \<and> dm_status m = Ready \<and> can_read_groups (Some (dm_allowed_groups m)) p"
  have "update_where P f ds = map ?F ds" for ds by (simp add: update_where_def)
  moreover have "?Q \<circ> ?F = ?Q" using assms by (auto simp: fun_eq_iff)
  ultimately have docs: "readable_docs ?S p = map ?F (readable_docs S p)"
    by (simp only: readable_docs_def memory_store.select_convs memory_store.update_convs filter_map)
      (simp add: readable_docs_def filter_map)
  have "doc_chunks ?S \<circ> ?F = doc_chunks S" using assms(3) by (auto simp: doc_chunks_def fun_eq_iff split: option.split)
  with docs show ?thesis by (simp add: readable_chunks_def map_res_map)
qed

text \<open>Uploads are idempotent: storing the same ingestion result again, by anyone and with any
  settings, finds the stored document, writes no chunk, keeps its version and changes nothing that a
  query can see.\<close>

theorem persist_idempotent:
  assumes "persist S now r allowed g ct source = Inr (pr, S')"
  shows "\<exists>S''. persist S' now' r allowed' g' ct' source' =
      Inr (\<lparr>pr_document_id = ir_document_id r, pr_chunks_written = 0, pr_already_existed = True,
            pr_version = pr_version pr, pr_superseded = []\<rparr>, S'')
    \<and> readable_chunks S'' p = readable_chunks S' p"
proof -
  have ne: "ir_chunks r \<noteq> []" using assms by (auto simp: persist_def)
  obtain m where m: "doc_at S' (result_key r) = Some m" "dm_status m = Ready" "dm_version m = pr_version pr"
  proof (cases "\<exists>e. doc_at S (result_key r) = Some e \<and> dm_status e = Ready")
    case True
    with assms that show thesis
      by (auto simp: persist_def doc_at_def result_key_def map_of_update_where split: if_splits)
  next
    case False
    then have "\<And>e. doc_at S (result_key r) = Some e \<Longrightarrow> dm_status e = Superseded"
      by (metis doc_status.exhaust)
    from persist_stored(2)[OF assms this] that show thesis by blast
  qed
  let ?ds = "update_where (\<lambda>(k, _). k = result_key r) (\<lambda>m. m\<lparr>dm_last_checked_at := now'\<rparr>) (ms_documents S')"
  let ?S = "S'\<lparr>ms_documents := ?ds\<rparr>"
  have "persist S' now' r allowed' g' ct' source' =
      Inr (\<lparr>pr_document_id = ir_document_id r, pr_chunks_written = 0, pr_already_existed = True,
            pr_version = pr_version pr, pr_superseded = []\<rparr>, ?S)"
    using ne m by (simp add: persist_def doc_at_def result_key_def)
  moreover have "readable_chunks ?S p = readable_chunks S' p" by (rule readable_update_where) simp_all
  ultimately show ?thesis by blast
qed

theorem persist_idempotent_witness:
  "\<exists>pr S' S''. persist empty_store 1 (sample_result ''a'' ''d1'') None [] ''text/plain'' None = Inr (pr, S')
     \<and> persist S' 2 (sample_result ''a'' ''d1'') (Some [''hr'']) [] ''text/plain'' None =
         Inr (\<lparr>pr_document_id = ''d1'', pr_chunks_written = 0, pr_already_existed = True,
               pr_version = pr_version pr, pr_superseded = []\<rparr>, S'')"
proof -
  obtain pr S' where p: "persist empty_store 1 (sample_result ''a'' ''d1'') None [] ''text/plain'' None = Inr (pr, S')"
    by (simp add: sample_defs persist_def empty_store_def)
  from persist_idempotent[OF p, of 2 "Some [''hr'']" "[]" "''text/plain''" None] p
  show ?thesis by (auto simp: sample_result_def)
qed

text \<open>Re-uploading an old version ignores the requested ACL: a document is stored for everyone, a
  second version is restricted to \<open>finance\<close>, and the first bytes are uploaded again for \<open>finance\<close> only;
  the reinstated version is readable by a caller outside \<open>finance\<close>.\<close>

theorem reinstated_version_ignores_acl:
  "let S = mem_run [sample_upload ''a'' ''d1'' (Some []), sample_upload ''a'' ''d2'' (Some [''staff'', ''finance'']),
       sample_upload ''a'' ''d1'' (Some [''finance''])];
       p = \<lparr>p_tenant_id = ''a'', p_user_id = ''u'', p_groups = {||}\<rparr>
   in readable_list S p = [upload_chunk ''a'' ''d1'']"
  by (simp add: sample_defs persist_def empty_store_def versions_def supersede_def update_where_def is_sibling_def
      is_version_def visible_def next_version_def source_of_def upload_ref_def readable_list_def readable_chunks_def
      readable_docs_def doc_chunks_def can_read_groups_def renamed_def)

end
