(* ===== verification/Embeddings.thy ===== *)
theory Embeddings
  imports Rag_Prelude
begin

text \<open>
  The local embedder (\<open>embeddings.py\<close>): its configuration and the validation of the vectors. The
  embedding model is a parameter; vectors are lists of reals, so every value is finite.
\<close>

definition MODEL_NAME :: string where
  "MODEL_NAME = ''BAAI/bge-small-en-v1.5''"

definition DIMENSIONS :: nat where
  "DIMENSIONS = 384"

record embedder =
  em_model_name :: string
  em_batch_size :: int
  em_threads :: "int option"
  em_loaded :: bool

definition mk_embedder :: "string \<Rightarrow> int \<Rightarrow> int option \<Rightarrow> embedder res" where
  "mk_embedder model_name batch_size threads =
     (if model_name \<noteq> MODEL_NAME then Inl (ValueError (''this schema is configured for '' @ MODEL_NAME))
      else if batch_size \<le> 0 then Inl (ValueError ''batch_size must be positive'')
      else Inr \<lparr>em_model_name = model_name, em_batch_size = batch_size, em_threads = threads, em_loaded = False\<rparr>)"

definition embedder_from_environment :: "environ \<Rightarrow> embedder res" where
  "embedder_from_environment env =
     bind_res (py_int (getenv env ''RAG_EMBED_BATCH_SIZE'' ''32'')) (\<lambda>batch_size.
     let threads = strip (getenv env ''RAG_EMBED_THREADS'' []) in
     bind_res (if threads \<noteq> [] then bind_res (py_int threads) (\<lambda>n. Inr (Some n)) else Inr None)
       (mk_embedder MODEL_NAME batch_size))"

text \<open>\<open>_load_model\<close>: \<open>installed\<close> says whether the optional dependency can be imported.\<close>

definition load_model :: "bool \<Rightarrow> embedder \<Rightarrow> embedder res" where
  "load_model installed E =
     (if em_loaded E then Inr E
      else if \<not> installed then Inl (RuntimeError ''install the local embedding dependencies'')
      else Inr (E\<lparr>em_loaded := True\<rparr>))"

definition validate_vector :: "real list \<Rightarrow> real list res" where
  "validate_vector v =
     (if length v \<noteq> DIMENSIONS
      then Inl (ValueError (''expected '' @ show_nat DIMENSIONS @ ''-dimension embedding; got '' @ show_nat (length v)))
      else Inr v)"

definition embed_documents :: "bool \<Rightarrow> (int \<Rightarrow> string list \<Rightarrow> real list list) \<Rightarrow> embedder \<Rightarrow> string list \<Rightarrow>
    (real list list \<times> embedder) res" where
  "embed_documents installed model E texts =
     (if texts = [] then Inr ([], E)
      else bind_res (load_model installed E) (\<lambda>E'.
           bind_res (map_res validate_vector (model (em_batch_size E') texts)) (\<lambda>vs. Inr (vs, E'))))"

definition embed_query :: "bool \<Rightarrow> (string \<Rightarrow> real list list) \<Rightarrow> embedder \<Rightarrow> string \<Rightarrow> (real list \<times> embedder) res" where
  "embed_query installed model E t =
     bind_res (load_model installed E) (\<lambda>E'.
     case model t of
       [] \<Rightarrow> Inl (RuntimeError ''embedding model returned no query vector'')
     | v # _ \<Rightarrow> bind_res (validate_vector v) (\<lambda>v'. Inr (v', E')))"

lemma validate_vector_Inr: "validate_vector v = Inr w \<longleftrightarrow> w = v \<and> length v = DIMENSIONS"
  by (auto simp: validate_vector_def)

text \<open>What the embedder returns is fit to be stored: one vector per vector of the model, all of the
  dimension of the schema.\<close>

lemma embed_documents_dimensions:
  assumes "embed_documents installed model E texts = Inr (vs, E')"
  shows "\<forall>v\<in>set vs. length v = DIMENSIONS"
proof -
  have "\<forall>v\<in>set ws. length v = DIMENSIONS" if "map_res validate_vector us = Inr ws" for us ws
    using that map_res_set by (fastforce simp: validate_vector_Inr)
  with assms show ?thesis by (auto simp: embed_documents_def split: if_splits)
qed

lemma embed_query_dimensions:
  "embed_query installed model E t = Inr (v, E') \<Longrightarrow> length v = DIMENSIONS"
  by (cases "model t") (auto simp: embed_query_def validate_vector_Inr)

end
