(* ===== verification/Postgres_Store.thy ===== *)
theory Postgres_Store
  imports Document_Store Embeddings Query
begin

text \<open>
  The PostgreSQL store (\<open>persistence.py\<close>). A statement is an operation on the rows of \<open>documents\<close> and
  \<open>chunks\<close> that row security shows for the tenant of the transaction; an exception rolls the transaction
  back, so a failed operation changes nothing. The distance operator of pgvector and the text-search
  functions are parameters. The fusion of \<open>search_hybrid\<close> is modelled in full.
\<close>

section \<open>Tables\<close>

record pg_chunk =
  pc_chunk :: chunk
  pc_embedding :: "real list option"
  pc_model :: "string option"

record pg_store =
  pg_docs :: "(doc_key \<times> doc_meta) list"
  pg_chunks :: "pg_chunk list"

definition empty_pg :: pg_store where
  "empty_pg = \<lparr>pg_docs = [], pg_chunks = []\<rparr>"

definition acl_filter :: "doc_meta \<Rightarrow> string list \<Rightarrow> bool" where
  "acl_filter m groups = (length (dm_allowed_groups m) = 0 \<or> list_ex (\<lambda>g. g \<in> set groups) (dm_allowed_groups m))"

lemma acl_filter_iff [acl]: "acl_filter m groups \<longleftrightarrow> acl_admits (set (dm_allowed_groups m)) (set groups)"
  by (auto simp: acl_filter_def acl_admits_def list_ex_iff)

text \<open>
  \<open>_set_tenant\<close> fixes the tenant of the transaction to the trimmed name; a row is affected when row
  security shows it and the statement names its tenant.
\<close>

definition set_tenant :: "string \<Rightarrow> string res" where
  "set_tenant tenant = (if strip tenant = [] then Inl (ValueError ''tenant_id is required'') else Inr (strip tenant))"

definition own_row :: "string \<Rightarrow> string \<Rightarrow> bool" where
  "own_row tenant row_tenant = (row_tenant = strip tenant \<and> row_tenant = tenant)"

section \<open>Storing a document\<close>

definition same_source :: "string \<Rightarrow> source_ref \<Rightarrow> doc_key \<times> doc_meta \<Rightarrow> bool" where
  "same_source tenant src x = (own_row tenant (fst (fst x)) \<and> dm_source_system (snd x) = src_system src
     \<and> dm_source_id (snd x) = src_id src)"

text \<open>\<open>ORDER BY version DESC LIMIT 1\<close>; among equal versions the first row of the table.\<close>

fun highest_version :: "doc_meta list \<Rightarrow> doc_meta option" where
  "highest_version [] = None"
| "highest_version (m # ms) = (case highest_version ms of
     None \<Rightarrow> Some m | Some n \<Rightarrow> if dm_version n > dm_version m then Some n else Some m)"

definition inherited_groups :: "pg_store \<Rightarrow> string \<Rightarrow> source_ref \<Rightarrow> string list \<Rightarrow> string list" where
  "inherited_groups S tenant src groups =
     (case highest_version (map snd (filter (\<lambda>x. same_source tenant src x \<and> dm_status (snd x) = Ready
         \<and> acl_filter (snd x) groups) (pg_docs S))) of
        None \<Rightarrow> [] | Some m \<Rightarrow> dm_allowed_groups m)"

definition check_embeddings :: "ingest_result \<Rightarrow> real list list \<Rightarrow> string \<Rightarrow> unit res" where
  "check_embeddings result embeddings model_name =
     (if ir_chunks result = [] then Inl (ValueError ''cannot persist an ingestion result with no chunks'')
      else if model_name \<noteq> MODEL_NAME
      then Inl (ValueError (''database vectors must use the configured model '' @ MODEL_NAME))
      else if length embeddings \<noteq> length (ir_chunks result)
      then Inl (ValueError ''every chunk must have exactly one embedding'')
      else if \<not> list_all (\<lambda>v. length v = DIMENSIONS) embeddings
      then Inl (ValueError (''embeddings must have exactly '' @ show_nat DIMENSIONS @ '' dimensions''))
      else Inr ())"

text \<open>
  \<open>INSERT INTO chunks ... ON CONFLICT (tenant_id, document_id, chunk_index) DO NOTHING\<close>, one row at a
  time: row security and the page check reject a row, the primary key rejects a used id.
\<close>

definition insert_chunk :: "string \<Rightarrow> string \<Rightarrow> string \<Rightarrow> pg_chunk list \<Rightarrow> chunk \<times> real list \<Rightarrow> pg_chunk list res" where
  "insert_chunk session_tenant document_id model_name rows = (\<lambda>(c, v).
     if chunk_tenant_id c \<noteq> session_tenant then Inl (OtherError ''row-level security policy for table chunks'')
     else if (case chunk_page c of None \<Rightarrow> False | Some n \<Rightarrow> n < 1) then Inl (OtherError ''check constraint on page'')
     else if list_ex (\<lambda>r. chunk_tenant_id (pc_chunk r) = chunk_tenant_id c
         \<and> chunk_document_id (pc_chunk r) = document_id \<and> chunk_index (pc_chunk r) = chunk_index c) rows
     then Inr rows
     else if list_ex (\<lambda>r. chunk_id (pc_chunk r) = chunk_id c) rows then Inl (OtherError ''duplicate chunk id'')
     else Inr (rows @ [\<lparr>pc_chunk = c\<lparr>chunk_document_id := document_id\<rparr>, pc_embedding = Some v,
       pc_model = Some model_name\<rparr>]))"

fun insert_chunks :: "string \<Rightarrow> string \<Rightarrow> string \<Rightarrow> pg_chunk list \<Rightarrow> (chunk \<times> real list) list \<Rightarrow> pg_chunk list res" where
  "insert_chunks t d mn rows [] = Inr rows"
| "insert_chunks t d mn rows (x # xs) =
     bind_res (insert_chunk t d mn rows x) (\<lambda>rows'. insert_chunks t d mn rows' xs)"

text \<open>The row the unique index \<open>documents_identity_content\<close> makes an upload collide with.\<close>

definition conflicts :: "string \<Rightarrow> source_ref \<Rightarrow> string \<Rightarrow> doc_key \<times> doc_meta \<Rightarrow> bool" where
  "conflicts tenant src sha x = (same_source tenant src x \<and> dm_content_sha256 (snd x) = sha)"

definition touch_conflict :: "int \<Rightarrow> source_ref \<Rightarrow> doc_meta \<Rightarrow> doc_meta" where
  "touch_conflict now src m = m\<lparr>dm_updated_at := now, dm_last_checked_at := now,
     dm_source_version := (if src_version src \<noteq> None then src_version src else dm_source_version m)\<rparr>"

definition new_document :: "int \<Rightarrow> ingest_result \<Rightarrow> string list \<Rightarrow> string \<Rightarrow> source_ref \<Rightarrow> doc_meta" where
  "new_document now result acl content_type src =
     \<lparr>dm_document_id = ir_document_id result, dm_source = chunk_source (hd (ir_chunks result)),
      dm_source_system = src_system src, dm_source_id = src_id src, dm_version = 1, dm_status = Ready,
      dm_content_type = content_type, dm_content_sha256 = ir_content_sha256 result,
      dm_chunk_count = length (ir_chunks result), dm_allowed_groups = acl, dm_source_version = src_version src,
      dm_source_modified_at = src_modified_at src, dm_last_checked_at = now,
      dm_created_at = now, dm_updated_at = now\<rparr>"

definition pg_sibling :: "string \<Rightarrow> source_ref \<Rightarrow> string list \<Rightarrow> string \<Rightarrow> doc_key \<times> doc_meta \<Rightarrow> bool" where
  "pg_sibling tenant src groups document_id x =
     (same_source tenant src x \<and> dm_document_id (snd x) \<noteq> document_id \<and> acl_filter (snd x) groups)"

text \<open>The statements after the insertion: supersede the siblings, number and publish the document.\<close>

definition finish_persist :: "int \<Rightarrow> ingest_result \<Rightarrow> source_ref \<Rightarrow> string list \<Rightarrow> bool \<Rightarrow> string \<Rightarrow> pg_store \<Rightarrow>
    persist_result \<times> pg_store" where
  "finish_persist now result src groups inserted document_id S =
     (let first = hd (ir_chunks result); tenant = chunk_tenant_id first;
          sibling = pg_sibling tenant src groups document_id;
          superseded = map (dm_document_id \<circ> snd) (filter (\<lambda>x. sibling x \<and> dm_status (snd x) = Ready) (pg_docs S));
          docs = update_where (\<lambda>x. sibling x \<and> dm_status (snd x) = Ready)
            (\<lambda>m. m\<lparr>dm_status := Superseded, dm_updated_at := now\<rparr>) (pg_docs S);
          version = next_version (map snd (filter sibling docs)) in
      (\<lparr>pr_document_id = document_id, pr_chunks_written = (if inserted then length (ir_chunks result) else 0),
        pr_already_existed = (\<not> inserted), pr_version = version, pr_superseded = superseded\<rparr>,
       S\<lparr>pg_docs := update_where (\<lambda>x. own_row tenant (fst (fst x)) \<and> dm_document_id (snd x) = document_id)
          (\<lambda>m. m\<lparr>dm_status := Ready, dm_version := version, dm_source := chunk_source first,
             dm_updated_at := now\<rparr>) docs\<rparr>))"

definition pg_persist :: "pg_store \<Rightarrow> int \<Rightarrow> ingest_result \<Rightarrow> real list list \<Rightarrow> string \<Rightarrow> string list option \<Rightarrow>
    string list \<Rightarrow> string \<Rightarrow> source_ref option \<Rightarrow> (persist_result \<times> pg_store) res" where
  "pg_persist S now result embeddings model_name allowed groups content_type source =
     bind_res (check_embeddings result embeddings model_name) (\<lambda>_.
     let tenant = chunk_tenant_id (hd (ir_chunks result)); src = source_of result source in
     bind_res (set_tenant tenant) (\<lambda>session.
     let acl = (case allowed of Some a \<Rightarrow> a | None \<Rightarrow> inherited_groups S tenant src groups) in
     if tenant \<noteq> session then Inl (OtherError ''row-level security policy for table documents'')
     else case List.find (conflicts tenant src (ir_content_sha256 result)) (pg_docs S) of
       Some x \<Rightarrow>
         let S1 = S\<lparr>pg_docs := update_where (conflicts tenant src (ir_content_sha256 result)) (touch_conflict now src) (pg_docs S)\<rparr> in
         if dm_status (snd x) = Ready
         then Inr (\<lparr>pr_document_id = dm_document_id (snd x), pr_chunks_written = 0, pr_already_existed = True,
                 pr_version = dm_version (snd x), pr_superseded = []\<rparr>, S1)
         else Inr (finish_persist now result src groups False (dm_document_id (snd x)) S1)
     | None \<Rightarrow>
         if list_ex (\<lambda>x. fst x = (tenant, ir_document_id result)) (pg_docs S)
         then Inl (OtherError ''duplicate key value violates documents_pkey'')
         else
           bind_res (insert_chunks session (ir_document_id result) model_name (pg_chunks S)
               (zip (ir_chunks result) embeddings)) (\<lambda>chunks.
           Inr (finish_persist now result src groups True (ir_document_id result)
             \<lparr>pg_docs = pg_docs S @ [((tenant, ir_document_id result), new_document now result acl content_type src)],
              pg_chunks = chunks\<rparr>))))"

section \<open>Metadata operations\<close>

text \<open>\<open>_select_documents\<close>; \<open>ORDER BY created_at DESC, document_id\<close>.\<close>

definition pg_doc_order :: "doc_meta \<Rightarrow> int \<times> string" where
  "pg_doc_order m = (- dm_created_at m, dm_document_id m)"

definition select_documents :: "pg_store \<Rightarrow> string \<Rightarrow> string list \<Rightarrow> (doc_meta \<Rightarrow> bool) \<Rightarrow> doc_meta list res" where
  "select_documents S tenant groups whr =
     bind_res (set_tenant tenant) (\<lambda>_.
     Inr (sort_key pg_doc_order (map snd (filter (\<lambda>x. own_row tenant (fst (fst x)) \<and> acl_filter (snd x) groups
       \<and> whr (snd x)) (pg_docs S)))))"

definition pg_current_version :: "pg_store \<Rightarrow> string \<Rightarrow> source_ref \<Rightarrow> string list \<Rightarrow> doc_meta option res" where
  "pg_current_version S tenant src groups =
     bind_res (select_documents S tenant groups (\<lambda>m. dm_source_system m = src_system src \<and> dm_source_id m = src_id src
       \<and> dm_status m = Ready)) (\<lambda>rows. Inr (case rows of [] \<Rightarrow> None | m # _ \<Rightarrow> Some m))"

definition pg_mark_checked :: "pg_store \<Rightarrow> int \<Rightarrow> string \<Rightarrow> string \<Rightarrow> pg_store res" where
  "pg_mark_checked S now tenant document_id =
     bind_res (set_tenant tenant) (\<lambda>_.
     Inr (S\<lparr>pg_docs := update_where (\<lambda>x. own_row tenant (fst (fst x)) \<and> dm_document_id (snd x) = document_id)
       (\<lambda>m. m\<lparr>dm_last_checked_at := now\<rparr>) (pg_docs S)\<rparr>))"

definition pg_list_documents :: "pg_store \<Rightarrow> string \<Rightarrow> string list \<Rightarrow> bool \<Rightarrow> doc_meta list res" where
  "pg_list_documents S tenant groups include_superseded =
     select_documents S tenant groups (\<lambda>m. include_superseded \<or> dm_status m = Ready)"

definition pg_get_document :: "pg_store \<Rightarrow> string \<Rightarrow> string \<Rightarrow> string list \<Rightarrow> doc_meta option res" where
  "pg_get_document S tenant document_id groups =
     bind_res (select_documents S tenant groups (\<lambda>m. dm_document_id m = document_id))
       (\<lambda>rows. Inr (case rows of [] \<Rightarrow> None | m # _ \<Rightarrow> Some m))"

definition pg_apply_changes :: "int \<Rightarrow> string list option \<Rightarrow> string option \<Rightarrow> doc_meta \<Rightarrow> doc_meta" where
  "pg_apply_changes now allowed display m =
     m\<lparr>dm_allowed_groups := (case allowed of Some a \<Rightarrow> a | None \<Rightarrow> dm_allowed_groups m),
       dm_source := (case display of Some s \<Rightarrow> s | None \<Rightarrow> dm_source m), dm_updated_at := now\<rparr>"

definition pg_update_document :: "pg_store \<Rightarrow> int \<Rightarrow> string \<Rightarrow> string \<Rightarrow> string list \<Rightarrow> string list option \<Rightarrow>
    string option \<Rightarrow> ((bool \<times> doc_meta option) \<times> pg_store) res" where
  "pg_update_document S now tenant document_id groups allowed display =
     bind_res (set_tenant tenant) (\<lambda>_.
     case List.find (\<lambda>x. own_row tenant (fst (fst x)) \<and> dm_document_id (snd x) = document_id
         \<and> acl_filter (snd x) groups) (pg_docs S) of
       None \<Rightarrow> Inr ((False, None), S)
     | Some x \<Rightarrow>
         let S' = S\<lparr>pg_docs := update_where (\<lambda>y. own_row tenant (fst (fst y))
               \<and> dm_source_system (snd y) = dm_source_system (snd x) \<and> dm_source_id (snd y) = dm_source_id (snd x)
               \<and> acl_filter (snd y) groups) (pg_apply_changes now allowed display) (pg_docs S)\<rparr> in
         bind_res (pg_get_document S' tenant document_id groups) (\<lambda>row. Inr ((True, row), S')))"

text \<open>\<open>DELETE FROM documents\<close>; the foreign key removes the chunks.\<close>

definition pg_delete_document :: "pg_store \<Rightarrow> string \<Rightarrow> string \<Rightarrow> string list \<Rightarrow> (bool \<times> pg_store) res" where
  "pg_delete_document S tenant document_id groups =
     (if strip tenant = [] \<or> strip document_id = []
      then Inl (ValueError ''tenant_id and document_id are required'')
      else
        let doomed = (\<lambda>x. fst (fst x) = strip tenant \<and> dm_document_id (snd x) = strip document_id \<and> acl_filter (snd x) groups);
            gone = map fst (filter doomed (pg_docs S)) in
        Inr (length gone = 1,
          \<lparr>pg_docs = filter (\<lambda>x. \<not> doomed x) (pg_docs S),
           pg_chunks = filter (\<lambda>r. (chunk_tenant_id (pc_chunk r), chunk_document_id (pc_chunk r)) \<notin> set gone) (pg_chunks S)\<rparr>))"

section \<open>Search\<close>

text \<open>
  The rows a search may return: \<open>chunks JOIN documents USING (tenant_id, document_id)\<close> under the tenant,
  status and ACL conditions both searches share. A row carries the display name of its document.
\<close>

record search_row =
  sr_chunk :: chunk
  sr_groups :: "string list"
  sr_score :: real

definition readable_row :: "pg_store \<Rightarrow> string \<Rightarrow> string list \<Rightarrow> pg_chunk \<Rightarrow> (pg_chunk \<times> doc_meta) option" where
  "readable_row S tenant groups r =
     (let c = pc_chunk r in
      if \<not> own_row tenant (chunk_tenant_id c) then None
      else case map_of (pg_docs S) (chunk_tenant_id c, chunk_document_id c) of
        None \<Rightarrow> None
      | Some m \<Rightarrow> if dm_status m = Ready \<and> acl_filter m groups then Some (r, m) else None)"

definition readable_rows :: "pg_store \<Rightarrow> string \<Rightarrow> string list \<Rightarrow> (pg_chunk \<times> doc_meta) list" where
  "readable_rows S tenant groups = List.map_filter (readable_row S tenant groups) (pg_chunks S)"

definition joined :: "pg_chunk \<times> doc_meta \<Rightarrow> real \<Rightarrow> search_row" where
  "joined x score = \<lparr>sr_chunk = (pc_chunk (fst x))\<lparr>chunk_source := dm_source (snd x)\<rparr>,
     sr_groups = dm_allowed_groups (snd x), sr_score = score\<rparr>"

text \<open>The rows with an embedding of the model, with their distance to the query vector.\<close>

definition embedded_rows :: "(real list \<Rightarrow> real list \<Rightarrow> real) \<Rightarrow> pg_store \<Rightarrow> string \<Rightarrow> string list \<Rightarrow> string \<Rightarrow> real list \<Rightarrow>
    (real \<times> pg_chunk \<times> doc_meta) list" where
  "embedded_rows vdist S tenant groups model_name v =
     map (\<lambda>x. (vdist (the (pc_embedding (fst x))) v, x))
       (filter (\<lambda>x. pc_embedding (fst x) \<noteq> None \<and> pc_model (fst x) = Some model_name) (readable_rows S tenant groups))"

definition nearest :: "(real list \<Rightarrow> real list \<Rightarrow> real) \<Rightarrow> pg_store \<Rightarrow> string \<Rightarrow> string list \<Rightarrow> string \<Rightarrow> real list \<Rightarrow> nat \<Rightarrow>
    (real \<times> pg_chunk \<times> doc_meta) list" where
  "nearest vdist S tenant groups model_name v n = take n (sort_key fst (embedded_rows vdist S tenant groups model_name v))"

definition search_similar :: "(real list \<Rightarrow> real list \<Rightarrow> real) \<Rightarrow> pg_store \<Rightarrow> string \<Rightarrow> real list \<Rightarrow> int \<Rightarrow> string \<Rightarrow> string list \<Rightarrow>
    search_row list res" where
  "search_similar vdist S tenant v k_limit model_name groups =
     (if strip tenant = [] then Inl (ValueError ''tenant_id is required'')
      else if k_limit \<le> 0 then Inl (ValueError ''limit must be positive'')
      else if length v \<noteq> DIMENSIONS
      then Inl (ValueError (''query embedding must be a finite '' @ show_nat DIMENSIONS @ ''-dimension vector''))
      else Inr (map (\<lambda>(d, x). joined x (1 - d)) (nearest vdist S tenant groups model_name v (nat k_limit))))"

text \<open>Keyword search: \<open>hits q t\<close> is the match operator and \<open>ts_rank q t\<close> the rank of a text.\<close>

definition keyword_rows :: "(string \<Rightarrow> string \<Rightarrow> bool) \<Rightarrow> (string \<Rightarrow> string \<Rightarrow> real) \<Rightarrow> pg_store \<Rightarrow> string \<Rightarrow> string list \<Rightarrow>
    string \<Rightarrow> nat \<Rightarrow> (real \<times> pg_chunk \<times> doc_meta) list" where
  "keyword_rows hits ts_rank S tenant groups q n =
     take n (sort_key (\<lambda>(k, r, _). (- k, chunk_index (pc_chunk r)))
       (map (\<lambda>x. (ts_rank q (chunk_text (pc_chunk (fst x))), x))
         (filter (\<lambda>x. hits q (chunk_text (pc_chunk (fst x)))) (readable_rows S tenant groups))))"

record candidate = search_row +
  cd_semantic_score :: real
  cd_keyword_score :: real
  cd_semantic_rank :: "nat option"
  cd_keyword_rank :: "nat option"

definition mk_candidate :: "pg_chunk \<times> doc_meta \<Rightarrow> real \<Rightarrow> real \<Rightarrow> nat option \<Rightarrow> nat option \<Rightarrow> candidate" where
  "mk_candidate x semantic keyword srank krank = search_row.extend (joined x 0)
     (candidate.fields semantic keyword srank krank)"

definition add_semantic :: "(string \<times> candidate) list \<Rightarrow> nat \<times> real \<times> pg_chunk \<times> doc_meta \<Rightarrow> (string \<times> candidate) list" where
  "add_semantic cs = (\<lambda>(rank, d, x). AList.update (chunk_id (pc_chunk (fst x))) (mk_candidate x (1 - d) 0 (Some rank) None) cs)"

definition add_keyword :: "(string \<times> candidate) list \<Rightarrow> nat \<times> real \<times> pg_chunk \<times> doc_meta \<Rightarrow> (string \<times> candidate) list" where
  "add_keyword cs = (\<lambda>(rank, k, x).
     let i = chunk_id (pc_chunk (fst x));
         c = (case map_of cs i of Some c \<Rightarrow> c | None \<Rightarrow> mk_candidate x 0 0 None None) in
     AList.update i (c\<lparr>cd_keyword_score := k, cd_keyword_rank := Some rank\<rparr>) cs)"

definition term_set :: "string \<Rightarrow> string set" where
  "term_set t = set (tokens_of (lower t))"

definition overlap_of :: "string \<Rightarrow> string \<Rightarrow> real" where
  "overlap_of q t = real (card (term_set q \<inter> term_set t)) / real (max (card (term_set q)) 1)"

definition fused_score :: "nat \<Rightarrow> string \<Rightarrow> real \<Rightarrow> candidate \<Rightarrow> real" where
  "fused_score candidate_limit q max_keyword c =
     (let overlap = overlap_of q (chunk_text (sr_chunk c));
          srank = (case cd_semantic_rank c of Some n \<Rightarrow> n | None \<Rightarrow> candidate_limit + 1);
          krank = (case cd_keyword_rank c of Some n \<Rightarrow> n | None \<Rightarrow> candidate_limit + 1);
          keyword = (if max_keyword \<noteq> 0 then cd_keyword_score c / max_keyword else 0);
          rank_signal = 61 * (65/100 / (60 + real srank) + 25/100 / (60 + real krank)) in
      60/100 * cd_semantic_score c + 25/100 * keyword + 10/100 * overlap + 5/100 * rank_signal)"

definition fuse :: "nat \<Rightarrow> string \<Rightarrow> (real \<times> pg_chunk \<times> doc_meta) list \<Rightarrow> (real \<times> pg_chunk \<times> doc_meta) list \<Rightarrow> candidate list" where
  "fuse candidate_limit q semantic keyword =
     (let cs = foldl add_keyword (foldl add_semantic [] (enumerate 1 semantic)) (enumerate 1 keyword);
          max_keyword = (case map (cd_keyword_score \<circ> snd) cs of [] \<Rightarrow> 0 | k # ks \<Rightarrow> foldl max k ks) in
      map (\<lambda>(_, c). c\<lparr>sr_score := fused_score candidate_limit q max_keyword c\<rparr>) cs)"

definition hybrid_order :: "candidate \<Rightarrow> real \<times> string \<times> nat" where
  "hybrid_order c = (- sr_score c, chunk_document_id (sr_chunk c), chunk_index (sr_chunk c))"

definition search_hybrid :: "(real list \<Rightarrow> real list \<Rightarrow> real) \<Rightarrow> (string \<Rightarrow> string \<Rightarrow> bool) \<Rightarrow> (string \<Rightarrow> string \<Rightarrow> real) \<Rightarrow>
    pg_store \<Rightarrow> string \<Rightarrow> string \<Rightarrow> real list \<Rightarrow> int \<Rightarrow> int \<Rightarrow> string \<Rightarrow> string list \<Rightarrow> candidate list res" where
  "search_hybrid vdist hits ts_rank S tenant q v k_limit candidate_limit model_name groups =
     (if strip tenant = [] then Inl (ValueError ''tenant_id is required'')
      else if strip q = [] then Inl (ValueError ''query_text is required'')
      else if k_limit \<le> 0 \<or> candidate_limit < k_limit then Inl (ValueError ''candidate_limit must be at least limit'')
      else if length v \<noteq> DIMENSIONS
      then Inl (ValueError (''query embedding must be a finite '' @ show_nat DIMENSIONS @ ''-dimension vector''))
      else
        let n = nat candidate_limit;
            semantic = nearest vdist S tenant groups model_name v n;
            keyword = keyword_rows hits ts_rank S tenant groups q n in
        Inr (take (nat k_limit) (sort_key hybrid_order (fuse n q semantic keyword))))"

definition list_chunks :: "pg_store \<Rightarrow> string \<Rightarrow> string option \<Rightarrow> string list \<Rightarrow> chunk list res" where
  "list_chunks S tenant document_id groups =
     (if strip tenant = [] then Inl (ValueError ''tenant_id is required'')
      else Inr (sort_key (\<lambda>c. (chunk_document_id c, chunk_index c))
        (List.map_filter (\<lambda>r. let c = pc_chunk r in
           if own_row tenant (chunk_tenant_id c) \<and> (document_id = None \<or> document_id = Some (chunk_document_id c))
           then (case map_of (pg_docs S) (chunk_tenant_id c, chunk_document_id c) of
               None \<Rightarrow> None
             | Some m \<Rightarrow> if acl_filter m groups then Some (c\<lparr>chunk_source := dm_source m\<rparr>) else None)
           else None) (pg_chunks S))))"

section \<open>The invariant\<close>

definition pg_ok :: "pg_store \<Rightarrow> bool" where
  "pg_ok S = (distinct (map fst (pg_docs S)) \<and> list_all (\<lambda>x. dm_document_id (snd x) = snd (fst x)) (pg_docs S)
     \<and> list_all (\<lambda>r. (chunk_tenant_id (pc_chunk r), chunk_document_id (pc_chunk r)) \<in> set (map fst (pg_docs S))) (pg_chunks S)
     \<and> distinct (map (chunk_id \<circ> pc_chunk) (pg_chunks S)))"

lemma pg_ok_empty [simp]: "pg_ok empty_pg"
  by (simp add: pg_ok_def empty_pg_def)

lemma ids_update_where:
  assumes "list_all (\<lambda>x. dm_document_id (snd x) = snd (fst x)) ds" "\<And>m. dm_document_id (f m) = dm_document_id m"
  shows "list_all (\<lambda>x. dm_document_id (snd x) = snd (fst x)) (update_where P f ds)"
  using assms by (auto simp: list_all_iff elim!: update_where_memE)

lemma pg_ok_update:
  assumes "pg_ok S" "\<And>m. dm_document_id (f m) = dm_document_id m"
  shows "pg_ok (S\<lparr>pg_docs := update_where P f (pg_docs S)\<rparr>)"
  using assms by (simp add: pg_ok_def ids_update_where del: set_map)

lemma finish_persist_ok: "pg_ok S \<Longrightarrow> finish_persist now r src g ins d S = (pr, S') \<Longrightarrow> pg_ok S'"
proof -
  assume ok: "pg_ok S" and f: "finish_persist now r src g ins d S = (pr, S')"
  let ?t = "chunk_tenant_id (hd (ir_chunks r))"
  let ?S1 = "S\<lparr>pg_docs := update_where (\<lambda>x. pg_sibling ?t src g d x \<and> dm_status (snd x) = Ready)
     (\<lambda>m. m\<lparr>dm_status := Superseded, dm_updated_at := now\<rparr>) (pg_docs S)\<rparr>"
  have "pg_ok ?S1" using ok by (rule pg_ok_update) simp
  from pg_ok_update[OF this, of "\<lambda>m. m\<lparr>dm_status := Ready, dm_version := pr_version pr, dm_source := chunk_source (hd (ir_chunks r)),
      dm_updated_at := now\<rparr>" "\<lambda>x. own_row ?t (fst (fst x)) \<and> dm_document_id (snd x) = d"] f
  show ?thesis by (auto simp: finish_persist_def)
qed

lemma insert_chunk_rows:
  assumes "insert_chunk t d mn rows x = Inr rows'"
  shows "\<exists>new. rows' = rows @ new
     \<and> (\<forall>r\<in>set new. chunk_tenant_id (pc_chunk r) = t \<and> chunk_document_id (pc_chunk r) = d)
     \<and> (distinct (map (chunk_id \<circ> pc_chunk) rows) \<longrightarrow> distinct (map (chunk_id \<circ> pc_chunk) rows'))"
proof -
  obtain c v where x: "x = (c, v)" by (metis surj_pair)
  have "rows' = rows \<or> (rows' = rows @ [\<lparr>pc_chunk = c\<lparr>chunk_document_id := d\<rparr>, pc_embedding = Some v, pc_model = Some mn\<rparr>]
      \<and> chunk_tenant_id c = t \<and> chunk_id c \<notin> set (map (chunk_id \<circ> pc_chunk) rows))"
    using assms unfolding x insert_chunk_def by (auto simp: list_ex_iff image_iff split: if_splits option.splits)
  then show ?thesis by fastforce
qed

lemma insert_chunks_rows:
  "insert_chunks t d mn rows xs = Inr rows' \<Longrightarrow> \<exists>new. rows' = rows @ new
     \<and> (\<forall>r\<in>set new. chunk_tenant_id (pc_chunk r) = t \<and> chunk_document_id (pc_chunk r) = d)
     \<and> (distinct (map (chunk_id \<circ> pc_chunk) rows) \<longrightarrow> distinct (map (chunk_id \<circ> pc_chunk) rows'))"
proof (induction xs arbitrary: rows)
  case (Cons x xs)
  obtain rows1 where r1: "insert_chunk t d mn rows x = Inr rows1" "insert_chunks t d mn rows1 xs = Inr rows'"
    using Cons.prems by auto
  obtain new1 where n1: "rows1 = rows @ new1"
    "\<forall>r\<in>set new1. chunk_tenant_id (pc_chunk r) = t \<and> chunk_document_id (pc_chunk r) = d"
    "distinct (map (chunk_id \<circ> pc_chunk) rows) \<longrightarrow> distinct (map (chunk_id \<circ> pc_chunk) rows1)"
    using insert_chunk_rows[OF r1(1)] by blast
  from Cons.IH[OF r1(2)] obtain new2 where "rows' = rows1 @ new2"
    "\<forall>r\<in>set new2. chunk_tenant_id (pc_chunk r) = t \<and> chunk_document_id (pc_chunk r) = d"
    "distinct (map (chunk_id \<circ> pc_chunk) rows1) \<longrightarrow> distinct (map (chunk_id \<circ> pc_chunk) rows')" by blast
  moreover from this n1 have "rows' = rows @ (new1 @ new2)"
    "\<forall>r\<in>set (new1 @ new2). chunk_tenant_id (pc_chunk r) = t \<and> chunk_document_id (pc_chunk r) = d"
    by (simp, metis Un_iff set_append)
  ultimately show ?case using n1(3) by blast
qed simp

text \<open>The ways a call of \<open>persist\<close> can end well.\<close>

lemma pg_persist_cases:
  assumes "pg_persist S now r em mn allowed g ct source = Inr (pr, S')"
  obtains (again) x where "List.find (conflicts (fst (result_key r)) (source_of r source) (ir_content_sha256 r)) (pg_docs S) = Some x"
      "dm_status (snd x) = Ready"
      "S' = S\<lparr>pg_docs := update_where (conflicts (fst (result_key r)) (source_of r source) (ir_content_sha256 r))
         (touch_conflict now (source_of r source)) (pg_docs S)\<rparr>"
      "pr = \<lparr>pr_document_id = dm_document_id (snd x), pr_chunks_written = 0, pr_already_existed = True,
        pr_version = dm_version (snd x), pr_superseded = []\<rparr>"
  | (reinstate) x where "List.find (conflicts (fst (result_key r)) (source_of r source) (ir_content_sha256 r)) (pg_docs S) = Some x"
      "dm_status (snd x) = Superseded"
      "finish_persist now r (source_of r source) g False (dm_document_id (snd x))
        (S\<lparr>pg_docs := update_where (conflicts (fst (result_key r)) (source_of r source) (ir_content_sha256 r))
         (touch_conflict now (source_of r source)) (pg_docs S)\<rparr>) = (pr, S')"
  | (fresh) acl rows where "result_key r \<notin> set (map fst (pg_docs S))"
      "List.find (conflicts (fst (result_key r)) (source_of r source) (ir_content_sha256 r)) (pg_docs S) = None"
      "insert_chunks (fst (result_key r)) (ir_document_id r) mn (pg_chunks S) (zip (ir_chunks r) em) = Inr rows"
      "finish_persist now r (source_of r source) g True (ir_document_id r)
        \<lparr>pg_docs = pg_docs S @ [(result_key r, new_document now r acl ct (source_of r source))], pg_chunks = rows\<rparr> = (pr, S')"
      "acl = (case allowed of Some a \<Rightarrow> a | None \<Rightarrow> inherited_groups S (chunk_tenant_id (hd (ir_chunks r))) (source_of r source) g)"
proof -
  let ?find = "List.find (conflicts (fst (result_key r)) (source_of r source) (ir_content_sha256 r)) (pg_docs S)"
  note defs = pg_persist_def set_tenant_def result_key_def
  show thesis
  proof (cases ?find)
    case (Some x)
    show thesis
    proof (cases "dm_status (snd x)")
      case Ready
      with assms Some show thesis by (intro again[of x]) (auto simp: defs split: if_splits)
    next
      case Superseded
      with assms Some show thesis by (intro reinstate[of x]) (auto simp: defs split: if_splits)
    qed
  next
    case None
    let ?acl = "case allowed of Some a \<Rightarrow> a | None \<Rightarrow> inherited_groups S (chunk_tenant_id (hd (ir_chunks r))) (source_of r source) g"
    have "list_ex (\<lambda>x. fst x = result_key r) (pg_docs S) \<longleftrightarrow> result_key r \<in> set (map fst (pg_docs S))"
      unfolding list_ex_iff set_map image_iff by metis
    then obtain rows where "insert_chunks (fst (result_key r)) (ir_document_id r) mn (pg_chunks S) (zip (ir_chunks r) em) = Inr rows"
      "result_key r \<notin> set (map fst (pg_docs S))"
      "finish_persist now r (source_of r source) g True (ir_document_id r)
        \<lparr>pg_docs = pg_docs S @ [(result_key r, new_document now r ?acl ct (source_of r source))], pg_chunks = rows\<rparr> = (pr, S')"
      using assms None by (auto simp: defs split: if_splits)
    with None show thesis by (intro fresh[OF _ _ _ _ refl])
  qed
qed

lemma pg_persist_ok:
  assumes "pg_ok S" "pg_persist S now r em mn allowed g ct source = Inr (pr, S')"
  shows "pg_ok S'"
  using assms(2)
proof (cases rule: pg_persist_cases)
  case (again x)
  then show ?thesis using assms(1) by (simp add: pg_ok_update touch_conflict_def)
next
  case (reinstate x)
  have "pg_ok (S\<lparr>pg_docs := update_where (conflicts (fst (result_key r)) (source_of r source) (ir_content_sha256 r))
      (touch_conflict now (source_of r source)) (pg_docs S)\<rparr>)"
    using assms(1) by (rule pg_ok_update) (simp add: touch_conflict_def)
  then show ?thesis using reinstate(3) by (rule finish_persist_ok)
next
  case (fresh acl rows)
  obtain new where "rows = pg_chunks S @ new"
    "\<forall>r'\<in>set new. chunk_tenant_id (pc_chunk r') = fst (result_key r) \<and> chunk_document_id (pc_chunk r') = ir_document_id r"
    "distinct (map (chunk_id \<circ> pc_chunk) (pg_chunks S)) \<longrightarrow> distinct (map (chunk_id \<circ> pc_chunk) rows)"
    using insert_chunks_rows[OF fresh(3)] by blast
  with assms(1) fresh(1) have "pg_ok \<lparr>pg_docs = pg_docs S @ [(result_key r, new_document now r acl ct (source_of r source))], pg_chunks = rows\<rparr>"
    by (auto simp: pg_ok_def list_all_iff new_document_def result_key_def)
  then show ?thesis using fresh(4) by (rule finish_persist_ok)
qed

lemma pg_update_document_ok:
  "pg_ok S \<Longrightarrow> pg_update_document S now t d g a n = Inr (res, S') \<Longrightarrow> pg_ok S'"
  by (auto simp: pg_update_document_def pg_apply_changes_def intro!: pg_ok_update split: option.splits)

lemma pg_delete_document_ok:
  assumes "pg_ok S" "pg_delete_document S t d g = Inr (b, S')"
  shows "pg_ok S'"
proof -
  let ?doomed = "\<lambda>x. fst (fst x) = strip t \<and> dm_document_id (snd x) = strip d \<and> acl_filter (snd x) g"
  let ?gone = "map fst (filter ?doomed (pg_docs S))"
  have S': "S' = \<lparr>pg_docs = filter (\<lambda>x. \<not> ?doomed x) (pg_docs S),
      pg_chunks = filter (\<lambda>r. (chunk_tenant_id (pc_chunk r), chunk_document_id (pc_chunk r)) \<notin> set ?gone) (pg_chunks S)\<rparr>"
    using assms(2) by (auto simp: pg_delete_document_def split: if_splits)
  have "k \<in> set (map fst (filter (\<lambda>x. \<not> ?doomed x) (pg_docs S)))" if "k \<in> set (map fst (pg_docs S))" "k \<notin> set ?gone" for k
    using that by auto
  with assms(1) show ?thesis unfolding S' pg_ok_def
    by (simp add: distinct_map_filter list_all_iff del: set_map)
qed

section \<open>The contract\<close>

text \<open>An operation that raises is rolled back.\<close>

definition rolled_back :: "'s \<Rightarrow> ('a \<times> 's) res \<Rightarrow> 's" where
  "rolled_back S r = (case r of Inl _ \<Rightarrow> S | Inr (_, S') \<Rightarrow> S')"

fun pg_step :: "pg_store \<Rightarrow> store_op \<Rightarrow> pg_store" where
  "pg_step S (OpPersist now r em allowed groups ct source) =
     rolled_back S (pg_persist S now r em MODEL_NAME allowed groups ct source)"
| "pg_step S (OpMarkChecked now t d) = (case pg_mark_checked S now t d of Inl _ \<Rightarrow> S | Inr S' \<Rightarrow> S')"
| "pg_step S (OpUpdate now t d groups allowed display) =
     rolled_back S (pg_update_document S now t d groups allowed display)"
| "pg_step S (OpDelete t d groups) = rolled_back S (pg_delete_document S t d groups)"

definition or_default :: "'a \<Rightarrow> 'a res \<Rightarrow> 'a" where
  "or_default d r = (case r of Inl _ \<Rightarrow> d | Inr x \<Rightarrow> x)"

definition pg_readable :: "pg_store \<Rightarrow> principal \<Rightarrow> chunk list" where
  "pg_readable S p = map (\<lambda>x. sr_chunk (joined x 0)) (readable_rows S (p_tenant_id p) (caller_groups p))"

definition pg_view :: "pg_store \<Rightarrow> string \<Rightarrow> (doc_key \<times> doc_meta) list \<times> pg_chunk list" where
  "pg_view S t = (filter (\<lambda>x. fst (fst x) = t) (pg_docs S), filter (\<lambda>r. chunk_tenant_id (pc_chunk r) = t) (pg_chunks S))"

lemma own_rowD: "own_row t u \<Longrightarrow> u = t"
  unfolding own_row_def by blast

lemma pg_view_update:
  assumes "\<And>x. P x \<Longrightarrow> own_row t (fst (fst x))" "t' \<noteq> t"
  shows "pg_view (S\<lparr>pg_docs := update_where P f (pg_docs S)\<rparr>) t' = pg_view S t'"
proof -
  have "fst (fst x) \<noteq> t'" if "P x" for x using own_rowD[OF assms(1)[OF that]] assms(2) by simp
  then show ?thesis by (simp add: pg_view_def own_docs_update_where)
qed

lemma finish_persist_view:
  assumes "finish_persist now r src g ins d S = (pr, S')" "t' \<noteq> chunk_tenant_id (hd (ir_chunks r))"
  shows "pg_view S' t' = pg_view S t'"
proof -
  let ?t = "chunk_tenant_id (hd (ir_chunks r))"
  let ?sib = "\<lambda>x. pg_sibling ?t src g d x \<and> dm_status (snd x) = Ready"
  have sib: "own_row ?t (fst (fst x))" if "?sib x" for x
    using that by (simp add: pg_sibling_def same_source_def)
  let ?S1 = "S\<lparr>pg_docs := update_where ?sib (\<lambda>m. m\<lparr>dm_status := Superseded, dm_updated_at := now\<rparr>) (pg_docs S)\<rparr>"
  let ?own = "\<lambda>x. own_row ?t (fst (fst x)) \<and> dm_document_id (snd x) = d"
  have "pg_view ?S1 t' = pg_view S t'" by (rule pg_view_update[OF sib assms(2)])
  moreover have "S' = ?S1\<lparr>pg_docs := update_where ?own (\<lambda>m. m\<lparr>dm_status := Ready, dm_version := pr_version pr,
      dm_source := chunk_source (hd (ir_chunks r)), dm_updated_at := now\<rparr>) (pg_docs ?S1)\<rparr>"
    using assms(1) by (auto simp: finish_persist_def)
  moreover have "pg_view (?S1\<lparr>pg_docs := update_where ?own f (pg_docs ?S1)\<rparr>) t' = pg_view ?S1 t'" for f
    by (rule pg_view_update[OF _ assms(2)]) simp
  ultimately show ?thesis by simp
qed

lemma pg_persist_view:
  assumes "pg_persist S now r em mn allowed g ct source = Inr (pr, S')" "t' \<noteq> fst (result_key r)"
  shows "pg_view S' t' = pg_view S t'"
proof -
  have t': "t' \<noteq> chunk_tenant_id (hd (ir_chunks r))" using assms(2) by (simp add: result_key_def)
  have conf: "own_row (fst (result_key r)) (fst (fst x))" if "conflicts (fst (result_key r)) (source_of r source) sha x" for x sha
    using that by (simp add: conflicts_def same_source_def)
  show ?thesis using assms(1)
  proof (cases rule: pg_persist_cases)
    case (again x)
    then show ?thesis using pg_view_update[OF conf assms(2)] by simp
  next
    case (reinstate x)
    then show ?thesis using finish_persist_view[OF reinstate(3) t'] pg_view_update[OF conf assms(2)] by simp
  next
    case (fresh acl rows)
    obtain new where "rows = pg_chunks S @ new" "\<forall>r'\<in>set new. chunk_tenant_id (pc_chunk r') = fst (result_key r)"
      using insert_chunks_rows[OF fresh(3)] by blast
    then show ?thesis using finish_persist_view[OF fresh(4) t'] assms(2)
      by (simp add: pg_view_def filter_empty_conv)
  qed
qed

lemma pg_step_ok: "pg_ok S \<Longrightarrow> op_ok x \<Longrightarrow> pg_ok (pg_step S x)"
proof (cases x)
  case (OpPersist now r em allowed g ct source)
  assume "pg_ok S"
  with OpPersist pg_persist_ok show ?thesis by (auto simp: rolled_back_def split: sum.split)
next
  case (OpMarkChecked now t d)
  assume "pg_ok S"
  with OpMarkChecked show ?thesis by (auto simp: pg_mark_checked_def pg_ok_update split: sum.split)
next
  case (OpUpdate now t d g a n)
  assume "pg_ok S"
  with OpUpdate pg_update_document_ok show ?thesis by (auto simp: rolled_back_def split: sum.split)
next
  case (OpDelete t d g)
  assume "pg_ok S"
  with OpDelete pg_delete_document_ok show ?thesis by (auto simp: rolled_back_def split: sum.split)
qed

lemma pg_update_document_view:
  "pg_update_document S now t d g a n = Inr (res, S') \<Longrightarrow> t' \<noteq> t \<Longrightarrow> pg_view S' t' = pg_view S t'"
  by (auto simp: pg_update_document_def intro!: pg_view_update[where t = t] split: option.splits)

lemma pg_delete_document_view:
  assumes "pg_delete_document S t d g = Inr (b, S')" "strip t = t" "t' \<noteq> t"
  shows "pg_view S' t' = pg_view S t'"
proof -
  let ?doomed = "\<lambda>x. fst (fst x) = strip t \<and> dm_document_id (snd x) = strip d \<and> acl_filter (snd x) g"
  have S': "S' = \<lparr>pg_docs = filter (\<lambda>x. \<not> ?doomed x) (pg_docs S),
      pg_chunks = filter (\<lambda>r. (chunk_tenant_id (pc_chunk r), chunk_document_id (pc_chunk r)) \<notin> set (map fst (filter ?doomed (pg_docs S)))) (pg_chunks S)\<rparr>"
    using assms(1) by (auto simp: pg_delete_document_def split: if_splits)
  show ?thesis unfolding S' pg_view_def using assms(2,3) by (auto intro!: filter_cong)
qed

lemma pg_step_view: "op_ok x \<Longrightarrow> op_tenant x \<noteq> t \<Longrightarrow> pg_view (pg_step S x) t = pg_view S t"
proof (cases x)
  case (OpPersist now r em allowed g ct source)
  assume "op_tenant x \<noteq> t"
  with OpPersist pg_persist_view show ?thesis by (auto simp: rolled_back_def result_key_def split: sum.split)
next
  case (OpMarkChecked now u d)
  assume "op_tenant x \<noteq> t"
  with OpMarkChecked show ?thesis
    by (auto simp: pg_mark_checked_def intro!: pg_view_update[where t = u] split: sum.split)
next
  case (OpUpdate now u d g a n)
  assume "op_tenant x \<noteq> t"
  with OpUpdate pg_update_document_view show ?thesis by (auto simp: rolled_back_def split: sum.split)
next
  case (OpDelete u d g)
  assume "op_ok x" "op_tenant x \<noteq> t"
  with OpDelete pg_delete_document_view show ?thesis by (auto simp: rolled_back_def op_ok_def split: sum.split)
qed

lemma select_documents_view:
  assumes "pg_view S t = pg_view S' t"
  shows "select_documents S t g w = select_documents S' t g w"
proof -
  let ?Q = "\<lambda>x. own_row t (fst (fst x)) \<and> acl_filter (snd x) g \<and> w (snd x)"
  have own: "filter ?Q ds = filter ?Q (filter (\<lambda>x. fst (fst x) = t) ds)" for ds
    by (auto dest: own_rowD intro!: filter_cong)
  have "filter (\<lambda>x. fst (fst x) = t) (pg_docs S) = filter (\<lambda>x. fst (fst x) = t) (pg_docs S')"
    using assms by (simp add: pg_view_def)
  then have "filter ?Q (pg_docs S) = filter ?Q (pg_docs S')" using own[of "pg_docs S"] own[of "pg_docs S'"] by simp
  then show ?thesis by (simp add: select_documents_def)
qed

lemma select_documents_mem:
  assumes "select_documents S t g w = Inr ms" "m \<in> set ms"
  shows "\<exists>d. ((t, d), m) \<in> set (pg_docs S) \<and> acl_filter m g \<and> w m"
proof -
  obtain k where k: "(k, m) \<in> set (pg_docs S)" "own_row t (fst k)" "acl_filter m g" "w m"
    using assms by (auto simp: select_documents_def)
  then have "k = (t, snd k)" using own_rowD by (metis prod.collapse)
  with k show ?thesis by metis
qed

lemma map_of_own_pg: "map_of ds (t, d) = map_of (filter (\<lambda>x. fst (fst x) = t) ds) (t, d)"
  by (induction ds) auto

lemma readable_row_own: "readable_row S t g r = Some y \<Longrightarrow> chunk_tenant_id (pc_chunk r) = t"
  by (auto simp: readable_row_def dest: own_rowD split: if_splits)

lemma readable_rows_view:
  assumes "pg_view S t = pg_view S' t"
  shows "readable_rows S t g = readable_rows S' t g"
proof -
  have docs: "map_of (pg_docs S) (t, d) = map_of (pg_docs S') (t, d)" for d
    using assms map_of_own_pg[of "pg_docs S" t d] map_of_own_pg[of "pg_docs S'" t d] by (simp add: pg_view_def)
  have row: "readable_row S t g r = readable_row S' t g r" for r
    using docs by (auto simp: readable_row_def dest: own_rowD)
  have own: "List.map_filter (readable_row S' t g) rs =
      List.map_filter (readable_row S' t g) (filter (\<lambda>r. chunk_tenant_id (pc_chunk r) = t) rs)" for rs
    by (induction rs) (auto simp: List.map_filter_simps dest: readable_row_own split: option.split)
  have "filter (\<lambda>r. chunk_tenant_id (pc_chunk r) = t) (pg_chunks S) = filter (\<lambda>r. chunk_tenant_id (pc_chunk r) = t) (pg_chunks S')"
    using assms by (simp add: pg_view_def)
  then have "List.map_filter (readable_row S' t g) (pg_chunks S) = List.map_filter (readable_row S' t g) (pg_chunks S')"
    using own[of "pg_chunks S"] own[of "pg_chunks S'"] by simp
  moreover have "readable_row S t g = readable_row S' t g" using row by blast
  ultimately show ?thesis by (simp add: readable_rows_def)
qed

lemma readable_rows_mem:
  assumes "(r, m) \<in> set (readable_rows S t g)"
  shows "r \<in> set (pg_chunks S)" "chunk_tenant_id (pc_chunk r) = t"
    "map_of (pg_docs S) (t, chunk_document_id (pc_chunk r)) = Some m" "dm_status m = Ready" "acl_filter m g"
proof -
  obtain r' where r': "r' \<in> set (pg_chunks S)" "readable_row S t g r' = Some (r, m)"
    using assms by (auto simp: readable_rows_def List.map_filter_def)
  then have "r' = r \<and> chunk_tenant_id (pc_chunk r) = t
      \<and> map_of (pg_docs S) (chunk_tenant_id (pc_chunk r), chunk_document_id (pc_chunk r)) = Some m
      \<and> dm_status m = Ready \<and> acl_filter m g"
    by (auto simp: readable_row_def dest: own_rowD split: if_splits option.splits)
  with r' show "r \<in> set (pg_chunks S)" "chunk_tenant_id (pc_chunk r) = t"
    "map_of (pg_docs S) (t, chunk_document_id (pc_chunk r)) = Some m" "dm_status m = Ready" "acl_filter m g" by auto
qed

lemma pg_docs_lookup: "pg_ok S \<Longrightarrow> ((t, d), m) \<in> set (pg_docs S) \<Longrightarrow> map_of (pg_docs S) (t, d) = Some m \<and> dm_document_id m = d"
  by (auto simp: pg_ok_def list_all_iff)

lemma pg_readable_acl:
  assumes "pg_ok S" "c \<in> set (pg_readable S p)"
  shows "\<exists>m. map_of (pg_docs S) (p_tenant_id p, chunk_document_id c) = Some m \<and> dm_status m = Ready
    \<and> chunk_tenant_id c = p_tenant_id p \<and> acl_admits (set (dm_allowed_groups m)) (fset (p_groups p))"
proof -
  obtain r m where rm: "(r, m) \<in> set (readable_rows S (p_tenant_id p) (caller_groups p))"
    "c = (pc_chunk r)\<lparr>chunk_source := dm_source m\<rparr>"
    using assms(2) by (auto simp: pg_readable_def joined_def)
  from readable_rows_mem[OF rm(1)] rm(2) show ?thesis by (auto simp: acl)
qed

lemma select_documents_acl:
  assumes "pg_ok S" "m \<in> set (or_default [] (select_documents S t g w))"
  shows "map_of (pg_docs S) (t, dm_document_id m) = Some m \<and> acl_admits (set (dm_allowed_groups m)) (set g)"
proof -
  obtain ms where "select_documents S t g w = Inr ms" "m \<in> set ms"
    using assms(2) by (cases "select_documents S t g w") (auto simp: or_default_def)
  then obtain d where d: "((t, d), m) \<in> set (pg_docs S)" "acl_filter m g" using select_documents_mem by blast
  with pg_docs_lookup[OF assms(1) d(1)] show ?thesis by (simp add: acl)
qed

lemma pg_get_document_acl:
  assumes "pg_ok S" "or_default None (pg_get_document S t d g) = Some m"
  shows "map_of (pg_docs S) (t, d) = Some m \<and> acl_admits (set (dm_allowed_groups m)) (set g)"
proof -
  let ?w = "\<lambda>m. dm_document_id m = d"
  obtain ms where ms: "select_documents S t g ?w = Inr ms" "m \<in> set ms"
    using assms(2) by (cases "select_documents S t g ?w")
      (auto simp: or_default_def pg_get_document_def split: list.splits)
  then have "dm_document_id m = d" using select_documents_mem by blast
  with select_documents_acl[OF assms(1), of m t g ?w] ms show ?thesis by (simp add: or_default_def)
qed

interpretation pg: document_store pg_step
  "\<lambda>S t g b. or_default [] (pg_list_documents S t g b)"
  "\<lambda>S t d g. or_default None (pg_get_document S t d g)"
  pg_readable "\<lambda>S. map_of (pg_docs S)" pg_view pg_ok
proof
  fix S S' :: pg_store and x t g b d p m c
  show "pg_ok S \<Longrightarrow> op_ok x \<Longrightarrow> pg_ok (pg_step S x)" by (rule pg_step_ok)
  show "op_ok x \<Longrightarrow> op_tenant x \<noteq> t \<Longrightarrow> pg_view (pg_step S x) t = pg_view S t" by (rule pg_step_view)
  show "pg_view S t = pg_view S' t \<Longrightarrow> or_default [] (pg_list_documents S t g b) = or_default [] (pg_list_documents S' t g b)"
    by (simp only: pg_list_documents_def select_documents_view[of S t S'])
  show "pg_view S t = pg_view S' t \<Longrightarrow> or_default None (pg_get_document S t d g) = or_default None (pg_get_document S' t d g)"
    by (simp only: pg_get_document_def select_documents_view[of S t S'])
  show "pg_view S (p_tenant_id p) = pg_view S' (p_tenant_id p) \<Longrightarrow> pg_readable S p = pg_readable S' p"
    by (simp only: pg_readable_def readable_rows_view[of S "p_tenant_id p" S'])
  show "pg_ok S \<Longrightarrow> m \<in> set (or_default [] (pg_list_documents S t g b)) \<Longrightarrow>
      map_of (pg_docs S) (t, dm_document_id m) = Some m \<and> acl_admits (set (dm_allowed_groups m)) (set g)"
    unfolding pg_list_documents_def by (rule select_documents_acl)
  show "pg_ok S \<Longrightarrow> or_default None (pg_get_document S t d g) = Some m \<Longrightarrow>
      map_of (pg_docs S) (t, d) = Some m \<and> acl_admits (set (dm_allowed_groups m)) (set g)"
    by (rule pg_get_document_acl)
  show "pg_ok S \<Longrightarrow> c \<in> set (pg_readable S p) \<Longrightarrow>
      \<exists>m. map_of (pg_docs S) (p_tenant_id p, chunk_document_id c) = Some m \<and> dm_status m = Ready
        \<and> chunk_tenant_id c = p_tenant_id p \<and> acl_admits (set (dm_allowed_groups m)) (fset (p_groups p))"
    by (rule pg_readable_acl)
qed

section \<open>Properties of search\<close>

text \<open>What holds of every candidate the two searches build holds of every candidate of the fusion.\<close>

lemma update_all: "(\<forall>c\<in>snd ` set cs. P c) \<Longrightarrow> P c \<Longrightarrow> \<forall>c\<in>snd ` set (AList.update i c cs). P c"
  by (induction cs) auto

lemma add_semantic_all:
  assumes "\<forall>c\<in>snd ` set cs. P c" "\<forall>(n, d, x)\<in>set xs. P (mk_candidate x (1 - d) 0 (Some n) None)"
  shows "\<forall>c\<in>snd ` set (foldl add_semantic cs xs). P c"
  using assms
proof (induction xs arbitrary: cs)
  case (Cons y ys)
  obtain n d x where y: "y = (n, d, x)" by (metis surj_pair)
  have "P (mk_candidate x (1 - d) 0 (Some n) None)" using Cons.prems(2) y by auto
  then have "\<forall>c\<in>snd ` set (add_semantic cs y). P c"
    unfolding add_semantic_def y split by (rule update_all[OF Cons.prems(1)])
  with Cons show ?case by simp
qed simp

lemma add_keyword_all:
  assumes "\<forall>c\<in>snd ` set cs. P c" "\<forall>(n, k, x)\<in>set xs. P (mk_candidate x 0 0 None None)"
    and step: "\<And>n k x c. (n, k, x) \<in> set xs \<Longrightarrow> P c \<Longrightarrow> P (c\<lparr>cd_keyword_score := k, cd_keyword_rank := Some n\<rparr>)"
  shows "\<forall>c\<in>snd ` set (foldl add_keyword cs xs). P c"
  using assms
proof (induction xs arbitrary: cs)
  case (Cons y ys)
  obtain n k x where y: "y = (n, k, x)" by (metis surj_pair)
  let ?i = "chunk_id (pc_chunk (fst x))"
  have "P c" if "map_of cs ?i = Some c" for c
    using Cons.prems(1) map_of_SomeD[OF that] by force
  moreover have "P (mk_candidate x 0 0 None None)" using Cons.prems(2) y by auto
  ultimately have "P (case map_of cs ?i of Some c \<Rightarrow> c | None \<Rightarrow> mk_candidate x 0 0 None None)"
    by (auto split: option.split)
  then have "\<forall>c\<in>snd ` set (add_keyword cs y). P c"
    unfolding add_keyword_def Let_def y split
    by (intro update_all[OF Cons.prems(1)] Cons.prems(3)[of n k x]) (simp_all add: y)
  moreover have "P (c\<lparr>cd_keyword_score := k', cd_keyword_rank := Some n'\<rparr>)"
    if "(n', k', x') \<in> set ys" "P c" for n' k' x' c
    using Cons.prems(3)[OF list.set_intros(2)[OF that(1)] that(2)] .
  ultimately show ?case unfolding foldl.simps using Cons.prems(2) by (intro Cons.IH) auto
qed simp

lemma mk_candidate_sel:
  "sr_chunk (mk_candidate x a b s k) = sr_chunk (joined x 0)" "sr_groups (mk_candidate x a b s k) = dm_allowed_groups (snd x)"
  "cd_semantic_score (mk_candidate x a b s k) = a" "cd_keyword_score (mk_candidate x a b s k) = b"
  "cd_semantic_rank (mk_candidate x a b s k) = s" "cd_keyword_rank (mk_candidate x a b s k) = k"
  by (simp_all add: mk_candidate_def search_row.defs joined_def candidate.defs)

lemma in_enumerate: "(i, y) \<in> set (enumerate n xs) \<Longrightarrow> n \<le> i \<and> y \<in> set xs"
  by (auto simp: in_set_enumerate_eq dest: nth_mem)

lemma nearest_rows: "snd ` set (nearest vdist S t g mn v n) \<subseteq> set (readable_rows S t g)"
  by (auto simp: nearest_def embedded_rows_def dest!: in_set_takeD)

lemma keyword_rows_rows: "snd ` set (keyword_rows hits ts_rank S t g q n) \<subseteq> set (readable_rows S t g)"
  by (auto simp: keyword_rows_def dest!: in_set_takeD)

lemma fuse_all:
  assumes "\<forall>(n, d, x)\<in>set (enumerate 1 semantic). P (mk_candidate x (1 - d) 0 (Some n) None)"
    "\<forall>(n, k, x)\<in>set (enumerate 1 keyword). P (mk_candidate x 0 0 None None)"
    "\<And>n k x c. (n, k, x) \<in> set (enumerate 1 keyword) \<Longrightarrow> P c \<Longrightarrow> P (c\<lparr>cd_keyword_score := k, cd_keyword_rank := Some n\<rparr>)"
  shows "\<forall>c\<in>snd ` set (foldl add_keyword (foldl add_semantic [] (enumerate 1 semantic)) (enumerate 1 keyword)). P c"
  by (rule add_keyword_all[OF add_semantic_all[OF _ assms(1)] assms(2,3)]) auto

lemma search_hybrid_fused:
  "search_hybrid vdist hits ts_rank S t q v k n mn g = Inr cs \<Longrightarrow> c \<in> set cs \<Longrightarrow>
     c \<in> set (fuse (nat n) q (nearest vdist S t g mn v (nat n)) (keyword_rows hits ts_rank S t g q (nat n)))"
  by (auto simp: search_hybrid_def dest!: in_set_takeD split: if_splits)

definition of_row :: "(pg_chunk \<times> doc_meta) set \<Rightarrow> candidate \<Rightarrow> bool" where
  "of_row R c = (\<exists>x\<in>R. sr_chunk c = sr_chunk (joined x 0))"

lemma search_hybrid_rows:
  assumes "search_hybrid vdist hits ts_rank S t q v k n mn g = Inr cs" "c \<in> set cs"
  shows "of_row (set (readable_rows S t g)) c"
proof -
  let ?sem = "nearest vdist S t g mn v (nat n)" and ?key = "keyword_rows hits ts_rank S t g q (nat n)"
  let ?P = "of_row (set (readable_rows S t g))"
  have sem: "(d, x) \<in> set ?sem \<Longrightarrow> x \<in> set (readable_rows S t g)" for d x using nearest_rows by force
  have key: "(d, x) \<in> set ?key \<Longrightarrow> x \<in> set (readable_rows S t g)" for d x using keyword_rows_rows by force
  have all: "\<forall>c\<in>snd ` set (foldl add_keyword (foldl add_semantic [] (enumerate 1 ?sem)) (enumerate 1 ?key)). ?P c"
  proof (rule fuse_all)
    show "\<forall>(i, d, x)\<in>set (enumerate 1 ?sem). ?P (mk_candidate x (1 - d) 0 (Some i) None)"
      by (auto simp: of_row_def mk_candidate_sel simp del: enumerate_eq_zip dest!: in_enumerate sem)
    show "\<forall>(i, d, x)\<in>set (enumerate 1 ?key). ?P (mk_candidate x 0 0 None None)"
      by (auto simp: of_row_def mk_candidate_sel simp del: enumerate_eq_zip dest!: in_enumerate key)
  qed (simp add: of_row_def)
  obtain y s where "y \<in> snd ` set (foldl add_keyword (foldl add_semantic [] (enumerate 1 ?sem)) (enumerate 1 ?key))"
    "c = y\<lparr>sr_score := s\<rparr>"
    using search_hybrid_fused[OF assms] unfolding fuse_def Let_def by force
  with all have "?P y" by blast
  with \<open>c = _\<close> show ?thesis by (simp add: of_row_def)
qed

abbreviation pg_run :: "store_op list \<Rightarrow> pg_store" where
  "pg_run xs \<equiv> foldl pg_step empty_pg xs"

text \<open>C8. Hybrid search never crosses a tenant or an ACL: whatever operations filled the database, every
  row a caller's search returns belongs to the caller's tenant and to the current version of a document
  whose groups admit the caller.\<close>

theorem hybrid_search_respects_acl:
  assumes "list_all op_ok xs"
    and "search_hybrid vdist hits ts_rank (pg_run xs) (p_tenant_id p) q v k n mn (caller_groups p) = Inr cs" "c \<in> set cs"
  shows "\<exists>m. map_of (pg_docs (pg_run xs)) (p_tenant_id p, chunk_document_id (sr_chunk c)) = Some m \<and> dm_status m = Ready
    \<and> chunk_tenant_id (sr_chunk c) = p_tenant_id p \<and> acl_admits (set (dm_allowed_groups m)) (fset (p_groups p))"
proof -
  obtain x where "x \<in> set (readable_rows (pg_run xs) (p_tenant_id p) (caller_groups p))" "sr_chunk c = sr_chunk (joined x 0)"
    using search_hybrid_rows[OF assms(2,3)] by (auto simp: of_row_def)
  then have "sr_chunk c \<in> set (pg_readable (pg_run xs) p)" by (auto simp: pg_readable_def)
  with pg.reads_respect_acl(3)[OF pg_ok_empty assms(1)] show ?thesis by blast
qed

text \<open>Tenants are isolated in the database: whatever other tenants do, a tenant lists, reads and
  searches the same.\<close>

theorem postgres_tenant_isolation:
  assumes "list_all op_ok before" "list_all op_ok xs" "list_all (\<lambda>x. op_tenant x \<noteq> t) xs"
  shows "or_default [] (pg_list_documents (pg_run (before @ xs)) t g b) = or_default [] (pg_list_documents (pg_run before) t g b)
    \<and> readable_rows (pg_run (before @ xs)) t g = readable_rows (pg_run before) t g"
  using pg.tenant_isolation[OF pg.inv_run[OF pg_ok_empty assms(1)] assms(2,3)]
    readable_rows_view[OF pg.view_run[OF pg.inv_run[OF pg_ok_empty assms(1)] assms(2,3)]] by simp

lemma overlap_bounds: "0 \<le> overlap_of q t \<and> overlap_of q t \<le> 1"
proof -
  have "card (term_set q \<inter> term_set t) \<le> max (card (term_set q)) 1"
    by (intro max.coboundedI1 card_mono) (auto simp: term_set_def)
  then show ?thesis by (simp add: overlap_of_def divide_le_eq_1 del: max.bounded_iff)
qed

lemma rank_part:
  fixes w :: real
  assumes "0 \<le> w" "1 \<le> r"
  shows "0 \<le> 61 * (w / (60 + real r))" "61 * (w / (60 + real r)) \<le> w"
proof -
  have "w * 61 \<le> w * (60 + real r)" using assms by (intro mult_left_mono) auto
  with assms show "0 \<le> 61 * (w / (60 + real r))" "61 * (w / (60 + real r)) \<le> w" by (auto simp: field_simps)
qed

definition sound_candidate :: "candidate \<Rightarrow> bool" where
  "sound_candidate c = (- 1 \<le> cd_semantic_score c \<and> cd_semantic_score c \<le> 1 \<and> 0 \<le> cd_keyword_score c
     \<and> cd_semantic_rank c \<noteq> Some 0 \<and> cd_keyword_rank c \<noteq> Some 0)"

lemma fused_score_bounds:
  assumes "sound_candidate c" "cd_keyword_score c \<le> mk"
  shows "- (60/100) \<le> fused_score n q mk c \<and> fused_score n q mk c \<le> 995/1000"
proof -
  let ?o = "overlap_of q (chunk_text (sr_chunk c))" and ?k = "if mk \<noteq> 0 then cd_keyword_score c / mk else 0"
  define s where "s = (case cd_semantic_rank c of Some r \<Rightarrow> r | None \<Rightarrow> n + 1)"
  define r where "r = (case cd_keyword_rank c of Some r \<Rightarrow> r | None \<Rightarrow> n + 1)"
  have "1 \<le> s" "1 \<le> r" using assms(1) by (auto simp: sound_candidate_def s_def r_def split: option.split intro: Suc_leI)
  from rank_part[OF _ this(1), of "65/100"] rank_part[OF _ this(2), of "25/100"]
  have rank: "0 \<le> 61 * (65/100 / (60 + real s) + 25/100 / (60 + real r))"
    "61 * (65/100 / (60 + real s) + 25/100 / (60 + real r)) \<le> 90/100" unfolding distrib_left by linarith+
  have "0 \<le> ?k" "?k \<le> 1" using assms by (auto simp: sound_candidate_def divide_le_eq_1)
  moreover have "fused_score n q mk c = 60/100 * cd_semantic_score c + 25/100 * ?k + 10/100 * ?o
      + 5/100 * (61 * (65/100 / (60 + real s) + 25/100 / (60 + real r)))"
    by (simp add: fused_score_def Let_def s_def r_def)
  ultimately show ?thesis using rank overlap_bounds[of q "chunk_text (sr_chunk c)"] assms(1)
    unfolding sound_candidate_def by linarith
qed

lemma max_default_ge: "x \<in> set xs \<Longrightarrow> x \<le> (case xs of [] \<Rightarrow> 0 | k # ks \<Rightarrow> foldl max (k :: real) ks)"
  using foldl_max_ge by (cases xs) auto

lemma fuse_bounds:
  assumes "\<forall>c\<in>snd ` set (foldl add_keyword (foldl add_semantic [] (enumerate 1 sem)) (enumerate 1 key)). sound_candidate c"
    and "c \<in> set (fuse n q sem key)"
  shows "- (60/100) \<le> sr_score c \<and> sr_score c \<le> 995/1000"
proof -
  let ?cs = "foldl add_keyword (foldl add_semantic [] (enumerate 1 sem)) (enumerate 1 key)"
  let ?mk = "case map (cd_keyword_score \<circ> snd) ?cs of [] \<Rightarrow> 0 | k # ks \<Rightarrow> foldl max k ks"
  obtain y where y: "y \<in> set ?cs" "sr_score c = fused_score n q ?mk (snd y)"
    using assms(2) by (auto simp: fuse_def Let_def)
  then have "cd_keyword_score (snd y) \<in> set (map (cd_keyword_score \<circ> snd) ?cs)" by force
  then have "cd_keyword_score (snd y) \<le> ?mk" by (rule max_default_ge)
  with assms(1) y fused_score_bounds show ?thesis by simp
qed

lemma search_hybrid_sorted:
  "search_hybrid vdist hits ts_rank S t q v k n mn g = Inr cs \<Longrightarrow>
     sorted (map hybrid_order cs) \<and> length cs \<le> nat k"
  by (auto simp: search_hybrid_def sorted_wrt_take take_map[symmetric] split: if_splits)

text \<open>Hybrid search ranks in the range the evidence gate expects: if the distance operator is a cosine
  distance and the text rank is not negative, the rows come back by falling score, at most \<open>limit\<close> of them,
  and every score lies between -0.6 and 0.995.\<close>

theorem hybrid_scores_bounded:
  assumes "search_hybrid vdist hits ts_rank S t q v k n mn g = Inr cs"
    and "\<forall>a b. 0 \<le> vdist a b \<and> vdist a b \<le> 2" "\<forall>a b. 0 \<le> ts_rank a b"
  shows "length cs \<le> nat k \<and> sorted (map (\<lambda>c. - sr_score c) cs)
    \<and> (\<forall>c\<in>set cs. - (60/100) \<le> sr_score c \<and> sr_score c \<le> 995/1000)"
proof -
  let ?sem = "nearest vdist S t g mn v (nat n)" and ?key = "keyword_rows hits ts_rank S t g q (nat n)"
  have "\<forall>c\<in>snd ` set (foldl add_keyword (foldl add_semantic [] (enumerate 1 ?sem)) (enumerate 1 ?key)). sound_candidate c"
  proof (rule fuse_all)
    have "\<forall>(d, x)\<in>set ?sem. 0 \<le> d \<and> d \<le> 2"
      using assms(2) by (auto simp: nearest_def embedded_rows_def dest!: in_set_takeD)
    then show "\<forall>(i, d, x)\<in>set (enumerate 1 ?sem). sound_candidate (mk_candidate x (1 - d) 0 (Some i) None)"
      by (auto simp: sound_candidate_def mk_candidate_sel simp del: enumerate_eq_zip dest!: in_enumerate bspec)
    show "\<forall>(i, d, x)\<in>set (enumerate 1 ?key). sound_candidate (mk_candidate x 0 0 None None)"
      by (auto simp: sound_candidate_def mk_candidate_sel)
    have key: "\<forall>(d, x)\<in>set ?key. 0 \<le> d"
      using assms(3) by (auto simp: keyword_rows_def dest!: in_set_takeD)
    show "sound_candidate (c\<lparr>cd_keyword_score := d, cd_keyword_rank := Some i\<rparr>)"
      if "(i, d, x) \<in> set (enumerate 1 ?key)" "sound_candidate c" for i d x c
      using that(2) key in_enumerate[OF that(1)] by (auto simp: sound_candidate_def)
  qed
  then have "\<forall>c\<in>set cs. - (60/100) \<le> sr_score c \<and> sr_score c \<le> 995/1000"
    using fuse_bounds search_hybrid_fused[OF assms(1)] by blast
  moreover have "sorted (map (\<lambda>c. - sr_score c) cs)"
    using search_hybrid_sorted[OF assms(1)] by (auto simp: sorted_map hybrid_order_def less_eq_prod_def elim!: sorted_wrt_mono_rel[rotated])
  ultimately show ?thesis using search_hybrid_sorted[OF assms(1)] by simp
qed


text \<open>One document of tenant \<open>a\<close>, uploaded for the group \<open>staff\<close>, and the search that finds it.\<close>

definition pg_upload :: "string \<Rightarrow> string \<Rightarrow> string list option \<Rightarrow> store_op" where
  "pg_upload t d allowed = OpPersist 1 (sample_result t d) [replicate DIMENSIONS 0] allowed [''staff''] ''text/plain'' None"

definition sample_meta :: doc_meta where
  "sample_meta = new_document 1 (sample_result ''a'' ''d1'') [''staff''] ''text/plain'' (source_of (sample_result ''a'' ''d1'') None)"

lemma sample_database:
  "pg_run [pg_upload ''a'' ''d1'' (Some [''staff''])] =
     \<lparr>pg_docs = [((''a'', ''d1''), sample_meta)],
      pg_chunks = [\<lparr>pc_chunk = upload_chunk ''a'' ''d1'', pc_embedding = Some (replicate DIMENSIONS 0), pc_model = Some MODEL_NAME\<rparr>]\<rparr>"
  by (simp add: pg_upload_def sample_result_def upload_chunk_def pg_persist_def check_embeddings_def empty_pg_def
      set_tenant_def py_str is_space_def insert_chunk_def finish_persist_def update_where_def pg_sibling_def
      new_document_def rolled_back_def same_source_def own_row_def next_version_def sample_meta_def bind_res_def)

definition sample_hit :: candidate where
  "sample_hit = (let x = (\<lparr>pc_chunk = upload_chunk ''a'' ''d1'', pc_embedding = Some (replicate DIMENSIONS 0),
       pc_model = Some MODEL_NAME\<rparr>, sample_meta); c = mk_candidate x 0 1 (Some 1) (Some 1) in
     c\<lparr>sr_score := fused_score 1 ''q'' 1 c\<rparr>)"

lemma sample_search:
  "search_hybrid (\<lambda>_ _. 1) (\<lambda>_ _. True) (\<lambda>_ _. 1) (pg_run [pg_upload ''a'' ''d1'' (Some [''staff''])]) ''a'' ''q''
     (replicate DIMENSIONS 0) 1 1 MODEL_NAME [''staff''] = Inr [sample_hit]"
  unfolding sample_database
  by (simp add: sample_hit_def search_hybrid_def py_str is_space_def nearest_def embedded_rows_def keyword_rows_def readable_rows_def
      readable_row_def own_row_def upload_chunk_def sample_meta_def new_document_def sample_result_def acl_filter_def
      List.map_filter_simps fuse_def add_semantic_def add_keyword_def mk_candidate_def search_row.defs candidate.defs joined_def)

lemma pg_upload_ok: "list_all op_ok [pg_upload ''a'' ''d1'' (Some [''staff''])]"
  by (simp add: pg_upload_def sample_result_def upload_chunk_def result_ok_def op_ok_def py_str is_space_def)

theorem hybrid_search_respects_acl_witness:
  "\<exists>m. map_of (pg_docs (pg_run [pg_upload ''a'' ''d1'' (Some [''staff''])])) (''a'', ''d1'') = Some m
     \<and> acl_admits (set (dm_allowed_groups m)) {''staff''}"
proof -
  let ?p = "\<lparr>p_tenant_id = ''a'', p_user_id = ''u'', p_groups = {|''staff''|}\<rparr>"
  have groups: "caller_groups ?p = [''staff'']" by (simp add: caller_groups_def sorted_list_of_fset.rep_eq)
  have "search_hybrid (\<lambda>_ _. 1) (\<lambda>_ _. True) (\<lambda>_ _. 1) (pg_run [pg_upload ''a'' ''d1'' (Some [''staff''])]) (p_tenant_id ?p) ''q''
     (replicate DIMENSIONS 0) 1 1 MODEL_NAME (caller_groups ?p) = Inr [sample_hit]"
    unfolding groups principal.simps by (rule sample_search)
  from hybrid_search_respects_acl[OF pg_upload_ok this, of sample_hit] show ?thesis
    by (auto simp: sample_hit_def mk_candidate_sel joined_def upload_chunk_def)
qed

theorem postgres_tenant_isolation_witness:
  "readable_rows (pg_run ([pg_upload ''a'' ''d1'' (Some [''staff''])] @ [pg_upload ''b'' ''d2'' None])) ''a'' [''staff'']
   = readable_rows (pg_run [pg_upload ''a'' ''d1'' (Some [''staff''])]) ''a'' [''staff'']"
  using postgres_tenant_isolation[OF pg_upload_ok, of "[pg_upload ''b'' ''d2'' None]" "''a''"]
  by (simp add: pg_upload_def sample_result_def upload_chunk_def result_ok_def op_ok_def py_str is_space_def)

theorem hybrid_scores_bounded_witness:
  "\<exists>c. search_hybrid (\<lambda>_ _. 1) (\<lambda>_ _. True) (\<lambda>_ _. 1) (pg_run [pg_upload ''a'' ''d1'' (Some [''staff''])]) ''a'' ''q''
     (replicate DIMENSIONS 0) 1 1 MODEL_NAME [''staff''] = Inr [c] \<and> sr_score c \<le> 995/1000"
  using hybrid_scores_bounded[OF sample_search] sample_search by simp

end
