(* ===== verification/Store_Agreement.thy ===== *)
theory Store_Agreement
  imports Memory_Store Postgres_Store
begin

text \<open>
  The in-memory store and the PostgreSQL store beside each other. The API uses either behind one interface; here
  a simulation relates their states, and every operation gives the same reply on both, within the
  conditions under which the code makes them interchangeable. Where it does not, a concrete run shows it.
\<close>

section \<open>What a caller can tell apart\<close>

text \<open>The two stores note the time and the source's version marker of a repeated upload differently.\<close>

definition core :: "doc_meta \<Rightarrow> doc_meta" where
  "core m = m\<lparr>dm_updated_at := 0, dm_source_version := None\<rparr>"

datatype store_reply =
    Refused exn
  | Stored persist_result
  | Checked
  | Updated bool "doc_meta option"
  | Deleted bool

fun plain :: "store_reply \<Rightarrow> store_reply" where
  "plain (Updated b m) = Updated b (map_option core m)"
| "plain r = r"

text \<open>The value each operation returns or the exception it raises.\<close>

definition reply_of :: "('a \<Rightarrow> store_reply) \<Rightarrow> 'a res \<Rightarrow> store_reply" where
  "reply_of f r = (case r of Inl e \<Rightarrow> Refused e | Inr x \<Rightarrow> f x)"

fun mem_reply :: "memory_store \<Rightarrow> store_op \<Rightarrow> store_reply" where
  "mem_reply S (OpPersist now r _ allowed groups ct source) =
     reply_of (Stored \<circ> fst) (persist S now r allowed groups ct source)"
| "mem_reply S (OpMarkChecked now t d) = Checked"
| "mem_reply S (OpUpdate now t d groups allowed display) =
     (\<lambda>(b, m). Updated b m) (fst (update_document S now t d groups allowed display))"
| "mem_reply S (OpDelete t d groups) = Deleted (fst (delete_document S t d groups))"

fun pg_reply :: "pg_store \<Rightarrow> store_op \<Rightarrow> store_reply" where
  "pg_reply S (OpPersist now r em allowed groups ct source) =
     reply_of (Stored \<circ> fst) (pg_persist S now r em MODEL_NAME allowed groups ct source)"
| "pg_reply S (OpMarkChecked now t d) = reply_of (\<lambda>_. Checked) (pg_mark_checked S now t d)"
| "pg_reply S (OpUpdate now t d groups allowed display) =
     reply_of ((\<lambda>(b, m). Updated b m) \<circ> fst) (pg_update_document S now t d groups allowed display)"
| "pg_reply S (OpDelete t d groups) = reply_of (Deleted \<circ> fst) (pg_delete_document S t d groups)"

fun replies :: "('s \<Rightarrow> store_op \<Rightarrow> store_reply) \<Rightarrow> ('s \<Rightarrow> store_op \<Rightarrow> 's) \<Rightarrow> 's \<Rightarrow> store_op list \<Rightarrow> store_reply list" where
  "replies reply step s [] = []"
| "replies reply step s (x # xs) = reply s x # replies reply step (step s x) xs"

section \<open>The conditions\<close>

text \<open>What an upload identifies: the logical document and the content.\<close>

definition ident :: "ingest_result \<Rightarrow> source_ref option \<Rightarrow> string \<times> string \<times> string" where
  "ident r source = (src_system (source_of r source), src_id (source_of r source), ir_content_sha256 r)"

fun idents :: "store_op list \<Rightarrow> (string \<times> string \<times> string) set" where
  "idents [] = {}"
| "idents (OpPersist _ r _ _ _ _ source # xs) = insert (ident r source) (idents xs)"
| "idents (_ # xs) = idents xs"

text \<open>
  Operations as the API builds them: trimmed names, chunks numbered apart, and a document id computed from
  what the upload identifies (\<open>idf\<close>, which \<open>rag.py\<close> takes from SHA-256).
\<close>

definition api_op :: "(string \<times> string \<times> string \<Rightarrow> string) \<Rightarrow> store_op \<Rightarrow> bool" where
  "api_op idf x = (op_ok x \<and> (case x of
      OpPersist _ r _ _ _ _ source \<Rightarrow> ir_document_id r = idf (ident r source) \<and> distinct (map chunk_index (ir_chunks r))
    | OpDelete _ d _ \<Rightarrow> strip d = d
    | _ \<Rightarrow> True))"

text \<open>
  An upload that inherits its ACL finds one ACL to inherit: its visible current versions, if there are several,
  agree. (The memory store takes the oldest of them, PostgreSQL the one with the highest number.)
\<close>

fun one_acl :: "memory_store \<Rightarrow> store_op \<Rightarrow> bool" where
  "one_acl S (OpPersist _ r _ None groups _ source) =
     (case filter (\<lambda>m. dm_status m = Ready) (versions S (fst (result_key r)) (src_system (source_of r source))
        (src_id (source_of r source)) groups) of
      [] \<Rightarrow> True | m # ms \<Rightarrow> list_all (\<lambda>n. dm_allowed_groups n = dm_allowed_groups m) ms)"
| "one_acl S _ = True"

fun acls_clear :: "memory_store \<Rightarrow> store_op list \<Rightarrow> bool" where
  "acls_clear S [] = True"
| "acls_clear S (x # xs) = (one_acl S x \<and> acls_clear (mem_step S x) xs)"

section \<open>The simulation\<close>

definition same_doc :: "doc_key \<times> doc_meta \<Rightarrow> doc_key \<times> doc_meta \<Rightarrow> bool" where
  "same_doc x y = (fst x = fst y \<and> core (snd x) = core (snd y))"

definition agree :: "(doc_key \<times> doc_meta) list \<Rightarrow> (doc_key \<times> doc_meta) list \<Rightarrow> bool" where
  "agree ds es = list_all2 same_doc ds es"

definition chunk_key :: "chunk \<Rightarrow> doc_key" where
  "chunk_key c = (chunk_tenant_id c, chunk_document_id c)"

definition rows_of :: "pg_chunk list \<Rightarrow> doc_key \<Rightarrow> chunk list" where
  "rows_of rows k = filter (\<lambda>c. chunk_key c = k) (map pc_chunk rows)"

definition stored_chunks :: "(doc_key \<times> chunk list) list \<Rightarrow> doc_key \<Rightarrow> chunk list" where
  "stored_chunks cs k = (case map_of cs k of None \<Rightarrow> [] | Some xs \<Rightarrow> xs)"

definition meta_ident :: "doc_meta \<Rightarrow> string \<times> string \<times> string" where
  "meta_ident m = (dm_source_system m, dm_source_id m, dm_content_sha256 m)"

text \<open>The document id of every row is the one of what it identifies.\<close>

definition identified :: "(string \<times> string \<times> string \<Rightarrow> string) \<Rightarrow> (string \<times> string \<times> string) set \<Rightarrow>
    (doc_key \<times> doc_meta) list \<Rightarrow> bool" where
  "identified idf U ds = list_all (\<lambda>(k, m). snd k = idf (meta_ident m)
     \<and> meta_ident m \<in> U) ds"

definition simulates :: "(string \<times> string \<times> string \<Rightarrow> string) \<Rightarrow> (string \<times> string \<times> string) set \<Rightarrow>
    memory_store \<Rightarrow> pg_store \<Rightarrow> bool" where
  "simulates idf U M P = (store_ok M \<and> pg_ok P \<and> agree (ms_documents M) (pg_docs P) \<and> identified idf U (ms_documents M)
     \<and> (\<forall>k. rows_of (pg_chunks P) k = stored_chunks (ms_chunks M) k))"

lemma core_eqD:
  assumes "core m = core n"
  shows "dm_document_id m = dm_document_id n" "dm_source m = dm_source n" "dm_source_system m = dm_source_system n"
    "dm_source_id m = dm_source_id n" "dm_version m = dm_version n" "dm_status m = dm_status n"
    "dm_content_sha256 m = dm_content_sha256 n" "dm_allowed_groups m = dm_allowed_groups n"
    "dm_created_at m = dm_created_at n"
  using assms by (cases m; cases n; simp add: core_def)+

lemma meta_ident_core: "core m = core n \<Longrightarrow> meta_ident m = meta_ident n"
  using core_eqD(3,4,7)[of m n] by (simp add: meta_ident_def)

lemma core_sel [simp]:
  "dm_document_id (core m) = dm_document_id m" "dm_status (core m) = dm_status m" "dm_created_at (core m) = dm_created_at m"
  by (simp_all add: core_def)

lemma core_updates:
  assumes "core m = core n"
  shows "core (m\<lparr>dm_last_checked_at := c\<rparr>) = core (n\<lparr>dm_last_checked_at := c\<rparr>)"
    "core (m\<lparr>dm_status := s, dm_updated_at := u\<rparr>) = core (n\<lparr>dm_status := s, dm_updated_at := u\<rparr>)"
  using assms by (cases m; cases n; simp add: core_def)+

lemma core_changes: "core m = core n \<Longrightarrow> core (apply_changes u a d m) = core (pg_apply_changes u a d n)"
  by (cases m; cases n; cases a; cases d; simp add: core_def apply_changes_def pg_apply_changes_def Let_def)

lemma own_row_clean: "strip t = t \<Longrightarrow> own_row t u \<longleftrightarrow> u = t"
  by (auto simp: own_row_def)

lemma visible_core: "core m = core n \<Longrightarrow> visible m g = acl_filter n g"
  using core_eqD(8)[of m n] by (simp add: visible_iff acl_filter_iff)

lemma same_docD:
  assumes "same_doc x y"
  shows "fst x = fst y" "core (snd x) = core (snd y)"
  using assms by (simp_all add: same_doc_def)

lemma agree_update:
  assumes "agree ds es"
    "\<And>x y. x \<in> set ds \<Longrightarrow> y \<in> set es \<Longrightarrow> same_doc x y \<Longrightarrow> P x = Q y"
    "\<And>x y. same_doc x y \<Longrightarrow> core (f (snd x)) = core (g (snd y))"
  shows "agree (update_where P f ds) (update_where Q g es)"
  using assms(1,2) unfolding agree_def
proof (induction rule: list_all2_induct)
  case (Cons x xs y ys)
  from Cons.prems[of x y] Cons.hyps(1) have "P x = Q y" by simp
  moreover have "list_all2 same_doc (update_where P f xs) (update_where Q g ys)" using Cons.IH Cons.prems by simp
  ultimately show ?case using Cons.hyps(1) assms(3)[OF Cons.hyps(1)]
    by (simp add: update_where_def same_doc_def[of x y] same_doc_def[of "(_, _)"])
qed (simp add: update_where_def)

lemma agree_filter:
  assumes "agree ds es" "\<And>x y. x \<in> set ds \<Longrightarrow> y \<in> set es \<Longrightarrow> same_doc x y \<Longrightarrow> P x = Q y"
  shows "agree (filter P ds) (filter Q es)"
  using assms unfolding agree_def
proof (induction rule: list_all2_induct)
  case (Cons x xs y ys)
  from Cons.prems[of x y] Cons.hyps(1) have "P x = Q y" by simp
  moreover have "list_all2 same_doc (filter P xs) (filter Q ys)" using Cons.IH Cons.prems by simp
  ultimately show ?case using Cons.hyps(1) by simp
qed simp

lemma agree_map:
  assumes "agree ds es" "\<And>x y. same_doc x y \<Longrightarrow> f x = g y"
  shows "map f ds = map g es"
  using assms unfolding agree_def by (induction rule: list_all2_induct) auto

lemma agree_keys: "agree ds es \<Longrightarrow> map fst ds = map fst es"
  by (rule agree_map) (auto simp: same_doc_def)

lemma agree_map_of:
  "agree ds es \<Longrightarrow> rel_option (\<lambda>m n. core m = core n) (map_of ds k) (map_of es k)"
  unfolding agree_def by (induction rule: list_all2_induct) (auto simp: same_doc_def)

lemma agree_lookup:
  assumes "agree ds es"
  obtains (none) "map_of ds k = None" "map_of es k = None"
  | (both) m n where "map_of ds k = Some m" "map_of es k = Some n" "core m = core n"
  using agree_map_of[OF assms, of k] by (cases "map_of ds k"; cases "map_of es k") auto


lemma agree_mem2:
  assumes "agree ds es" "y \<in> set es"
  obtains x where "x \<in> set ds" "same_doc x y"
  using assms unfolding agree_def by (metis list_all2_conv_all_nth in_set_conv_nth)

lemma agree_snoc: "agree ds es \<Longrightarrow> same_doc x y \<Longrightarrow> agree (ds @ [x]) (es @ [y])"
  unfolding agree_def by (simp add: list_all2_appendI)

lemma identifiedD:
  "identified idf U ds \<Longrightarrow> (k, m) \<in> set ds \<Longrightarrow>
   snd k = idf (meta_ident m)
     \<and> meta_ident m \<in> U"
  unfolding identified_def list_all_iff by fastforce

lemma identified_agree:
  assumes "agree ds es" "identified idf U ds"
  shows "identified idf U es"
  using assms unfolding agree_def
proof (induction rule: list_all2_induct)
  case (Cons x xs y ys)
  then have "identified idf U ys" "identified idf U [x]" by (simp_all add: identified_def)
  moreover have "identified idf U [y]"
    using \<open>identified idf U [x]\<close> meta_ident_core[OF same_docD(2)[OF Cons.hyps(1)]] same_docD(1)[OF Cons.hyps(1)]
    by (cases x; cases y) (simp add: identified_def)
  ultimately show ?case by (simp add: identified_def)
qed (simp add: identified_def)

lemma identified_update:
  assumes "identified idf U ds"
    "\<And>m. meta_ident (f m) = meta_ident m"
  shows "identified idf U (update_where P f ds)"
  unfolding identified_def list_all_iff
proof
  fix x assume "x \<in> set (update_where P f ds)"
  then obtain k m where km: "(k, m) \<in> set ds" "x = (k, if P (k, m) then f m else m)" by (rule update_where_memE)
  show "case x of (k, m) \<Rightarrow> snd k = idf (meta_ident m)
     \<and> meta_ident m \<in> U"
    using identifiedD[OF assms(1) km(1)] assms(2)[of m] by (simp add: km(2))
qed

text \<open>The row an upload collides with is the row of its key.\<close>

lemma conflicts_key:
  assumes "identified idf U es" "inj_on idf U" "(src_system src, src_id src, sha) \<in> U" "strip t = t" "y \<in> set es"
  shows "conflicts t src sha y \<longleftrightarrow> fst y = (t, idf (src_system src, src_id src, sha))"
proof -
  obtain k m where y: "y = (k, m)" by (cases y)
  have i: "snd k = idf (meta_ident m)" "meta_ident m \<in> U" using identifiedD[OF assms(1)] assms(5) y by blast+
  have "idf (meta_ident m) = idf (src_system src, src_id src, sha) \<longleftrightarrow> meta_ident m = (src_system src, src_id src, sha)"
    using inj_on_eq_iff[OF assms(2) i(2) assms(3)] .
  then show ?thesis
    using i(1) by (cases k) (auto simp: meta_ident_def conflicts_def same_source_def own_row_clean[OF assms(4)] y)
qed

lemma find_key: "List.find (\<lambda>y. fst y = k) es = map_option (Pair k) (map_of es k)"
  by (induction es) auto

lemma sibling_same:
  assumes "strip t = t" "same_doc x y"
  shows "is_sibling t src g d x = pg_sibling t src g d y"
proof -
  note [simp] = own_row_clean[OF assms(1)]
  obtain k m n where "x = (k, m)" "y = (k, n)" "core m = core n" using assms(2) by (cases x; cases y) (auto simp: same_doc_def)
  then show ?thesis
    using core_eqD(1,3,4)[of m n] visible_core[of m n g]
    by (cases k) (auto simp: is_sibling_def is_version_def pg_sibling_def same_source_def)
qed

lemma superseded_agree:
  assumes "agree ds es" "strip t = t"
  shows "agree (supersede now t src g d ds) (update_where (\<lambda>x. pg_sibling t src g d x \<and> dm_status (snd x) = Ready)
     (\<lambda>m. m\<lparr>dm_status := Superseded, dm_updated_at := now\<rparr>) es)"
  unfolding supersede_def
proof (rule agree_update[OF assms(1)])
  fix x y assume s: "same_doc x y"
  show "(is_sibling t src g d x \<and> dm_status (snd x) = Ready) = (pg_sibling t src g d y \<and> dm_status (snd y) = Ready)"
    using sibling_same[OF assms(2) s] core_eqD(6)[OF same_docD(2)[OF s]] by simp
  show "core (snd x\<lparr>dm_status := Superseded, dm_updated_at := now\<rparr>) = core (snd y\<lparr>dm_status := Superseded, dm_updated_at := now\<rparr>)"
    by (rule core_updates(2)[OF same_docD(2)[OF s]])
qed

lemma sibling_versions:
  "map dm_version (map snd (filter (pg_sibling t src g d) (update_where Q (\<lambda>m. m\<lparr>dm_status := s, dm_updated_at := now\<rparr>) es)))
   = map dm_version (map snd (filter (pg_sibling t src g d) es))"
  by (induction es) (auto simp: update_where_def pg_sibling_def same_source_def acl_filter_def)

lemma agree_siblings:
  assumes "agree ds es" "strip t = t"
  shows "agree (filter (is_sibling t src g d) ds) (filter (pg_sibling t src g d) es)"
  by (rule agree_filter[OF assms(1)]) (simp add: sibling_same[OF assms(2)])

lemma sibling_facts:
  assumes "agree ds es" "strip t = t"
  shows "next_version (map snd (filter (is_sibling t src g d) ds)) = next_version (map snd (filter (pg_sibling t src g d) es))"
    "map dm_document_id (filter (\<lambda>m. dm_status m = Ready) (map snd (filter (is_sibling t src g d) ds))) =
     map (dm_document_id \<circ> snd) (filter (\<lambda>x. pg_sibling t src g d x \<and> dm_status (snd x) = Ready) es)"
proof -
  note a = agree_siblings[OF assms]
  have "map (dm_version \<circ> snd) (filter (is_sibling t src g d) ds) = map (dm_version \<circ> snd) (filter (pg_sibling t src g d) es)"
    by (rule agree_map[OF a]) (auto simp: same_doc_def dest: core_eqD(5))
  then show "next_version (map snd (filter (is_sibling t src g d) ds)) = next_version (map snd (filter (pg_sibling t src g d) es))"
    by (simp add: next_version_def)
  have "agree (filter (\<lambda>x. dm_status (snd x) = Ready) (filter (is_sibling t src g d) ds))
      (filter (\<lambda>x. dm_status (snd x) = Ready) (filter (pg_sibling t src g d) es))"
    by (rule agree_filter[OF a]) (auto simp: same_doc_def dest: core_eqD(6))
  then have "map (dm_document_id \<circ> snd) (filter (\<lambda>x. dm_status (snd x) = Ready) (filter (is_sibling t src g d) ds)) =
      map (dm_document_id \<circ> snd) (filter (\<lambda>x. dm_status (snd x) = Ready) (filter (pg_sibling t src g d) es))"
    by (rule agree_map) (auto simp: same_doc_def dest: core_eqD(1))
  then show "map dm_document_id (filter (\<lambda>m. dm_status m = Ready) (map snd (filter (is_sibling t src g d) ds))) =
     map (dm_document_id \<circ> snd) (filter (\<lambda>x. pg_sibling t src g d x \<and> dm_status (snd x) = Ready) es)"
    by (simp add: filter_map comp_def conj_commute)
qed

lemma update_where_none: "(\<And>x. x \<in> set ds \<Longrightarrow> \<not> P x) \<Longrightarrow> update_where P f ds = ds"
  by (induction ds) (auto simp: update_where_def)

lemma update_where_append: "update_where P f (ds @ es) = update_where P f ds @ update_where P f es"
  by (simp add: update_where_def)

section \<open>Uploads\<close>

lemma highest_version_mem: "highest_version ms = Some m \<Longrightarrow> m \<in> set ms"
  by (induction ms arbitrary: m) (auto split: option.splits if_splits)

lemma highest_version_None: "highest_version ms = None \<longleftrightarrow> ms = []"
  by (cases ms) (auto split: option.splits)

lemma current_agree:
  assumes "agree (ms_documents M) (pg_docs P)" "strip t = t"
  shows "map dm_allowed_groups (filter (\<lambda>m. dm_status m = Ready) (versions M t (src_system src) (src_id src) g)) =
    map dm_allowed_groups (map snd (filter (\<lambda>x. same_source t src x \<and> dm_status (snd x) = Ready \<and> acl_filter (snd x) g) (pg_docs P)))"
proof -
  note [simp] = own_row_clean[OF assms(2)]
  have "agree (filter (\<lambda>x. is_version t (src_system src) (src_id src) g x \<and> dm_status (snd x) = Ready) (ms_documents M))
      (filter (\<lambda>x. same_source t src x \<and> dm_status (snd x) = Ready \<and> acl_filter (snd x) g) (pg_docs P))"
  proof (rule agree_filter[OF assms(1)])
    fix x y assume s: "same_doc x y"
    obtain k m n where "x = (k, m)" "y = (k, n)" "core m = core n" using s by (cases x; cases y) (auto simp: same_doc_def)
    then show "(is_version t (src_system src) (src_id src) g x \<and> dm_status (snd x) = Ready) =
        (same_source t src y \<and> dm_status (snd y) = Ready \<and> acl_filter (snd y) g)"
      using core_eqD(3,4,6)[of m n] visible_core[of m n g] by (cases k) (auto simp: is_version_def same_source_def)
  qed
  then have "map (dm_allowed_groups \<circ> snd) (filter (\<lambda>x. is_version t (src_system src) (src_id src) g x \<and> dm_status (snd x) = Ready) (ms_documents M)) =
      map (dm_allowed_groups \<circ> snd) (filter (\<lambda>x. same_source t src x \<and> dm_status (snd x) = Ready \<and> acl_filter (snd x) g) (pg_docs P))"
    by (rule agree_map) (auto dest: same_docD core_eqD(8))
  then show ?thesis by (simp add: versions_def filter_map comp_def conj_commute)
qed

text \<open>Where there is one ACL to inherit, both stores inherit it.\<close>

lemma inherited_agree:
  assumes "agree (ms_documents M) (pg_docs P)" "strip t = t" "t = fst (result_key r)"
    "one_acl M (OpPersist now r em None g ct source)"
  shows "(case filter (\<lambda>m. dm_status m = Ready) (versions M t (src_system (source_of r source)) (src_id (source_of r source)) g) of
      [] \<Rightarrow> [] | m # _ \<Rightarrow> dm_allowed_groups m) = inherited_groups P t (source_of r source) g"
proof -
  let ?v = "filter (\<lambda>m. dm_status m = Ready) (versions M t (src_system (source_of r source)) (src_id (source_of r source)) g)"
  let ?w = "map snd (filter (\<lambda>x. same_source t (source_of r source) x \<and> dm_status (snd x) = Ready \<and> acl_filter (snd x) g) (pg_docs P))"
  have vw: "map dm_allowed_groups ?v = map dm_allowed_groups ?w" by (rule current_agree[OF assms(1,2)])
  show ?thesis
  proof (cases "highest_version ?w")
    case None
    with vw show ?thesis by (simp add: inherited_groups_def highest_version_None)
  next
    case (Some n)
    have "dm_allowed_groups n \<in> set (map dm_allowed_groups ?v)"
      using imageI[OF highest_version_mem[OF Some], of dm_allowed_groups] unfolding vw by (simp only: set_map)
    then obtain m ms where v: "?v = m # ms" and n: "dm_allowed_groups n \<in> set (map dm_allowed_groups (m # ms))"
      by (cases ?v) auto
    then have "dm_allowed_groups n = dm_allowed_groups m"
      using assms(4) by (auto simp: assms(3)[symmetric] list_all_iff)
    with Some v show ?thesis by (simp add: inherited_groups_def)
  qed
qed

lemma pg_persist_needs_chunks: "pg_persist S now r em mn a g ct source = Inr z \<Longrightarrow> ir_chunks r \<noteq> []"
  by (auto simp: pg_persist_def check_embeddings_def)

text \<open>The rows an upload writes are its chunks, in order.\<close>

lemma insert_chunks_all:
  assumes "insert_chunks t d mn rows (zip cs em) = Inr rows'" "length cs = length em"
    "list_all (\<lambda>c. chunk_document_id c = d \<and> chunk_tenant_id c = t) cs" "distinct (map chunk_index cs)"
    "\<And>r c. r \<in> set rows \<Longrightarrow> c \<in> set cs \<Longrightarrow> chunk_key (pc_chunk r) = (t, d) \<Longrightarrow> chunk_index (pc_chunk r) \<noteq> chunk_index c"
  shows "map pc_chunk rows' = map pc_chunk rows @ cs"
  using assms
proof (induction cs arbitrary: em rows)
  case (Cons c cs)
  obtain v em' where em: "em = v # em'" using Cons.prems(2) by (cases em) auto
  obtain rows1 where r1: "insert_chunk t d mn rows (c, v) = Inr rows1" "insert_chunks t d mn rows1 (zip cs em') = Inr rows'"
    using Cons.prems(1) by (auto simp: em)
  have "\<not> list_ex (\<lambda>r. chunk_tenant_id (pc_chunk r) = chunk_tenant_id c
         \<and> chunk_document_id (pc_chunk r) = d \<and> chunk_index (pc_chunk r) = chunk_index c) rows"
    using Cons.prems(3,5) by (fastforce simp: list_ex_iff chunk_key_def)
  moreover have "c\<lparr>chunk_document_id := d\<rparr> = c" using Cons.prems(3) by (cases c) simp
  ultimately have rows1: "rows1 = rows @ [\<lparr>pc_chunk = c, pc_embedding = Some v, pc_model = Some mn\<rparr>]"
    using r1(1) by (auto simp: insert_chunk_def split: if_splits option.splits)
  have "map pc_chunk rows' = map pc_chunk rows1 @ cs"
  proof (rule Cons.IH[OF r1(2)])
    fix r c' assume "r \<in> set rows1" "c' \<in> set cs" "chunk_key (pc_chunk r) = (t, d)"
    then show "chunk_index (pc_chunk r) \<noteq> chunk_index c'"
      using Cons.prems(4,5) by (auto simp: rows1)
  qed (use Cons.prems in \<open>auto simp: em\<close>)
  then show ?case by (simp add: rows1)
qed simp

lemma pg_persist_lengths: "pg_persist S now r em mn a g ct source = Inr z \<Longrightarrow> length (ir_chunks r) = length em"
  by (auto simp: pg_persist_def check_embeddings_def split: if_splits)

text \<open>The three ways an upload ends in the memory store.\<close>

abbreviation publish :: "int \<Rightarrow> nat \<Rightarrow> string \<Rightarrow> doc_meta \<Rightarrow> doc_meta" where
  "publish now v name m \<equiv> m\<lparr>dm_status := Ready, dm_version := v, dm_source := name, dm_updated_at := now\<rparr>"

abbreviation at_key :: "doc_key \<Rightarrow> doc_key \<times> doc_meta \<Rightarrow> bool" where
  "at_key k x \<equiv> fst x = k"

lemma at_key_pair: "(\<lambda>(j, _). j = k) = at_key k"
  by auto

lemma persist_again:
  assumes "ir_chunks r \<noteq> []" "map_of (ms_documents M) (result_key r) = Some m" "dm_status m = Ready"
  shows "persist M now r a g ct source = Inr (\<lparr>pr_document_id = ir_document_id r, pr_chunks_written = 0, pr_already_existed = True,
      pr_version = dm_version m, pr_superseded = []\<rparr>,
    M\<lparr>ms_documents := update_where (at_key (result_key r)) (\<lambda>m. m\<lparr>dm_last_checked_at := now\<rparr>) (ms_documents M)\<rparr>)"
  using assms by (simp add: persist_def result_key_def at_key_pair)

text \<open>What an upload that changes the current version reports.\<close>

definition new_version :: "(doc_key \<times> doc_meta) list \<Rightarrow> ingest_result \<Rightarrow> source_ref \<Rightarrow> string list \<Rightarrow> bool \<Rightarrow> persist_result" where
  "new_version ds r src g fresh =
     (let siblings = map snd (filter (is_sibling (fst (result_key r)) src g (ir_document_id r)) ds) in
      \<lparr>pr_document_id = ir_document_id r, pr_chunks_written = (if fresh then length (ir_chunks r) else 0),
       pr_already_existed = (\<not> fresh), pr_version = next_version siblings,
       pr_superseded = map dm_document_id (filter (\<lambda>m. dm_status m = Ready) siblings)\<rparr>)"

lemma publish_checked:
  "(publish now v s m)\<lparr>dm_last_checked_at := c\<rparr> = publish now v s (m\<lparr>dm_last_checked_at := c\<rparr>)"
  by (cases m) simp

lemma persist_reinstate:
  assumes "ir_chunks r \<noteq> []" "map_of (ms_documents M) (result_key r) = Some m" "dm_status m \<noteq> Ready"
  shows "persist M now r a g ct source = (let pr = new_version (ms_documents M) r (source_of r source) g False in Inr (pr,
    M\<lparr>ms_documents := update_where (at_key (result_key r))
        (\<lambda>m. publish now (pr_version pr) (chunk_source (hd (ir_chunks r))) (m\<lparr>dm_last_checked_at := now\<rparr>))
        (supersede now (fst (result_key r)) (source_of r source) g (ir_document_id r) (ms_documents M))\<rparr>))"
  using assms by (simp add: persist_def new_version_def result_key_def at_key_pair Let_def publish_checked)

lemma persist_fresh:
  assumes "ir_chunks r \<noteq> []" "map_of (ms_documents M) (result_key r) = None"
    "acl = (case a of Some b \<Rightarrow> b | None \<Rightarrow> (case filter (\<lambda>m. dm_status m = Ready) (versions M (fst (result_key r))
      (src_system (source_of r source)) (src_id (source_of r source)) g) of [] \<Rightarrow> [] | m # _ \<Rightarrow> dm_allowed_groups m))"
  shows "persist M now r a g ct source = (let pr = new_version (ms_documents M) r (source_of r source) g True in Inr (pr,
    M\<lparr>ms_documents := supersede now (fst (result_key r)) (source_of r source) g (ir_document_id r) (ms_documents M) @
        [(result_key r, publish now (pr_version pr) (chunk_source (hd (ir_chunks r))) (new_document now r acl ct (source_of r source)))],
      ms_chunks := AList.update (result_key r) (ir_chunks r) (ms_chunks M)\<rparr>))"
  using assms by (simp add: persist_def new_version_def result_key_def at_key_pair Let_def new_document_def cong: option.case_cong)

lemma update_where_split:
  assumes "\<And>x. x \<in> set ds \<Longrightarrow> fst x = k \<Longrightarrow> \<not> Q x \<and> \<not> Q (k, h (snd x))"
  shows "update_where (at_key k) (\<lambda>m. f (h m)) (update_where Q g ds) =
    update_where (at_key k) f (update_where Q g (update_where (at_key k) h ds))"
  using assms by (induction ds) (auto simp: update_where_def)

text \<open>The statements at the end of an upload do what the memory store does.\<close>

lemma finish_agree:
  assumes "finish_persist now r src g fresh d S = (pr, S')" "t = fst (result_key r)" "d = ir_document_id r" "strip t = t"
    "agree ds (pg_docs S)" "list_all (\<lambda>x. dm_document_id (snd x) = snd (fst x)) (pg_docs S)"
  shows "pr = new_version ds r src g fresh" "pg_chunks S' = pg_chunks S"
    "agree (update_where (at_key (result_key r)) (publish now (pr_version pr) (chunk_source (hd (ir_chunks r))))
        (supersede now t src g d ds)) (pg_docs S')"
proof -
  let ?q = "\<lambda>x. pg_sibling t src g d x \<and> dm_status (snd x) = Ready"
  let ?es = "update_where ?q (\<lambda>m. m\<lparr>dm_status := Superseded, dm_updated_at := now\<rparr>) (pg_docs S)"
  have t: "chunk_tenant_id (hd (ir_chunks r)) = t" using assms(2) by (simp add: result_key_def)
  have key: "result_key r = (t, d)" using assms(2,3) by (simp add: result_key_def)
  have v: "next_version (map snd (filter (pg_sibling t src g d) ?es)) = next_version (map snd (filter (pg_sibling t src g d) (pg_docs S)))"
    unfolding next_version_def sibling_versions ..
  note facts = sibling_facts[OF assms(5,4), of src g d]
  show pr: "pr = new_version ds r src g fresh"
    using assms(1) unfolding finish_persist_def Let_def t v new_version_def assms(2)[symmetric] assms(3)[symmetric] facts by simp
  have S': "S' = S\<lparr>pg_docs := update_where (\<lambda>x. own_row t (fst (fst x)) \<and> dm_document_id (snd x) = d)
      (publish now (pr_version pr) (chunk_source (hd (ir_chunks r)))) ?es\<rparr>"
    using assms(1) unfolding finish_persist_def Let_def t by auto
  then show "pg_chunks S' = pg_chunks S" by simp
  have docs': "pg_docs S' = update_where (\<lambda>x. own_row t (fst (fst x)) \<and> dm_document_id (snd x) = d)
      (publish now (pr_version pr) (chunk_source (hd (ir_chunks r)))) ?es" by (simp add: S')
  have ids: "list_all (\<lambda>x. dm_document_id (snd x) = snd (fst x)) ?es" using assms(6) by (rule ids_update_where) simp
  show "agree (update_where (at_key (result_key r)) (publish now (pr_version pr) (chunk_source (hd (ir_chunks r))))
        (supersede now t src g d ds)) (pg_docs S')"
    unfolding docs' key
  proof (rule agree_update[OF superseded_agree[OF assms(5,4)]])
    fix x y assume y: "y \<in> set ?es" and s: "same_doc x y"
    from y ids have "dm_document_id (snd y) = snd (fst y)" by (auto simp: list_all_iff)
    then show "(fst x = (t, d)) = (own_row t (fst (fst y)) \<and> dm_document_id (snd y) = d)"
      using same_docD(1)[OF s] by (cases "fst y") (auto simp: own_row_clean[OF assms(4)])
  next
    fix x y assume s: "same_doc x y"
    show "core (publish now (pr_version pr) (chunk_source (hd (ir_chunks r))) (snd x)) =
      core (publish now (pr_version pr) (chunk_source (hd (ir_chunks r))) (snd y))"
      using same_docD(2)[OF s] by (cases "snd x"; cases "snd y"; simp add: core_def)
  qed
qed

lemma filter_update_key:
  assumes "\<And>x. x \<in> set ds \<Longrightarrow> fst x = k \<Longrightarrow> \<not> P x \<and> \<not> P (k, h (snd x))"
  shows "filter P (update_where (at_key k) h ds) = filter P ds"
  using assms by (induction ds) (auto simp: update_where_def)

lemma own_version_not_sibling: "dm_document_id m = d \<Longrightarrow> \<not> is_sibling t src g d (k, m)"
  by (simp add: is_sibling_def)

lemma touch_core: "core m = core n \<Longrightarrow> core (m\<lparr>dm_last_checked_at := now\<rparr>) = core (touch_conflict now src n)"
  by (cases m; cases n; simp add: core_def touch_conflict_def)

lemma identified_supersede: "identified idf U ds \<Longrightarrow> identified idf U (supersede now t src g d ds)"
  unfolding supersede_def by (rule identified_update) (simp_all add: meta_ident_def)

lemma store_ok_ids: "store_ok M \<Longrightarrow> x \<in> set (ms_documents M) \<Longrightarrow> dm_document_id (snd x) = snd (fst x)"
  by (cases x) (auto simp: store_ok_def list_all_iff entry_ok_def)

lemma update_where_cong: "(\<And>x. x \<in> set ds \<Longrightarrow> P x = Q x) \<Longrightarrow> update_where P f ds = update_where Q f ds"
  unfolding update_where_def by simp

text \<open>The states after an upload are related, whichever way it ended.\<close>

definition stores_match :: "(string \<times> string \<times> string \<Rightarrow> string) \<Rightarrow> (string \<times> string \<times> string) set \<Rightarrow>
    memory_store \<Rightarrow> pg_store \<Rightarrow> bool" where
  "stores_match idf U M P = (agree (ms_documents M) (pg_docs P) \<and> identified idf U (ms_documents M)
     \<and> (\<forall>k. rows_of (pg_chunks P) k = stored_chunks (ms_chunks M) k))"

lemma simulates_iff: "simulates idf U M P \<longleftrightarrow> store_ok M \<and> pg_ok P \<and> stores_match idf U M P"
  by (auto simp: simulates_def stores_match_def)

lemma match_reinstate:
  assumes "store_ok M" "pg_ok P" "stores_match idf U M P" "t = fst (result_key r)" "strip t = t"
    "es = update_where (at_key (result_key r)) (touch_conflict now src) (pg_docs P)"
    "finish_persist now r src g False (ir_document_id r) (P\<lparr>pg_docs := es\<rparr>) = (pr, P')"
  shows "pr = new_version (ms_documents M) r src g False"
    "stores_match idf U (M\<lparr>ms_documents := update_where (at_key (result_key r))
        (\<lambda>m. publish now (pr_version pr) (chunk_source (hd (ir_chunks r))) (m\<lparr>dm_last_checked_at := now\<rparr>))
        (supersede now t src g (ir_document_id r) (ms_documents M))\<rparr>) P'"
proof -
  let ?d = "ir_document_id r" and ?k = "result_key r" and ?lc = "\<lambda>m. m\<lparr>dm_last_checked_at := now\<rparr>"
  let ?ds = "update_where (at_key ?k) ?lc (ms_documents M)"
  have a: "agree ?ds es" unfolding assms(6)
    by (rule agree_update) (use assms(3) in \<open>auto simp: stores_match_def dest: same_docD intro: touch_core\<close>)
  have ids: "list_all (\<lambda>x. dm_document_id (snd x) = snd (fst x)) es"
    unfolding assms(6) by (rule ids_update_where) (use assms(2) in \<open>auto simp: pg_ok_def touch_conflict_def\<close>)
  have own: "\<not> is_sibling t src g ?d x \<and> \<not> is_sibling t src g ?d (?k, ?lc (snd x))"
    if "x \<in> set (ms_documents M)" "fst x = ?k" for x
    using store_ok_ids[OF assms(1) that(1)] that(2) own_version_not_sibling by (cases x) (simp add: result_key_def)
  note f = finish_agree[OF assms(7,4) refl assms(5), of ?ds]
  have fl: "filter (is_sibling t src g ?d) ?ds = filter (is_sibling t src g ?d) (ms_documents M)"
    by (rule filter_update_key) (use own in blast)
  have nv: "new_version ?ds r src g False = new_version (ms_documents M) r src g False"
    using fl by (simp add: new_version_def assms(4)[symmetric])
  show "pr = new_version (ms_documents M) r src g False" using f(1) a ids unfolding nv by simp
  have "update_where (at_key ?k) (\<lambda>m. publish now (pr_version pr) (chunk_source (hd (ir_chunks r))) (?lc m))
        (supersede now t src g ?d (ms_documents M)) =
      update_where (at_key ?k) (publish now (pr_version pr) (chunk_source (hd (ir_chunks r)))) (supersede now t src g ?d ?ds)"
    unfolding supersede_def by (rule update_where_split) (use own in auto)
  moreover have "identified idf U (update_where (at_key ?k)
      (\<lambda>m. publish now (pr_version pr) (chunk_source (hd (ir_chunks r))) (?lc m)) (supersede now t src g ?d (ms_documents M)))"
    by (rule identified_update[OF identified_supersede])
      (use assms(3) in \<open>auto simp: stores_match_def meta_ident_def\<close>)
  ultimately show "stores_match idf U (M\<lparr>ms_documents := update_where (at_key (result_key r))
        (\<lambda>m. publish now (pr_version pr) (chunk_source (hd (ir_chunks r))) (m\<lparr>dm_last_checked_at := now\<rparr>))
        (supersede now t src g (ir_document_id r) (ms_documents M))\<rparr>) P'"
    using f(2,3) a ids assms(3) by (simp add: stores_match_def)
qed

lemma rows_of_no_doc:
  assumes "pg_ok P" "k \<notin> set (map fst (pg_docs P))"
  shows "rows_of (pg_chunks P) k = []"
proof -
  have "chunk_key (pc_chunk r) \<noteq> k" if "r \<in> set (pg_chunks P)" for r
    using assms that unfolding pg_ok_def list_all_iff chunk_key_def by metis
  then show ?thesis by (simp add: rows_of_def filter_empty_conv)
qed

lemma match_fresh:
  assumes "store_ok M" "pg_ok P" "stores_match idf U M P" "t = fst (result_key r)" "strip t = t"
    "result_key r \<notin> set (map fst (pg_docs P))" "new = new_document now r acl ct src"
    "finish_persist now r src g True (ir_document_id r) \<lparr>pg_docs = pg_docs P @ [(result_key r, new)], pg_chunks = rows\<rparr> = (pr, P')"
    "map pc_chunk rows = map pc_chunk (pg_chunks P) @ ir_chunks r" "result_ok r" "ir_chunks r \<noteq> []"
    "ir_document_id r = idf (meta_ident new)" "meta_ident new \<in> U"
  shows "pr = new_version (ms_documents M) r src g True"
    "stores_match idf U (M\<lparr>ms_documents := supersede now t src g (ir_document_id r) (ms_documents M) @
        [(result_key r, publish now (pr_version pr) (chunk_source (hd (ir_chunks r))) new)],
      ms_chunks := AList.update (result_key r) (ir_chunks r) (ms_chunks M)\<rparr>) P'"
proof -
  let ?d = "ir_document_id r" and ?k = "result_key r" and ?pub = "publish now (pr_version pr) (chunk_source (hd (ir_chunks r)))"
  let ?ds = "ms_documents M @ [(?k, new)]"
  have ag: "agree (ms_documents M) (pg_docs P)" using assms(3) by (simp add: stores_match_def)
  have new: "dm_document_id new = ?d" "snd ?k = ?d" using assms(7) by (simp_all add: new_document_def result_key_def)
  have a: "agree ?ds (pg_docs P @ [(?k, new)])" by (rule agree_snoc[OF ag]) (simp add: same_doc_def)
  have ids: "list_all (\<lambda>x. dm_document_id (snd x) = snd (fst x)) (pg_docs P @ [(?k, new)])"
    using assms(2) new by (simp add: pg_ok_def)
  have own: "\<not> is_sibling t src g ?d (?k, new)" by (rule own_version_not_sibling) (rule new(1))
  note f = finish_agree[OF assms(8,4) refl assms(5), of ?ds, unfolded pg_store.simps, OF a ids]
  show "pr = new_version (ms_documents M) r src g True"
    using f(1) own by (simp add: new_version_def assms(4)[symmetric])
  have absent: "?k \<notin> set (map fst (ms_documents M))" unfolding agree_keys[OF ag] by (rule assms(6))
  have "supersede now t src g ?d ?ds = supersede now t src g ?d (ms_documents M) @ [(?k, new)]"
    using own by (simp add: supersede_def update_where_def)
  moreover have "update_where (at_key ?k) ?pub (supersede now t src g ?d (ms_documents M)) = supersede now t src g ?d (ms_documents M)"
  proof (rule update_where_none)
    fix x assume "x \<in> set (supersede now t src g ?d (ms_documents M))"
    then have "fst x \<in> set (map fst (supersede now t src g ?d (ms_documents M)))" by simp
    with absent show "\<not> at_key ?k x" by (auto simp: supersede_def simp del: set_map)
  qed
  ultimately have upd: "update_where (at_key ?k) ?pub (supersede now t src g ?d ?ds) =
      supersede now t src g ?d (ms_documents M) @ [(?k, ?pub new)]"
    by (simp add: update_where_append) (simp add: update_where_def)
  have "identified idf U (supersede now t src g ?d (ms_documents M) @ [(?k, ?pub new)])"
    using identified_supersede[of idf U "ms_documents M"] assms(3,12,13) new
    by (simp add: stores_match_def identified_def meta_ident_def)
  moreover have "rows_of rows k = stored_chunks (AList.update ?k (ir_chunks r) (ms_chunks M)) k" for k
  proof -
    have ck: "chunk_key c = ?k" if "c \<in> set (ir_chunks r)" for c
      using assms(10) that by (auto simp: result_ok_def list_all_iff chunk_key_def result_key_def)
    have "rows_of rows k = rows_of (pg_chunks P) k @ filter (\<lambda>c. chunk_key c = k) (ir_chunks r)"
      by (simp add: rows_of_def assms(9))
    moreover have "filter (\<lambda>c. chunk_key c = k) (ir_chunks r) = (if k = ?k then ir_chunks r else [])"
      using ck by (auto simp: filter_id_conv filter_empty_conv)
    moreover have "rows_of (pg_chunks P) ?k = []" by (rule rows_of_no_doc[OF assms(2,6)])
    ultimately show ?thesis using assms(3) by (auto simp: stores_match_def stored_chunks_def update_conv simp del: split_paired_All)
  qed
  ultimately show "stores_match idf U (M\<lparr>ms_documents := supersede now t src g (ir_document_id r) (ms_documents M) @
        [(result_key r, publish now (pr_version pr) (chunk_source (hd (ir_chunks r))) new)],
      ms_chunks := AList.update (result_key r) (ir_chunks r) (ms_chunks M)\<rparr>) P'"
    using f(2,3) unfolding upd by (simp add: stores_match_def)
qed

text \<open>An upload finds the row of its key, by its identity in PostgreSQL and by its key in the dictionary.\<close>

lemma upload_lookup:
  assumes "stores_match idf U M P" "inj_on idf U" "ident r source \<in> U" "strip (fst (result_key r)) = fst (result_key r)"
    "ir_document_id r = idf (ident r source)" "c = conflicts (fst (result_key r)) (source_of r source) (ir_content_sha256 r)"
  shows "List.find c (pg_docs P) = map_option (Pair (result_key r)) (map_of (pg_docs P) (result_key r))"
    "update_where c f (pg_docs P) = update_where (at_key (result_key r)) f (pg_docs P)"
proof -
  have "identified idf U (pg_docs P)" using assms(1) identified_agree by (auto simp: stores_match_def)
  moreover have "result_key r = (fst (result_key r), idf (ident r source))" using assms(5) by (simp add: result_key_def)
  ultimately have c: "c y = at_key (result_key r) y" if "y \<in> set (pg_docs P)" for y
    using conflicts_key[OF _ assms(2) assms(3)[unfolded ident_def] assms(4) that] by (simp add: assms(6) ident_def)
  show "List.find c (pg_docs P) = map_option (Pair (result_key r)) (map_of (pg_docs P) (result_key r))"
    unfolding find_key[symmetric] using c by (intro find_cong) auto
  show "update_where c f (pg_docs P) = update_where (at_key (result_key r)) f (pg_docs P)"
    by (rule update_where_cong) (rule c)
qed

lemma match_again:
  assumes "stores_match idf U M P"
  shows "stores_match idf U (M\<lparr>ms_documents := update_where (at_key k) (\<lambda>m. m\<lparr>dm_last_checked_at := now\<rparr>) (ms_documents M)\<rparr>)
    (P\<lparr>pg_docs := update_where (at_key k) (touch_conflict now src) (pg_docs P)\<rparr>)"
proof -
  have "agree (update_where (at_key k) (\<lambda>m. m\<lparr>dm_last_checked_at := now\<rparr>) (ms_documents M))
      (update_where (at_key k) (touch_conflict now src) (pg_docs P))"
    by (rule agree_update) (use assms in \<open>auto simp: stores_match_def dest: same_docD intro: touch_core\<close>)
  moreover have "identified idf U (update_where (at_key k) (\<lambda>m. m\<lparr>dm_last_checked_at := now\<rparr>) (ms_documents M))"
    by (rule identified_update) (use assms in \<open>auto simp: stores_match_def meta_ident_def\<close>)
  ultimately show ?thesis using assms by (simp add: stores_match_def)
qed

lemma fresh_rows:
  assumes "pg_ok P" "result_key r \<notin> set (map fst (pg_docs P))" "result_ok r" "distinct (map chunk_index (ir_chunks r))"
    "insert_chunks (fst (result_key r)) (ir_document_id r) mn (pg_chunks P) (zip (ir_chunks r) em) = Inr rows"
    "length (ir_chunks r) = length em"
  shows "map pc_chunk rows = map pc_chunk (pg_chunks P) @ ir_chunks r"
proof (rule insert_chunks_all[OF assms(5,6) _ assms(4)])
  show "list_all (\<lambda>c. chunk_document_id c = ir_document_id r \<and> chunk_tenant_id c = fst (result_key r)) (ir_chunks r)"
    using assms(3) by (simp add: result_ok_def result_key_def)
  fix q c assume "q \<in> set (pg_chunks P)" "chunk_key (pc_chunk q) = (fst (result_key r), ir_document_id r)"
  then show "chunk_index (pc_chunk q) \<noteq> chunk_index c"
    using rows_of_no_doc[OF assms(1,2)] by (auto simp: rows_of_def filter_empty_conv result_key_def)
qed

lemma persist_agree:
  assumes sim: "simulates idf U M P" and inj: "inj_on idf U"
    and x: "x = OpPersist now r em a g ct source" "api_op idf x" "ident r source \<in> U" "one_acl M x"
    and pg: "pg_persist P now r em MODEL_NAME a g ct source = Inr (pr, P')"
  obtains M' where "persist M now r a g ct source = Inr (pr, M')" "stores_match idf U M' P'"
proof -
  let ?t = "fst (result_key r)" and ?k = "result_key r" and ?src = "source_of r source"
  have ok: "store_ok M" "pg_ok P" and m: "stores_match idf U M P" using sim by (auto simp: simulates_iff)
  then have ag: "agree (ms_documents M) (pg_docs P)" by (auto simp: stores_match_def)
  have st: "strip ?t = ?t" and r: "result_ok r" "ir_document_id r = idf (ident r source)" "distinct (map chunk_index (ir_chunks r))"
    using x(1,2) by (auto simp: api_op_def op_ok_def result_key_def)
  note lookup = upload_lookup[OF m inj x(3) st r(2) refl]
  note ne = pg_persist_needs_chunks[OF pg]
  have row: "\<exists>m' n. map_of (ms_documents M) ?k = Some m' \<and> map_of (pg_docs P) ?k = Some n \<and> y = (?k, n) \<and> core m' = core n
      \<and> dm_document_id n = ir_document_id r"
    if f: "List.find (conflicts ?t ?src (ir_content_sha256 r)) (pg_docs P) = Some y" for y
  proof -
    obtain n where n: "map_of (pg_docs P) ?k = Some n" "y = (?k, n)" using f lookup(1) by auto
    with pg_docs_lookup[OF ok(2), of ?t "ir_document_id r" n] have "dm_document_id n = ir_document_id r"
      by (auto simp: result_key_def dest: map_of_SomeD)
    with n show ?thesis by (cases rule: agree_lookup[OF ag, of ?k]) auto
  qed
  from pg show thesis
  proof (cases rule: pg_persist_cases)
    case (again y)
    from row[OF again(1)] obtain m' n where y: "map_of (ms_documents M) ?k = Some m'" "y = (?k, n)" "core m' = core n"
      "dm_document_id n = ir_document_id r" by blast
    with again(2,4) persist_again[OF ne y(1)] core_eqD(5,6)[OF y(3)] match_again[OF m, of ?k now ?src] again(3)[unfolded lookup(2)]
    show thesis by (intro that) auto
  next
    case (reinstate y)
    from row[OF reinstate(1)] obtain m' n where y: "map_of (ms_documents M) ?k = Some m'" "y = (?k, n)" "core m' = core n"
      "dm_document_id n = ir_document_id r" by blast
    then have "dm_status m' \<noteq> Ready" "dm_document_id (snd y) = ir_document_id r"
      using reinstate(2) core_eqD(6)[OF y(3)] by auto
    with match_reinstate[OF ok m refl st lookup(2) reinstate(3)[unfolded \<open>dm_document_id (snd y) = ir_document_id r\<close>]]
      persist_reinstate[OF ne y(1)]
    show thesis by (intro that) (auto simp: Let_def)
  next
    case (fresh acl rows)
    have none: "map_of (ms_documents M) ?k = None"
      using fresh(1) unfolding agree_keys[OF ag, symmetric] by (simp add: map_of_eq_None_iff)
    let ?new = "new_document now r acl ct ?src"
    have new: "ir_document_id r = idf (meta_ident ?new)" "meta_ident ?new \<in> U"
      using r(2) x(3) by (simp_all add: meta_ident_def new_document_def ident_def)
    have "acl = (case a of Some b \<Rightarrow> b | None \<Rightarrow> (case filter (\<lambda>m. dm_status m = Ready) (versions M ?t
        (src_system ?src) (src_id ?src) g) of [] \<Rightarrow> [] | m # _ \<Rightarrow> dm_allowed_groups m))"
      using fresh(5) inherited_agree[OF ag st refl, of now em g ct source] x(1,4)
      by (cases a) (auto simp: result_key_def)
    with match_fresh[OF ok m refl st fresh(1) refl fresh(4) fresh_rows[OF ok(2) fresh(1) r(1,3) fresh(3) pg_persist_lengths[OF pg]]
        r(1) ne new] persist_fresh[OF ne none]
    show thesis by (intro that) (auto simp: Let_def)
  qed
qed

section \<open>The other operations\<close>

lemma mark_agree:
  assumes m: "stores_match idf U M P" and ok: "pg_ok P" and st: "strip t = t" and pg: "pg_mark_checked P now t d = Inr P'"
  shows "stores_match idf U (mark_checked M now t d) P'"
proof -
  have ag: "agree (ms_documents M) (pg_docs P)" using m by (simp add: stores_match_def)
  have P': "P' = P\<lparr>pg_docs := update_where (\<lambda>x. own_row t (fst (fst x)) \<and> dm_document_id (snd x) = d)
      (\<lambda>m. m\<lparr>dm_last_checked_at := now\<rparr>) (pg_docs P)\<rparr>"
    using pg by (auto simp: pg_mark_checked_def bind_res_def split: sum.splits)
  have "agree (update_where (at_key (t, d)) (\<lambda>m. m\<lparr>dm_last_checked_at := now\<rparr>) (ms_documents M)) (pg_docs P')"
    unfolding P' pg_store.simps
  proof (simp, rule agree_update[OF ag])
    fix x y assume y: "y \<in> set (pg_docs P)" and s: "same_doc x y"
    have "dm_document_id (snd y) = snd (fst y)" using ok y by (auto simp: pg_ok_def list_all_iff)
    then show "at_key (t, d) x = (own_row t (fst (fst y)) \<and> dm_document_id (snd y) = d)"
      using same_docD(1)[OF s] by (cases "fst y") (auto simp: own_row_clean[OF st])
  qed (auto dest: same_docD intro: core_updates(1))
  moreover have "identified idf U (update_where (at_key (t, d)) (\<lambda>m. m\<lparr>dm_last_checked_at := now\<rparr>) (ms_documents M))"
    by (rule identified_update) (use m in \<open>auto simp: stores_match_def meta_ident_def\<close>)
  ultimately show ?thesis using m by (simp add: stores_match_def mark_checked_def at_key_pair P')
qed

text \<open>A lookup on both sides.\<close>

lemma filter_row:
  assumes "distinct (map fst es)" "list_all (\<lambda>x. dm_document_id (snd x) = snd (fst x)) es"
  shows "filter (\<lambda>x. fst (fst x) = t \<and> dm_document_id (snd x) = d \<and> acl_filter (snd x) g) es =
    (case map_of es (t, d) of None \<Rightarrow> [] | Some n \<Rightarrow> if acl_filter n g then [((t, d), n)] else [])"
  using assms
proof (induction es)
  case (Cons x xs)
  obtain u e n where [simp]: "x = ((u, e), n)" by (metis surj_pair)
  show ?case
  proof (cases "u = t \<and> e = d")
    case True
    with Cons have "map_of xs (t, d) = None" by (simp add: map_of_eq_None_iff)
    with True Cons show ?thesis by simp
  next
    case False
    with Cons show ?thesis by auto
  qed
qed simp

lemma find_filter: "List.find P xs = (case filter P xs of [] \<Rightarrow> None | y # _ \<Rightarrow> Some y)"
  by (induction xs) auto

lemma pg_ok_rows: "pg_ok P \<Longrightarrow> filter (\<lambda>x. fst (fst x) = t \<and> dm_document_id (snd x) = d \<and> acl_filter (snd x) g) (pg_docs P) =
    (case map_of (pg_docs P) (t, d) of None \<Rightarrow> [] | Some n \<Rightarrow> if acl_filter n g then [((t, d), n)] else [])"
  by (rule filter_row) (simp_all add: pg_ok_def)

lemma get_agree:
  assumes "pg_ok P" "agree (ms_documents M) (pg_docs P)" "strip t = t" "pg_get_document P t d g = Inr r"
  shows "map_option core r = map_option core (get_document M t d g)"
proof -
  have "filter (\<lambda>x. own_row t (fst (fst x)) \<and> acl_filter (snd x) g \<and> dm_document_id (snd x) = d) (pg_docs P) =
      filter (\<lambda>x. fst (fst x) = t \<and> dm_document_id (snd x) = d \<and> acl_filter (snd x) g) (pg_docs P)"
    by (rule filter_cong) (auto simp: own_row_clean[OF assms(3)])
  then have r: "r = (case map_of (pg_docs P) (t, d) of None \<Rightarrow> None | Some n \<Rightarrow> if acl_filter n g then Some n else None)"
    using assms(4) pg_ok_rows[OF assms(1), of t d g]
    by (auto simp: pg_get_document_def select_documents_def set_tenant_def split: if_splits option.splits)
  from assms(2) show ?thesis
  proof (cases rule: agree_lookup[where k = "(t, d)"])
    case (both m n)
    then show ?thesis using visible_core[of m n g] by (simp add: r get_document_def)
  qed (simp add: r get_document_def)
qed

lemma changes_agree:
  assumes "agree ds es" "strip t = t" "core e = core f"
  shows "agree (update_where (is_version t (dm_source_system e) (dm_source_id e) g) (apply_changes now a n) ds)
    (update_where (\<lambda>y. own_row t (fst (fst y)) \<and> dm_source_system (snd y) = dm_source_system f
      \<and> dm_source_id (snd y) = dm_source_id f \<and> acl_filter (snd y) g) (pg_apply_changes now a n) es)"
proof (rule agree_update[OF assms(1)])
  fix x y assume s: "same_doc x y"
  obtain k i j where "x = (k, i)" "y = (k, j)" "core i = core j" using s by (cases x; cases y) (auto simp: same_doc_def)
  then show "is_version t (dm_source_system e) (dm_source_id e) g x = (own_row t (fst (fst y))
      \<and> dm_source_system (snd y) = dm_source_system f \<and> dm_source_id (snd y) = dm_source_id f \<and> acl_filter (snd y) g)"
    using core_eqD(3,4)[OF assms(3)] core_eqD(3,4)[of i j] visible_core[of i j g]
    by (cases k) (auto simp: is_version_def own_row_clean[OF assms(2)])
qed (auto dest: same_docD intro: core_changes)

lemma update_agree:
  assumes m: "stores_match idf U M P" and ok: "pg_ok P" and st: "strip t = t"
    and pg: "pg_update_document P now t d g a n = Inr ((b, row), P')"
    and mem: "update_document M now t d g a n = ((b', row'), M')"
  shows "b' = b" "map_option core row' = map_option core row" "stores_match idf U M' P'"
proof -
  have ag: "agree (ms_documents M) (pg_docs P)" using m by (simp add: stores_match_def)
  have find: "List.find (\<lambda>x. own_row t (fst (fst x)) \<and> dm_document_id (snd x) = d \<and> acl_filter (snd x) g) (pg_docs P) =
      (case map_of (pg_docs P) (t, d) of None \<Rightarrow> None | Some n \<Rightarrow> if acl_filter n g then Some ((t, d), n) else None)"
    unfolding find_filter own_row_clean[OF st] pg_ok_rows[OF ok] by (auto split: option.splits)
  have "b' = b \<and> map_option core row' = map_option core row \<and> stores_match idf U M' P'"
    using ag
  proof (cases rule: agree_lookup[where k = "(t, d)"])
    case none
    then show ?thesis using pg mem m find by (auto simp: pg_update_document_def update_document_def bind_res_def split: sum.splits)
  next
    case (both e f)
    show ?thesis
    proof (cases "acl_filter f g")
      case False
      then show ?thesis using pg mem m find both visible_core[OF both(3), of g]
        by (auto simp: pg_update_document_def update_document_def bind_res_def split: sum.splits)
    next
      case True
      let ?P1 = "P\<lparr>pg_docs := update_where (\<lambda>y. own_row t (fst (fst y)) \<and> dm_source_system (snd y) = dm_source_system f
          \<and> dm_source_id (snd y) = dm_source_id f \<and> acl_filter (snd y) g) (pg_apply_changes now a n) (pg_docs P)\<rparr>"
      let ?M1 = "M\<lparr>ms_documents := update_where (is_version t (dm_source_system e) (dm_source_id e) g) (apply_changes now a n)
          (ms_documents M)\<rparr>"
      have P1: "P' = ?P1" "b" "pg_get_document ?P1 t d g = Inr row"
        using pg find both(2) True by (auto simp: pg_update_document_def Let_def bind_res_def split: sum.splits)
      have M1: "M' = ?M1" "b'" "row' = get_document ?M1 t d g"
        using mem both(1) visible_core[OF both(3), of g] True by (auto simp: update_document_def Let_def)
      have ag1: "agree (ms_documents ?M1) (pg_docs ?P1)" using changes_agree[OF ag st both(3)] by simp
      have "pg_ok ?P1" using ok by (rule pg_ok_update) (simp add: pg_apply_changes_def)
      from get_agree[OF this ag1 st P1(3)] have "map_option core row' = map_option core row" unfolding M1(3) by simp
      moreover have "identified idf U (ms_documents ?M1)"
        by (simp, rule identified_update)
          (use m in \<open>auto simp: stores_match_def meta_ident_def apply_changes_def Let_def split: option.splits\<close>)
      ultimately show ?thesis using P1 M1 ag1 m by (simp add: stores_match_def)
    qed
  qed
  then show "b' = b" "map_option core row' = map_option core row" "stores_match idf U M' P'" by auto
qed

lemma delete_agree:
  assumes m: "stores_match idf U M P" and ok: "store_ok M" "pg_ok P" and st: "strip t = t" "strip d = d"
    and pg: "pg_delete_document P t d g = Inr (b, P')"
  shows "fst (delete_document M t d g) = b" "stores_match idf U (snd (delete_document M t d g)) P'"
proof -
  have ag: "agree (ms_documents M) (pg_docs P)" using m by (simp add: stores_match_def)
  let ?doomed = "\<lambda>x. fst (fst x) = t \<and> dm_document_id (snd x) = d \<and> acl_filter (snd x) g"
  let ?gone = "map fst (filter ?doomed (pg_docs P))"
  have P': "b = (length ?gone = 1)" "P' = \<lparr>pg_docs = filter (\<lambda>x. \<not> ?doomed x) (pg_docs P),
      pg_chunks = filter (\<lambda>r. chunk_key (pc_chunk r) \<notin> set ?gone) (pg_chunks P)\<rparr>"
    using pg by (auto simp: pg_delete_document_def st chunk_key_def Let_def split: if_splits)
  have ids: "dm_document_id (snd y) = snd (fst y)" if "y \<in> set (pg_docs P)" for y
    using ok(2) that by (auto simp: pg_ok_def list_all_iff)
  have "fst (delete_document M t d g) = b \<and> stores_match idf U (snd (delete_document M t d g)) P'"
  proof (cases "?gone = []")
    case True
    have "pg_docs P' = pg_docs P" "pg_chunks P' = pg_chunks P"
      using True unfolding P'(2) by (auto simp: filter_empty_conv filter_id_conv)
    moreover have "delete_document M t d g = (False, M)"
      using ag
    proof (cases rule: agree_lookup[where k = "(t, d)"])
      case (both e f)
      then show ?thesis using True pg_ok_rows[OF ok(2), of t d g] visible_core[OF both(3), of g]
        by (auto simp: delete_document_def split: if_splits)
    qed (simp add: delete_document_def)
    ultimately show ?thesis using m True P'(1) by (simp add: stores_match_def)
  next
    case False
    then obtain f where f: "map_of (pg_docs P) (t, d) = Some f" "acl_filter f g" "?gone = [(t, d)]"
      using pg_ok_rows[OF ok(2), of t d g] by (auto split: option.splits if_splits)
    then obtain e where e: "map_of (ms_documents M) (t, d) = Some e" "core e = core f"
      by (cases rule: agree_lookup[OF ag, of "(t, d)"]) auto
    have del: "delete_document M t d g = (True, \<lparr>ms_documents = filter (\<lambda>x. fst x \<noteq> (t, d)) (ms_documents M),
        ms_chunks = AList.delete (t, d) (ms_chunks M)\<rparr>)"
      using e f(2) visible_core[OF e(2), of g] by (auto simp: delete_document_def AList.delete_eq comp_def case_prod_unfold intro!: filter_cong)
    have doomed: "?doomed y = (fst y = (t, d))" if "y \<in> set (pg_docs P)" for y
    proof
      assume "?doomed y"
      then show "fst y = (t, d)" using ids[OF that] by (cases "fst y") auto
    next
      assume "fst y = (t, d)"
      moreover then have "snd y = f" using f(1) ok(2) that by (cases y) (auto simp: pg_ok_def)
      ultimately show "?doomed y" using ids[OF that] f(2) by (simp add: fst_def)
    qed
    have "agree (filter (\<lambda>x. fst x \<noteq> (t, d)) (ms_documents M)) (filter (\<lambda>x. \<not> ?doomed x) (pg_docs P))"
      by (rule agree_filter[OF ag]) (use doomed in \<open>auto dest: same_docD\<close>)
    moreover have "identified idf U (filter (\<lambda>x. fst x \<noteq> (t, d)) (ms_documents M))"
      using m by (auto simp: stores_match_def identified_def list_all_iff)
    moreover have "rows_of (pg_chunks P') k = stored_chunks (AList.delete (t, d) (ms_chunks M)) k" for k
    proof -
      have "rows_of (pg_chunks P') k = (if k = (t, d) then [] else rows_of (pg_chunks P) k)"
        unfolding P'(2) f(3) rows_of_def pg_store.simps filter_map by (auto simp: filter_empty_conv comp_def intro: arg_cong[where f = "map pc_chunk"] filter_cong)
      then show ?thesis using m by (auto simp: stores_match_def stored_chunks_def delete_conv simp del: split_paired_All)
    qed
    ultimately show ?thesis unfolding del using P' f(3) by (simp add: stores_match_def)
  qed
  then show "fst (delete_document M t d g) = b" "stores_match idf U (snd (delete_document M t d g)) P'" by auto
qed

section \<open>What is read\<close>

lemma map_insort_key: "map f (insort_key (\<lambda>x. g (f x)) x xs) = insort_key g (f x) (map f xs)"
  by (induction xs) auto

lemma map_sort_key: "map f (sort_key (\<lambda>x. g (f x)) xs) = sort_key g (map f xs)"
  by (induction xs) (auto simp: map_insort_key)

lemma core_orders: "(\<lambda>m. doc_order (core m)) = doc_order" "(\<lambda>m. pg_doc_order (core m)) = pg_doc_order"
  by (auto simp: doc_order_def pg_doc_order_def)

lemma created_core: "map dm_created_at (map core ms) = map dm_created_at ms"
  by (induction ms) auto

lemma sorted_core:
  "map core (sort_key doc_order xs) = sort_key doc_order (map core xs)"
  "map core (sort_key pg_doc_order xs) = sort_key pg_doc_order (map core xs)"
  using map_sort_key[of core doc_order xs] map_sort_key[of core pg_doc_order xs] by (simp_all only: core_orders)

text \<open>
  Newest first; of documents created at the same time the memory store lists the greater id first and
  PostgreSQL the smaller one. Without such ties the order is the same.
\<close>

lemma newest_first:
  "sorted (map doc_order ms) \<Longrightarrow> distinct (map dm_created_at ms) \<Longrightarrow> sorted (map pg_doc_order (rev ms))"
proof (induction ms)
  case (Cons m ms)
  have "pg_doc_order n \<le> pg_doc_order m" if "n \<in> set ms" for n
  proof -
    have "doc_order m \<le> doc_order n" "dm_created_at n \<noteq> dm_created_at m"
      using Cons.prems that by (auto simp: image_iff)
    then show ?thesis by (auto simp: doc_order_def pg_doc_order_def)
  qed
  with Cons show ?case by (simp add: sorted_append)
qed simp

lemma filter_own_key: "distinct (map f xs) \<Longrightarrow> k \<in> set xs \<Longrightarrow> filter (\<lambda>x. f k = f x) xs = [k]"
  by (induction xs) (auto simp: filter_empty_conv image_iff)

lemma orders_agree:
  assumes "distinct (map dm_created_at ms)"
  shows "rev (sort_key doc_order (rev ms)) = sort_key pg_doc_order ms"
proof (rule properties_for_sort_key[symmetric])
  let ?s = "sort_key doc_order (rev ms)"
  have d: "distinct (map dm_created_at ?s)" using assms
    by (metis distinct_rev mset_eq_imp_distinct_iff mset_map mset_sort rev_map)
  show "sorted (map pg_doc_order (rev ?s))" by (rule newest_first[OF sorted_sort_key d])
  have p: "distinct (map pg_doc_order xs)" if "distinct (map dm_created_at xs)" for xs
    using that by (auto simp: distinct_map inj_on_def pg_doc_order_def)
  fix k assume k: "k \<in> set (rev ?s)"
  have "distinct (map pg_doc_order (rev ?s))" using d by (intro p) (simp add: rev_map[symmetric])
  then have "filter (\<lambda>x. pg_doc_order k = pg_doc_order x) (rev ?s) = [k]" using k by (rule filter_own_key)
  moreover have "filter (\<lambda>x. pg_doc_order k = pg_doc_order x) ms = [k]"
    using p[OF assms] k by (intro filter_own_key) auto
  ultimately show "filter (\<lambda>x. pg_doc_order k = pg_doc_order x) (rev ?s) = filter (\<lambda>x. pg_doc_order k = pg_doc_order x) ms" by simp
qed simp

lemma list_agree:
  assumes "agree (ms_documents M) (pg_docs P)" "strip t = t" "pg_list_documents P t g b = Inr rows"
  shows "mset (map core rows) = mset (map core (list_documents M t g b))"
    "distinct (map dm_created_at rows) \<Longrightarrow> map core rows = map core (list_documents M t g b)"
proof -
  let ?ms = "map snd (filter (\<lambda>((owner, _), m). owner = t \<and> visible m g \<and> (b \<or> dm_status m = Ready)) (ms_documents M))"
  let ?ps = "map snd (filter (\<lambda>x. own_row t (fst (fst x)) \<and> acl_filter (snd x) g \<and> (b \<or> dm_status (snd x) = Ready)) (pg_docs P))"
  have "agree (filter (\<lambda>((owner, _), m). owner = t \<and> visible m g \<and> (b \<or> dm_status m = Ready)) (ms_documents M))
    (filter (\<lambda>x. own_row t (fst (fst x)) \<and> acl_filter (snd x) g \<and> (b \<or> dm_status (snd x) = Ready)) (pg_docs P))"
  proof (rule agree_filter[OF assms(1)])
    fix x y assume s: "same_doc x y"
    obtain u d i j where "x = ((u, d), i)" "y = ((u, d), j)" "core i = core j"
      using s by (metis prod.collapse same_docD)
    then show "(\<lambda>((owner, _), m). owner = t \<and> visible m g \<and> (b \<or> dm_status m = Ready)) x =
      (own_row t (fst (fst y)) \<and> acl_filter (snd y) g \<and> (b \<or> dm_status (snd y) = Ready))"
      using core_eqD(6)[of i j] visible_core[of i j g] by (auto simp: own_row_clean[OF assms(2)])
  qed
  then have "map (core \<circ> snd) (filter (\<lambda>((owner, _), m). owner = t \<and> visible m g \<and> (b \<or> dm_status m = Ready)) (ms_documents M)) =
      map (core \<circ> snd) (filter (\<lambda>x. own_row t (fst (fst x)) \<and> acl_filter (snd x) g \<and> (b \<or> dm_status (snd x) = Ready)) (pg_docs P))"
    by (rule agree_map) (auto dest: same_docD)
  then have eq: "map core ?ms = map core ?ps" by simp
  have mem: "map core (list_documents M t g b) = rev (sort_key doc_order (rev (map core ?ms)))"
    by (simp only: list_documents_def rev_map[symmetric] sorted_core)
  have rows: "rows = sort_key pg_doc_order ?ps"
    using assms(3) by (auto simp: pg_list_documents_def select_documents_def bind_res_def split: sum.splits)
  have pg: "map core rows = sort_key pg_doc_order (map core ?ps)"
    by (simp only: rows sorted_core)
  show "mset (map core rows) = mset (map core (list_documents M t g b))"
    unfolding mem pg eq by simp
  show "map core rows = map core (list_documents M t g b)" if d: "distinct (map dm_created_at rows)"
  proof -
  have "mset (map dm_created_at rows) = mset (map dm_created_at (map core ?ps))"
    unfolding created_core rows by (simp only: mset_map mset_sort)
  from mset_eq_imp_distinct_iff[OF this] have "distinct (map dm_created_at (map core ?ps))" using d by simp
  then show ?thesis
    unfolding mem pg eq by (rule orders_agree[symmetric])
  qed
qed

lemma renamed_source: "renamed s c = c\<lparr>chunk_source := s\<rparr>"
  by (cases c) (simp add: renamed_def)

lemma readable_docs_iff:
  assumes "store_ok M"
  shows "(k, m) \<in> set (readable_docs M p) \<longleftrightarrow> map_of (ms_documents M) k = Some m \<and> fst k = p_tenant_id p
    \<and> dm_status m = Ready \<and> visible m (caller_groups p)"
  using assms by (auto simp: readable_docs_def store_ok_def acl)

lemma simulates_rows: "simulates idf U M P \<Longrightarrow> rows_of (pg_chunks P) k = stored_chunks (ms_chunks M) k"
  by (simp add: simulates_def del: split_paired_All)

lemma memory_reads_in_postgres:
  assumes "simulates idf U M P" "strip (p_tenant_id p) = p_tenant_id p" "c \<in> set (readable_list M p)"
  shows "c \<in> set (pg_readable P p)"
proof -
  have ok: "store_ok M" and ag: "agree (ms_documents M) (pg_docs P)" using assms(1) by (simp_all add: simulates_def)
  obtain k m cs c0 where c: "(k, m) \<in> set (readable_docs M p)" "map_of (ms_chunks M) k = Some cs"
    "c0 \<in> set cs" "c = renamed (dm_source m) c0" using readable_mem[OF ok assms(3)] by blast
  from c(2,3) have "c0 \<in> set (rows_of (pg_chunks P) k)" by (simp add: simulates_rows[OF assms(1)] stored_chunks_def)
  then obtain r where r: "r \<in> set (pg_chunks P)" "pc_chunk r = c0" "chunk_key c0 = k" by (auto simp: rows_of_def)
  from c(1) obtain n where n: "map_of (pg_docs P) k = Some n" "core m = core n"
    by (cases rule: agree_lookup[OF ag, of k]) (auto simp: readable_docs_iff[OF ok])
  have "readable_row P (p_tenant_id p) (caller_groups p) r = Some (r, n)"
    using c(1) n r(2,3) core_eqD(6)[OF n(2)] visible_core[OF n(2)]
    by (auto simp: readable_row_def readable_docs_iff[OF ok] chunk_key_def own_row_clean[OF assms(2)])
  with r(1) have "(r, n) \<in> set (readable_rows P (p_tenant_id p) (caller_groups p))"
    by (force simp: readable_rows_def List.map_filter_def)
  then show ?thesis using c(4) r(2) core_eqD(2)[OF n(2)] by (force simp: pg_readable_def joined_def renamed_source)
qed

lemma postgres_reads_in_memory:
  assumes "simulates idf U M P" "c \<in> set (pg_readable P p)"
  shows "c \<in> set (readable_list M p)"
proof -
  have ok: "store_ok M" and ag: "agree (ms_documents M) (pg_docs P)" using assms(1) by (simp_all add: simulates_def)
  obtain r n where r: "(r, n) \<in> set (readable_rows P (p_tenant_id p) (caller_groups p))"
    "c = renamed (dm_source n) (pc_chunk r)" using assms(2) by (auto simp: pg_readable_def joined_def renamed_source)
  let ?k = "chunk_key (pc_chunk r)"
  note row = readable_rows_mem[OF r(1)]
  have k: "?k = (p_tenant_id p, chunk_document_id (pc_chunk r))" using row(2) by (simp add: chunk_key_def)
  obtain m where m: "map_of (ms_documents M) ?k = Some m" "core m = core n"
    using row(3) unfolding k by (cases rule: agree_lookup[OF ag, of "(p_tenant_id p, chunk_document_id (pc_chunk r))"]) auto
  have "pc_chunk r \<in> set (stored_chunks (ms_chunks M) ?k)"
    using row(1) unfolding simulates_rows[OF assms(1), symmetric] by (auto simp: rows_of_def)
  then obtain cs where cs: "map_of (ms_chunks M) ?k = Some cs" "pc_chunk r \<in> set cs"
    by (cases "map_of (ms_chunks M) ?k") (auto simp: stored_chunks_def)
  have "(?k, m) \<in> set (readable_docs M p)"
    using m row(4,5) core_eqD(6)[OF m(2)] visible_core[OF m(2)] k by (simp add: readable_docs_iff[OF ok])
  from readable_memI[OF ok this cs] show ?thesis using r(2) core_eqD(2)[OF m(2)] by simp
qed

lemma readable_agree:
  assumes "simulates idf U M P" "strip (p_tenant_id p) = p_tenant_id p"
  shows "set (readable_list M p) = set (pg_readable P p)"
  using memory_reads_in_postgres[OF assms] postgres_reads_in_memory[OF assms(1)] by blast

section \<open>Runs\<close>

lemma idents_Cons: "idents (x # xs) = idents [x] \<union> idents xs"
  by (cases x) auto

lemma step_agree:
  assumes sim: "simulates idf U M P" and inj: "inj_on idf U" and x: "api_op idf x" "idents [x] \<subseteq> U" "one_acl M x"
    and ran: "\<And>e. pg_reply P x \<noteq> Refused e"
  shows "plain (mem_reply M x) = plain (pg_reply P x)" "simulates idf U (mem_step M x) (pg_step P x)"
proof -
  have ok: "store_ok M" "pg_ok P" and m: "stores_match idf U M P" using sim by (auto simp: simulates_iff)
  have op: "op_ok x" "strip (op_tenant x) = op_tenant x" using x(1) by (auto simp: api_op_def op_ok_def)
  have "plain (mem_reply M x) = plain (pg_reply P x) \<and> stores_match idf U (mem_step M x) (pg_step P x)"
  proof (cases x)
    case (OpPersist now r em a g ct source)
    then obtain pr P' where pg: "pg_persist P now r em MODEL_NAME a g ct source = Inr (pr, P')"
      using ran by (cases "pg_persist P now r em MODEL_NAME a g ct source") (auto simp: reply_of_def)
    obtain M' where "persist M now r a g ct source = Inr (pr, M')" "stores_match idf U M' P'"
      using persist_agree[OF sim inj OpPersist x(1) _ x(3) pg] x(2) OpPersist by auto
    with pg OpPersist show ?thesis by (simp add: reply_of_def rolled_back_def)
  next
    case (OpMarkChecked now t d)
    then obtain P' where pg: "pg_mark_checked P now t d = Inr P'"
      using ran by (cases "pg_mark_checked P now t d") (auto simp: reply_of_def)
    from mark_agree[OF m ok(2) _ pg] op(2) OpMarkChecked pg show ?thesis by (simp add: reply_of_def)
  next
    case (OpUpdate now t d g a n)
    then obtain b row P' where pg: "pg_update_document P now t d g a n = Inr ((b, row), P')"
      using ran by (cases "pg_update_document P now t d g a n") (auto simp: reply_of_def)
    obtain b' row' M' where mem: "update_document M now t d g a n = ((b', row'), M')" by (metis surj_pair)
    from update_agree[OF m ok(2) _ pg mem] op(2) OpUpdate pg mem show ?thesis by (simp add: reply_of_def rolled_back_def)
  next
    case (OpDelete t d g)
    then obtain b P' where pg: "pg_delete_document P t d g = Inr (b, P')"
      using ran by (cases "pg_delete_document P t d g") (auto simp: reply_of_def)
    have "strip d = d" using x(1) OpDelete by (simp add: api_op_def)
    from delete_agree[OF m ok _ this pg] op(2) OpDelete pg show ?thesis by (simp add: reply_of_def rolled_back_def)
  qed
  moreover have "store_ok (mem_step M x)" "pg_ok (pg_step P x)" using mem_step_ok[OF ok(1) op(1)] pg_step_ok[OF ok(2) op(1)] .
  ultimately show "plain (mem_reply M x) = plain (pg_reply P x)" "simulates idf U (mem_step M x) (pg_step P x)"
    by (auto simp: simulates_iff)
qed

lemma run_agree:
  assumes "inj_on idf U"
  shows "simulates idf U M P \<Longrightarrow> list_all (api_op idf) xs \<Longrightarrow> idents xs \<subseteq> U \<Longrightarrow> acls_clear M xs \<Longrightarrow>
    \<forall>e. Refused e \<notin> set (replies pg_reply pg_step P xs) \<Longrightarrow>
    map plain (replies mem_reply mem_step M xs) = map plain (replies pg_reply pg_step P xs)
    \<and> simulates idf U (foldl mem_step M xs) (foldl pg_step P xs)"
proof (induction xs arbitrary: M P)
  case (Cons x xs)
  have "idents [x] \<subseteq> U" "idents xs \<subseteq> U" using Cons.prems(3) unfolding idents_Cons[of x xs] by auto
  moreover have "\<And>e. pg_reply P x \<noteq> Refused e" using Cons.prems(5) by auto
  ultimately have "plain (mem_reply M x) = plain (pg_reply P x)" "simulates idf U (mem_step M x) (pg_step P x)"
    using step_agree[OF Cons.prems(1) assms, of x] Cons.prems(2,4) by auto
  with Cons.IH[of "mem_step M x" "pg_step P x"] \<open>idents xs \<subseteq> U\<close> Cons.prems(2,4,5) show ?case by auto
qed simp

lemma simulates_empty: "simulates idf U empty_store empty_pg"
  by (simp add: simulates_iff stores_match_def) (simp add: empty_store_def empty_pg_def agree_def identified_def rows_of_def stored_chunks_def)


text \<open>A run on which the theorem is tried: an upload, a new name, the same upload again.\<close>

definition sample_ops :: "store_op list" where
  "sample_ops = [pg_upload ''a'' ''d1'' (Some [''staff'']), OpUpdate 2 ''a'' ''d1'' [''staff''] None (Some ''new.txt''),
     pg_upload ''a'' ''d1'' None]"

abbreviation content_id :: "string \<times> string \<times> string \<Rightarrow> string" where
  "content_id \<equiv> (\<lambda>(_, _, sha). sha)"

lemmas run_simps = pg_upload_def sample_result_def upload_chunk_def py_str is_space_def bind_res_def update_where_def
  own_row_def same_source_def next_version_def highest_version.simps Let_def

lemma pg_sample:
  "pg_run [pg_upload ''a'' ''d1'' (Some [''staff'']), OpUpdate 2 ''a'' ''d1'' [''staff''] None (Some ''new.txt'')]
   = \<lparr>pg_docs = [((''a'', ''d1''), sample_meta\<lparr>dm_source := ''new.txt'', dm_updated_at := 2\<rparr>)],
      pg_chunks = [\<lparr>pc_chunk = upload_chunk ''a'' ''d1'', pc_embedding = Some (replicate DIMENSIONS 0), pc_model = Some MODEL_NAME\<rparr>]\<rparr>"
  using sample_database
  by (simp add: pg_update_document_def pg_get_document_def select_documents_def set_tenant_def rolled_back_def
      pg_apply_changes_def sample_meta_def new_document_def acl_filter_def run_simps)

lemma sample_ops_conditions:
  "list_all (api_op content_id) sample_ops" "inj_on content_id (idents sample_ops)" "acls_clear empty_store sample_ops"
  "\<forall>e. Refused e \<notin> set (replies pg_reply pg_step empty_pg sample_ops)"
proof -
  show "list_all (api_op content_id) sample_ops"
    by (simp add: sample_ops_def api_op_def op_ok_def result_ok_def ident_def run_simps)
  show "inj_on content_id (idents sample_ops)"
    by (simp add: sample_ops_def ident_def source_of_def run_simps)
  show "acls_clear empty_store sample_ops"
    by (simp add: sample_ops_def empty_store_def versions_def is_version_def result_key_def source_of_def upload_ref_def
        persist_def update_document_def visible_def apply_changes_def supersede_def is_sibling_def run_simps)
  have "replies pg_reply pg_step empty_pg sample_ops =
      [pg_reply empty_pg (sample_ops ! 0), pg_reply (pg_run (take 1 sample_ops)) (sample_ops ! 1),
       pg_reply (pg_run (take 2 sample_ops)) (sample_ops ! 2)]"
    by (simp add: sample_ops_def)
  moreover have "\<exists>pr. pg_reply empty_pg (sample_ops ! 0) = Stored pr"
    by (simp add: sample_ops_def reply_of_def pg_persist_def check_embeddings_def empty_pg_def set_tenant_def insert_chunk_def
        finish_persist_def pg_sibling_def new_document_def run_simps)
  moreover have "\<exists>m. pg_reply (pg_run (take 1 sample_ops)) (sample_ops ! 1) = Updated True m"
    using sample_database
    by (simp add: sample_ops_def reply_of_def pg_update_document_def pg_get_document_def select_documents_def set_tenant_def
      pg_apply_changes_def sample_meta_def new_document_def acl_filter_def run_simps)
  moreover have "\<exists>pr. pg_reply (pg_run (take 2 sample_ops)) (sample_ops ! 2) = Stored pr"
    using pg_sample
    by (simp add: sample_ops_def reply_of_def pg_persist_def check_embeddings_def set_tenant_def conflicts_def
        source_of_def sample_meta_def new_document_def run_simps)
  ultimately show "\<forall>e. Refused e \<notin> set (replies pg_reply pg_step empty_pg sample_ops)" by auto
qed


section \<open>Where the stores differ\<close>

definition upload_as :: "string \<Rightarrow> string list option \<Rightarrow> string list \<Rightarrow> store_op" where
  "upload_as d allowed groups = OpPersist 1 \<lparr>ir_document_id = d, ir_content_sha256 = d,
     ir_chunks = [(upload_chunk ''a'' d)\<lparr>chunk_id := d\<rparr>]\<rparr> [replicate DIMENSIONS 0] allowed groups ''text/plain'' None"

text \<open>
  Two groups that do not see each other's versions each keep a current version of one source; the second group
  has replaced its own. An upload by a member of both that inherits its ACL is restricted to the first group in
  the memory store and to the second one in PostgreSQL.
\<close>

definition forked_source :: "store_op list" where
  "forked_source = [upload_as ''d1'' (Some [''eng'']) [''eng''], upload_as ''d2'' (Some [''hr'']) [''hr''],
     upload_as ''d3'' (Some [''hr'']) [''hr''], upload_as ''d4'' None [''eng'', ''hr'']]"

lemma memory_inherits_oldest:
  "map_option dm_allowed_groups (get_document (mem_run forked_source) ''a'' ''d4'' [''eng'', ''hr'']) = Some [''eng'']"
  by (simp add: forked_source_def upload_as_def empty_store_def persist_def source_of_def upload_ref_def versions_def
      is_version_def visible_def supersede_def is_sibling_def get_document_def run_simps)

lemma postgres_inherits_highest:
  "\<exists>row. pg_get_document (pg_run forked_source) ''a'' ''d4'' [''eng'', ''hr''] = Inr row
     \<and> map_option dm_allowed_groups row = Some [''hr'']"
  by (simp add: forked_source_def upload_as_def empty_pg_def pg_persist_def check_embeddings_def set_tenant_def source_of_def
      upload_ref_def conflicts_def insert_chunk_def finish_persist_def pg_sibling_def new_document_def acl_filter_def
      inherited_groups_def rolled_back_def pg_get_document_def select_documents_def run_simps)

theorem stores_inherit_differently:
  "map_option dm_allowed_groups (get_document (mem_run forked_source) ''a'' ''d4'' [''eng'', ''hr'']) = Some [''eng'']
   \<and> (\<exists>row. pg_get_document (pg_run forked_source) ''a'' ''d4'' [''eng'', ''hr''] = Inr row
     \<and> map_option dm_allowed_groups row = Some [''hr''])"
  using memory_inherits_oldest postgres_inherits_highest by simp

text \<open>Two documents created at the same time are listed in opposite orders.\<close>

definition tied :: "store_op list" where
  "tied = [upload_as ''d1'' (Some [''eng'']) [''eng''], upload_as ''d2'' (Some [''eng'']) [''eng'']]"

lemma memory_lists_ties: "map dm_document_id (list_documents (mem_run tied) ''a'' [''eng''] True) = [''d2'', ''d1'']"
  by (simp add: tied_def upload_as_def empty_store_def persist_def source_of_def upload_ref_def versions_def
      is_version_def visible_def supersede_def is_sibling_def list_documents_def doc_order_def less_eq_char_def less_char_def run_simps)

theorem ties_listed_differently:
  "map dm_document_id (list_documents (mem_run tied) ''a'' [''eng''] True) = [''d2'', ''d1'']
   \<and> (\<exists>rows. pg_list_documents (pg_run tied) ''a'' [''eng''] True = Inr rows \<and> map dm_document_id rows = [''d1'', ''d2''])"
proof -
  have "\<exists>rows. pg_list_documents (pg_run tied) ''a'' [''eng''] True = Inr rows \<and> map dm_document_id rows = [''d1'', ''d2'']"
    by (simp add: tied_def upload_as_def empty_pg_def pg_persist_def check_embeddings_def set_tenant_def source_of_def
        upload_ref_def conflicts_def insert_chunk_def finish_persist_def pg_sibling_def new_document_def acl_filter_def
        rolled_back_def pg_list_documents_def select_documents_def pg_doc_order_def less_eq_char_def less_char_def run_simps)
  with memory_lists_ties show ?thesis by simp
qed

end
