(* ===== verification/Reranker.thy ===== *)
theory Reranker
  imports Postgres_Store
begin

text \<open>
  The reranker (\<open>reranker.py\<close>): the lazily imported cross-encoder, its fallback, and the ranking. Whether
  the optional package can be imported, what building the model does and what it predicts are parameters.
  A score is a real, so the sigmoid lies strictly between 0 and 1.
\<close>

definition sigmoid :: "real \<Rightarrow> real" where
  "sigmoid v = (if v \<ge> 0 then 1 / (1 + exp (- v)) else exp v / (1 + exp v))"

record reranker =
  rr_model_name :: string
  rr_loaded :: bool
  rr_unavailable :: bool

definition mk_reranker :: "string \<Rightarrow> reranker" where
  "mk_reranker model_name = \<lparr>rr_model_name = model_name, rr_loaded = False, rr_unavailable = False\<rparr>"

text \<open>
  \<open>_load\<close>: \<open>imported\<close> is the outcome of the import, \<open>None\<close> for \<open>ImportError\<close>, otherwise the constructor of
  the model, which may raise. The result says whether there is a model.
\<close>

definition rr_load :: "(string \<Rightarrow> unit res) option \<Rightarrow> reranker \<Rightarrow> (bool \<times> reranker) res" where
  "rr_load imported R =
     (if \<not> rr_loaded R \<and> \<not> rr_unavailable R
      then case imported of
          None \<Rightarrow> Inr (False, R\<lparr>rr_unavailable := True\<rparr>)
        | Some build \<Rightarrow> bind_res (build (rr_model_name R)) (\<lambda>_. Inr (True, R\<lparr>rr_loaded := True\<rparr>))
      else Inr (rr_loaded R, R))"

definition fallback_score :: "string \<Rightarrow> 'a search_row_scheme \<Rightarrow> real" where
  "fallback_score question row =
     (let overlap = overlap_of question (chunk_text (sr_chunk row)); base = min (max (sr_score row) 0) 1 in
      9/10 * base + 1/10 * overlap)"

definition scored :: "'a search_row_scheme list \<Rightarrow> real list \<Rightarrow> 'a search_row_scheme list res" where
  "scored rows logits =
     (if length rows \<noteq> length logits then Inl (ValueError ''zip() arguments have different lengths'')
      else Inr (map2 (\<lambda>row v. row\<lparr>sr_score := sigmoid v\<rparr>) rows logits))"

definition rerank :: "(string \<Rightarrow> unit res) option \<Rightarrow> ((string \<times> string) list \<Rightarrow> real list res) \<Rightarrow> reranker \<Rightarrow> string \<Rightarrow>
    'a search_row_scheme list \<Rightarrow> ('a search_row_scheme list \<times> reranker) res" where
  "rerank imported predict R question rows =
     (if rows = [] then Inr ([], R)
      else bind_res (rr_load imported R) (\<lambda>(model, R').
        bind_res
          (if model
           then bind_res (predict (map (\<lambda>row. (question, chunk_text (sr_chunk row))) rows)) (scored rows)
           else Inr (map (\<lambda>row. row\<lparr>sr_score := fallback_score question row\<rparr>) rows))
          (\<lambda>ranked. Inr (sort_key (\<lambda>row. - sr_score row) ranked, R'))))"

section \<open>Bounds and ordering\<close>

lemma sigmoid_bounds: "0 < sigmoid v \<and> sigmoid v < 1"
proof -
  have "0 < exp v" "0 < exp (- v)" by simp_all
  then have "0 < 1 + exp v" "0 < 1 + exp (- v)" by linarith+
  then show ?thesis by (simp add: sigmoid_def divide_less_eq)
qed

lemma sigmoid_mono: "v < w \<Longrightarrow> sigmoid v < sigmoid w"
proof -
  have half: "sigmoid u = 1 / (1 + exp (- u))" for u
  proof -
    have "0 < 1 + exp u" "0 < 1 + exp (- u)" using exp_gt_zero[of u] exp_gt_zero[of "- u"] by linarith+
    then have "exp u / (1 + exp u) = 1 / (1 + exp (- u))"
      using exp_add[of u "- u"] by (simp add: field_simps)
    then show ?thesis by (simp add: sigmoid_def)
  qed
  assume "v < w"
  then have "exp (- w) < exp (- v)" by simp
  moreover have "0 < exp (- w)" by simp
  ultimately show ?thesis unfolding half by (intro divide_strict_left_mono) (auto intro!: mult_pos_pos add_pos_pos)
qed

lemma fallback_bounds: "0 \<le> fallback_score q row \<and> fallback_score q row \<le> 1"
proof -
  have "0 \<le> min (max (sr_score row) 0) 1" "min (max (sr_score row) 0) 1 \<le> 1" by simp_all
  with overlap_bounds[of q "chunk_text (sr_chunk row)"] show ?thesis unfolding fallback_score_def Let_def by linarith
qed

text \<open>Reranking changes nothing but the scores.\<close>

definition unscored :: "'a search_row_scheme \<Rightarrow> 'a search_row_scheme" where
  "unscored row = row\<lparr>sr_score := 0\<rparr>"

lemma map2_scored:
  "length rows = length logits \<Longrightarrow> map unscored (map2 (\<lambda>row v. row\<lparr>sr_score := sigmoid v\<rparr>) rows logits) = map unscored rows"
  by (induction rows logits rule: list_induct2) (simp_all add: unscored_def)

definition sound_ranking :: "'a search_row_scheme list \<Rightarrow> 'a search_row_scheme list \<Rightarrow> bool" where
  "sound_ranking rows ranked = (map unscored ranked = map unscored rows \<and> (\<forall>row\<in>set ranked. 0 \<le> sr_score row \<and> sr_score row \<le> 1))"

lemma scored_Inr: "scored rows logits = Inr ranked \<Longrightarrow> sound_ranking rows ranked"
  using sigmoid_bounds map2_scored[of rows logits]
  by (auto simp: scored_def sound_ranking_def less_imp_le dest!: in_set_zipE split: if_splits)

lemma fallback_sound: "sound_ranking rows (map (\<lambda>row. row\<lparr>sr_score := fallback_score q row\<rparr>) rows)"
  using fallback_bounds by (auto simp: sound_ranking_def unscored_def)

lemma rerank_Inr:
  assumes "rerank imported predict R q rows = Inr (out, R')"
  shows "\<exists>ranked. out = sort_key (\<lambda>row. - sr_score row) ranked \<and> sound_ranking rows ranked"
proof (cases "rows = []")
  case True
  with assms show ?thesis by (simp add: rerank_def sound_ranking_def)
next
  case False
  then obtain model ranked where "out = sort_key (\<lambda>row. - sr_score row) ranked"
    and "(if model then bind_res (predict (map (\<lambda>row. (q, chunk_text (sr_chunk row))) rows)) (scored rows)
        else Inr (map (\<lambda>row. row\<lparr>sr_score := fallback_score q row\<rparr>) rows)) = Inr ranked"
    using assms unfolding rerank_def by (simp only: if_False bind_res_Inr_iff split_paired_Ex split sum.inject prod.inject) blast
  moreover from this(2) have "sound_ranking rows ranked"
    using fallback_sound by (auto intro: scored_Inr split: if_splits)
  ultimately show ?thesis by blast
qed

text \<open>Reranking is a ranking: whatever the model predicts, the result holds the given rows, each once and
  with nothing but its score changed, in order of falling score, and every score lies between 0 and 1, so
  the evidence threshold means the same on both paths.\<close>

theorem rerank_ranks:
  fixes rows :: "'a search_row_scheme list"
  assumes "rerank imported predict R q rows = Inr (out, R')"
  shows "mset (map unscored out) = mset (map unscored rows) \<and> sorted (map (\<lambda>row. - sr_score row) out)
    \<and> list_all (\<lambda>row. 0 \<le> sr_score row \<and> sr_score row \<le> 1) out"
proof -
  obtain ranked where r: "out = sort_key (\<lambda>row. - sr_score row) ranked" "map unscored ranked = map unscored rows"
    "\<forall>row\<in>set ranked. 0 \<le> sr_score row \<and> sr_score row \<le> 1"
    using rerank_Inr[OF assms] unfolding sound_ranking_def by blast
  have "mset (map unscored out) = mset (map unscored ranked)" by (simp add: r(1))
  with r show ?thesis by (simp add: list_all_iff)
qed

definition sample_row :: "string \<Rightarrow> real \<Rightarrow> search_row" where
  "sample_row t s = \<lparr>sr_chunk = (upload_chunk ''a'' ''d1'')\<lparr>chunk_text := t\<rparr>, sr_groups = [], sr_score = s\<rparr>"

lemma sample_rerank:
  "rerank None (\<lambda>_. Inr []) (mk_reranker ''m'') ''q'' [sample_row ''x'' 0, sample_row ''y'' 2]
     = Inr ([sample_row ''y'' (9/10), sample_row ''x'' 0], (mk_reranker ''m'')\<lparr>rr_unavailable := True\<rparr>)"
proof -
  have "tokens_of (lower ''x'') = [''x'']" "tokens_of (lower ''y'') = [''y'']" "tokens_of (lower ''q'') = [''q'']" by code_simp+
  then show ?thesis
    by (simp add: rerank_def rr_load_def mk_reranker_def fallback_score_def sample_row_def overlap_of_def term_set_def)
qed

theorem rerank_ranks_witness:
  "mset (map unscored [sample_row ''y'' (9/10), sample_row ''x'' 0]) = mset (map unscored [sample_row ''x'' 0, sample_row ''y'' 2])"
  using rerank_ranks[OF sample_rerank] by blast

text \<open>A missing package costs one import: once an import has failed, or the model is loaded, the outcome of
  further imports does not matter.\<close>

theorem rerank_imports_once:
  fixes rows rows' :: "'a search_row_scheme list"
  assumes "rerank imported predict R q rows = Inr (out, R')" "rows \<noteq> []"
  shows "rerank imported' predict R' q' rows' = rerank imported'' predict R' q' rows'"
proof -
  have "rr_loaded R' \<or> rr_unavailable R'"
    using assms by (auto simp: rerank_def rr_load_def split: if_splits option.splits)
  then have "rr_load imported' R' = rr_load imported'' R'" by (auto simp: rr_load_def)
  then show ?thesis by (simp only: rerank_def)
qed

theorem rerank_imports_once_witness:
  "rerank (Some (\<lambda>_. Inr ())) (\<lambda>_. Inr []) ((mk_reranker ''m'')\<lparr>rr_unavailable := True\<rparr>) ''q'' [sample_row ''x'' 0]
   = rerank None (\<lambda>_. Inr []) ((mk_reranker ''m'')\<lparr>rr_unavailable := True\<rparr>) ''q'' [sample_row ''x'' 0]"
  by (rule rerank_imports_once[OF sample_rerank]) simp

end
