(* ===== verification/Workers.thy ===== *)
theory Workers
  imports Postgres_Store "HOL-Library.Multiset"
begin

text \<open>
  Background ingestion (\<open>workers.py\<close>): the in-process worker of the demo, and the durable queue in
  PostgreSQL with the claim function of \<open>migrations/004_document_lifecycle.sql\<close>. Both interpret the locale
  \<open>job_queue\<close>. What the handler does is a parameter: each run of it is an arbitrary outcome.
\<close>

section \<open>Jobs\<close>

datatype job_status = Queued | Running | Completed | Failed

fun status_str :: "job_status \<Rightarrow> string" where
  "status_str Queued = ''queued''"
| "status_str Running = ''running''"
| "status_str Completed = ''completed''"
| "status_str Failed = ''failed''"

record ingestion_job =
  ij_id :: string
  ij_tenant_id :: string
  ij_status :: job_status
  ij_error :: "string option"
  ij_result :: "jobj option"
  ij_created_at :: real
  ij_updated_at :: real

definition new_job :: "real \<Rightarrow> string \<Rightarrow> string \<Rightarrow> ingestion_job" where
  "new_job now i tenant = \<lparr>ij_id = i, ij_tenant_id = tenant, ij_status = Queued, ij_error = None, ij_result = None,
     ij_created_at = now, ij_updated_at = now\<rparr>"

definition as_dict :: "(real \<Rightarrow> string) \<Rightarrow> ingestion_job \<Rightarrow> jobj" where
  "as_dict isoformat J =
     [(''job_id'', JStr (ij_id J)), (''status'', JStr (status_str (ij_status J))),
      (''error'', case ij_error J of None \<Rightarrow> JNull | Some e \<Rightarrow> JStr e),
      (''result'', case ij_result J of None \<Rightarrow> JNull | Some r \<Rightarrow> JObj r),
      (''created_at'', JStr (isoformat (ij_created_at J))), (''updated_at'', JStr (isoformat (ij_updated_at J)))]"

definition settled :: "ingestion_job \<Rightarrow> bool" where
  "settled J = (ij_status J = Completed \<and> ij_result J \<noteq> None \<and> ij_error J = None
     \<or> ij_status J = Failed \<and> ij_error J \<noteq> None \<and> ij_result J = None)"

section \<open>The interface of a job queue\<close>

text \<open>
  What the API relies on: a submitted job can be read back by its tenant, other jobs are not affected, and
  a job is returned to one tenant only. \<open>is_id\<close> are the identifiers \<open>uuid4\<close> issues and \<open>fresh\<close> those not
  used yet; \<open>uuid4\<close> does not repeat itself.
\<close>

locale job_queue =
  fixes submit :: "'s \<Rightarrow> real \<Rightarrow> string \<Rightarrow> string \<Rightarrow> jobj \<Rightarrow> (ingestion_job \<times> 's) res"
    and get :: "'s \<Rightarrow> string \<Rightarrow> string \<Rightarrow> ingestion_job option res"
    and is_id :: "string \<Rightarrow> bool"
    and fresh :: "'s \<Rightarrow> string \<Rightarrow> bool"
    and inv :: "'s \<Rightarrow> bool"
  assumes submit_inv: "inv s \<Longrightarrow> fresh s i \<Longrightarrow> submit s now i t p = Inr (J, s') \<Longrightarrow> inv s'"
    and submit_get: "inv s \<Longrightarrow> is_id i \<Longrightarrow> fresh s i \<Longrightarrow> submit s now i t p = Inr (J, s') \<Longrightarrow> get s' t i = Inr (Some J)"
    and submit_keeps: "inv s \<Longrightarrow> is_id i \<Longrightarrow> is_id i' \<Longrightarrow> submit s now i t p = Inr (J, s') \<Longrightarrow> i' \<noteq> i \<Longrightarrow> get s' t' i' = get s t' i'"
    and fresh_get: "is_id i \<Longrightarrow> fresh s i \<Longrightarrow> get s t i \<noteq> Inr (Some J)"
    and get_tenant: "get s t i = Inr (Some J) \<Longrightarrow> ij_tenant_id J = t"
    and get_unique: "inv s \<Longrightarrow> get s t i = Inr (Some J) \<Longrightarrow> get s t' i = Inr (Some J') \<Longrightarrow> J' = J"
begin

definition submits :: "'s \<Rightarrow> 's \<Rightarrow> bool" where
  "submits s s' = (\<exists>now i t p J. is_id i \<and> fresh s i \<and> submit s now i t p = Inr (J, s'))"

lemma get_private: "inv s \<Longrightarrow> get s t i = Inr (Some J) \<Longrightarrow> t' \<noteq> t \<Longrightarrow> get s t' i \<noteq> Inr (Some J')"
  using get_tenant get_unique by metis

lemma submits_keeps:
  assumes "submits\<^sup>*\<^sup>* s s'" "inv s" "is_id i" "get s t i = Inr (Some J)"
  shows "inv s' \<and> get s' t i = Inr (Some J)"
  using assms(1)
proof (induction rule: rtranclp_induct)
  case (step s1 s2)
  then obtain now k u p K where k: "is_id k" "fresh s1 k" "submit s1 now k u p = Inr (K, s2)"
    by (auto simp: submits_def)
  then have "k \<noteq> i" using step.IH fresh_get assms(3) by metis
  with k step.IH show ?case using submit_inv submit_keeps[OF _ k(1) assms(3) k(3)] by metis
qed (simp add: assms)

lemma submitted_job_is_private:
  assumes "inv s" "is_id i" "fresh s i" "submit s now i t p = Inr (J, s1)" "submits\<^sup>*\<^sup>* s1 s'"
  shows "get s' t i = Inr (Some J)" and "t' \<noteq> t \<Longrightarrow> get s' t' i \<noteq> Inr (Some J')"
proof -
  have "inv s' \<and> get s' t i = Inr (Some J)"
    using submits_keeps[OF assms(5) submit_inv[OF assms(1,3,4)] assms(2) submit_get[OF assms(1-4)]] .
  then show "get s' t i = Inr (Some J)" and "t' \<noteq> t \<Longrightarrow> get s' t' i \<noteq> Inr (Some J')"
    using get_private by blast+
qed

end

section \<open>The in-process worker\<close>

text \<open>
  The state the caller threads and the worker thread share: the dictionary of jobs, the queue (\<open>None\<close> asks
  the thread to stop) and what the thread is doing. \<open>submit\<close> stores the job and then puts it into the
  queue; between the two a submission is in \<open>iw_pending\<close>. \<open>Died\<close> is a thread ended by an exception.
\<close>

datatype activity = Waiting | Taken string | Handling string | Stopped | Died

record worker =
  iw_jobs :: "(string \<times> ingestion_job) list"
  iw_pending :: "(string \<times> jobj) list"
  iw_queue :: "(string \<times> jobj) option list"
  iw_thread :: activity

definition mk_worker :: worker where
  "mk_worker = \<lparr>iw_jobs = [], iw_pending = [], iw_queue = [], iw_thread = Waiting\<rparr>"

definition submit_job :: "worker \<Rightarrow> real \<Rightarrow> string \<Rightarrow> string \<Rightarrow> jobj \<Rightarrow> ingestion_job \<times> worker" where
  "submit_job W now i tenant payload =
     (let job = new_job now i tenant in
      (job, W\<lparr>iw_jobs := AList.update i job (iw_jobs W), iw_pending := iw_pending W @ [(i, payload)]\<rparr>))"

definition put_item :: "string \<times> jobj \<Rightarrow> worker \<Rightarrow> worker" where
  "put_item x W = W\<lparr>iw_pending := remove1 x (iw_pending W), iw_queue := iw_queue W @ [Some x]\<rparr>"

definition get_job :: "worker \<Rightarrow> string \<Rightarrow> string \<Rightarrow> ingestion_job option" where
  "get_job W tenant i =
     (case map_of (iw_jobs W) i of
        Some J \<Rightarrow> if ij_tenant_id J = tenant then Some J else None
      | None \<Rightarrow> None)"

definition job_status_of :: "worker \<Rightarrow> string \<Rightarrow> job_status option" where
  "job_status_of W i = map_option ij_status (map_of (iw_jobs W) i)"

definition stop_worker :: "worker \<Rightarrow> worker" where
  "stop_worker W = W\<lparr>iw_queue := iw_queue W @ [None]\<rparr>"

definition update_job :: "real \<Rightarrow> string \<Rightarrow> (ingestion_job \<Rightarrow> ingestion_job) \<Rightarrow> worker \<Rightarrow> worker res" where
  "update_job now i changes W =
     (case map_of (iw_jobs W) i of
        None \<Rightarrow> Inl (KeyError i)
      | Some J \<Rightarrow> Inr (W\<lparr>iw_jobs := AList.update i (changes (J\<lparr>ij_updated_at := now\<rparr>)) (iw_jobs W)\<rparr>))"

definition outcome :: "jobj res \<Rightarrow> ingestion_job \<Rightarrow> ingestion_job" where
  "outcome r J = (case r of
     Inr result \<Rightarrow> J\<lparr>ij_status := Completed, ij_result := Some result\<rparr>
   | Inl e \<Rightarrow> if is_value_error e then J\<lparr>ij_status := Failed, ij_error := Some (exn_str e)\<rparr>
       else J\<lparr>ij_status := Failed, ij_error := Some ''internal error during ingestion''\<rparr>)"

text \<open>
  One step of \<open>_run\<close>: take an item, mark it running, or record the outcome \<open>r\<close> of its handler. An exception
  of \<open>_update\<close> is not caught and ends the thread.
\<close>

definition thread_step :: "real \<Rightarrow> jobj res \<Rightarrow> worker \<Rightarrow> worker" where
  "thread_step now r W = (case iw_thread W of
     Waiting \<Rightarrow> (case iw_queue W of
         [] \<Rightarrow> W
       | None # q \<Rightarrow> W\<lparr>iw_queue := q, iw_thread := Stopped\<rparr>
       | Some (i, _) # q \<Rightarrow> W\<lparr>iw_queue := q, iw_thread := Taken i\<rparr>)
   | Taken i \<Rightarrow> (case update_job now i (\<lambda>J. J\<lparr>ij_status := Running\<rparr>) W of
         Inl _ \<Rightarrow> W\<lparr>iw_thread := Died\<rparr> | Inr W' \<Rightarrow> W'\<lparr>iw_thread := Handling i\<rparr>)
   | Handling i \<Rightarrow> (case update_job now i (outcome r) W of
         Inl _ \<Rightarrow> W\<lparr>iw_thread := Died\<rparr> | Inr W' \<Rightarrow> W'\<lparr>iw_thread := Waiting\<rparr>)
   | _ \<Rightarrow> W)"

text \<open>The interleavings of callers and thread; \<open>uuid4\<close> does not repeat an identifier.\<close>

inductive worker_step :: "worker \<Rightarrow> worker \<Rightarrow> bool" where
  submit: "map_of (iw_jobs W) i = None \<Longrightarrow> worker_step W (snd (submit_job W now i tenant payload))"
| put: "x \<in> set (iw_pending W) \<Longrightarrow> worker_step W (put_item x W)"
| stop: "worker_step W (stop_worker W)"
| thread: "worker_step W (thread_step now r W)"

definition item_ids :: "(string \<times> jobj) option list \<Rightarrow> string list" where
  "item_ids q = List.map_filter (map_option fst) q"

fun taken_ids :: "activity \<Rightarrow> string list" where
  "taken_ids (Taken i) = [i]"
| "taken_ids _ = []"

fun handled_ids :: "activity \<Rightarrow> string list" where
  "handled_ids (Handling i) = [i]"
| "handled_ids _ = []"

definition waiting_ids :: "worker \<Rightarrow> string list" where
  "waiting_ids W = map fst (iw_pending W) @ item_ids (iw_queue W) @ taken_ids (iw_thread W)"

definition expected_job :: "worker \<Rightarrow> string \<Rightarrow> ingestion_job \<Rightarrow> bool" where
  "expected_job W i J =
     (if i \<in> set (waiting_ids W) then ij_status J = Queued \<and> ij_error J = None \<and> ij_result J = None
      else if i \<in> set (handled_ids (iw_thread W)) then ij_status J = Running \<and> ij_error J = None \<and> ij_result J = None
      else settled J)"

definition worker_ok :: "worker \<Rightarrow> bool" where
  "worker_ok W \<longleftrightarrow> iw_thread W \<noteq> Died \<and> distinct (waiting_ids W @ handled_ids (iw_thread W))
     \<and> (\<forall>i\<in>set (waiting_ids W @ handled_ids (iw_thread W)). map_of (iw_jobs W) i \<noteq> None)
     \<and> (\<forall>i J. map_of (iw_jobs W) i = Some J \<longrightarrow> expected_job W i J)"

lemma worker_ok_mk: "worker_ok mk_worker"
  by (simp add: worker_ok_def mk_worker_def waiting_ids_def item_ids_def List.map_filter_simps)

lemmas worker_defs = worker_ok_def waiting_ids_def expected_job_def

lemma item_ids_simps [simp]:
  "item_ids [] = []" "item_ids (Some x # q) = fst x # item_ids q" "item_ids (None # q) = item_ids q"
  "item_ids (q @ q') = item_ids q @ item_ids q'"
  by (simp_all add: item_ids_def List.map_filter_def)

lemma submit_job_ok:
  assumes "worker_ok W" "map_of (iw_jobs W) i = None"
  shows "worker_ok (snd (submit_job W now i t p))"
proof -
  let ?W = "snd (submit_job W now i t p)"
  have new: "i \<notin> set (waiting_ids W @ handled_ids (iw_thread W))" using assms unfolding worker_ok_def by metis
  have ids: "set (waiting_ids ?W) = insert i (set (waiting_ids W))" "iw_thread ?W = iw_thread W"
    "distinct (waiting_ids ?W @ handled_ids (iw_thread ?W))"
    using new assms(1) by (auto simp: worker_defs submit_job_def)
  have jobs: "map_of (iw_jobs ?W) = (map_of (iw_jobs W))(i \<mapsto> new_job now i t)"
    by (simp add: submit_job_def update_conv')
  have "expected_job ?W k J" if "map_of (iw_jobs ?W) k = Some J" for k J
    using that assms(1) ids(1,2) new by (auto simp: jobs worker_ok_def expected_job_def new_job_def split: if_splits)
  moreover have "\<forall>k\<in>set (waiting_ids ?W @ handled_ids (iw_thread ?W)). map_of (iw_jobs ?W) k \<noteq> None"
    using assms(1) ids(1,2) by (auto simp: jobs worker_ok_def)
  ultimately show ?thesis using assms(1) ids by (simp add: worker_ok_def)
qed

lemma mset_remove1_fst: "x \<in> set xs \<Longrightarrow> mset (map fst xs) = add_mset (fst x) (mset (map fst (remove1 x xs)))"
  by (metis image_mset_add_mset insert_DiffM mset_map mset_remove1 set_mset_mset)

lemma put_item_ids: "x \<in> set (iw_pending W) \<Longrightarrow> mset (waiting_ids (put_item x W)) = mset (waiting_ids W)"
  using mset_remove1_fst[of x "iw_pending W"] by (simp add: waiting_ids_def put_item_def)

lemma put_item_ok:
  assumes "worker_ok W" "x \<in> set (iw_pending W)"
  shows "worker_ok (put_item x W)"
proof -
  have m: "mset (waiting_ids (put_item x W) @ handled_ids (iw_thread W)) = mset (waiting_ids W @ handled_ids (iw_thread W))"
    using put_item_ids[OF assms(2)] by simp
  have "set (waiting_ids (put_item x W)) = set (waiting_ids W)" using put_item_ids[OF assms(2)] by (metis set_mset_mset)
  moreover have "iw_thread (put_item x W) = iw_thread W" "iw_jobs (put_item x W) = iw_jobs W" by (simp_all add: put_item_def)
  ultimately show ?thesis using assms(1) m mset_eq_imp_distinct_iff[OF m] by (simp add: worker_ok_def expected_job_def)
qed

lemma stop_worker_ok: "worker_ok W \<Longrightarrow> worker_ok (stop_worker W)"
  by (simp add: worker_defs stop_worker_def)

lemma settled_outcome: "ij_error J = None \<Longrightarrow> ij_result J = None \<Longrightarrow> settled (outcome r J)"
  by (auto simp: settled_def outcome_def split: sum.split)

lemma thread_step_ok: "worker_ok W \<Longrightarrow> worker_ok (thread_step now r W)"
proof (cases "iw_thread W")
  case Waiting
  assume "worker_ok W"
  then show ?thesis using Waiting
    by (auto simp: worker_defs thread_step_def split: list.split option.split prod.split)
next
  case (Taken i)
  assume W: "worker_ok W"
  then obtain J where "map_of (iw_jobs W) i = Some J" using Taken by (auto simp: worker_defs)
  with W show ?thesis using Taken by (auto simp: worker_defs thread_step_def update_job_def update_conv' split: if_splits)
next
  case (Handling i)
  assume W: "worker_ok W"
  then obtain J where "map_of (iw_jobs W) i = Some J" using Handling by (auto simp: worker_defs)
  with W show ?thesis using Handling
    by (auto simp: worker_defs thread_step_def update_job_def update_conv' settled_outcome split: if_splits)
qed (simp_all add: thread_step_def)

lemma worker_step_ok: "worker_step W W' \<Longrightarrow> worker_ok W \<Longrightarrow> worker_ok W'"
  by (induction rule: worker_step.induct) (simp_all add: submit_job_ok put_item_ok stop_worker_ok thread_step_ok)

definition worker_reachable :: "worker \<Rightarrow> bool" where
  "worker_reachable W = worker_step\<^sup>*\<^sup>* mk_worker W"

lemma worker_reachable_ok: "worker_reachable W \<Longrightarrow> worker_ok W"
  unfolding worker_reachable_def by (induction rule: rtranclp_induct) (simp_all add: worker_ok_mk worker_step_ok)

text \<open>A job that is done stays as it is.\<close>

lemma settled_not_waiting:
  assumes "worker_ok W" "map_of (iw_jobs W) i = Some J" "settled J"
  shows "i \<notin> set (waiting_ids W @ handled_ids (iw_thread W))"
proof -
  have "expected_job W i J" using assms(1,2) unfolding worker_ok_def by blast
  with assms(3) show ?thesis by (auto simp: expected_job_def settled_def split: if_splits)
qed

lemma thread_step_keeps:
  assumes "i \<notin> set (waiting_ids W @ handled_ids (iw_thread W))"
  shows "map_of (iw_jobs (thread_step now r W)) i = map_of (iw_jobs W) i"
  using assms by (auto simp: thread_step_def waiting_ids_def update_job_def update_conv' split: activity.split list.split option.split)

lemma settled_stays:
  assumes "worker_step W W'" "worker_ok W" "map_of (iw_jobs W) i = Some J" "settled J"
  shows "map_of (iw_jobs W') i = Some J"
  using assms(1)
proof cases
  case (submit k now t p)
  with assms(3) show ?thesis by (auto simp: submit_job_def update_conv')
next
  case (thread now r)
  with thread_step_keeps[OF settled_not_waiting[OF assms(2-4)]] assms(3) show ?thesis by simp
qed (use assms(3) in \<open>simp_all add: put_item_def stop_worker_def\<close>)

text \<open>The in-process worker keeps honest books under every interleaving of callers and the thread: the
  thread never dies, a job that waits is queued, the job being handled is running, and every other job is
  settled, completed with a result or failed with an error.\<close>

theorem worker_books_are_honest:
  assumes "worker_reachable W" "map_of (iw_jobs W) i = Some J"
  shows "iw_thread W \<noteq> Died \<and> expected_job W i J \<and>
    (settled J \<longrightarrow> (\<forall>W'. worker_step\<^sup>*\<^sup>* W W' \<longrightarrow> map_of (iw_jobs W') i = Some J))"
proof -
  have ok: "worker_ok W" by (rule worker_reachable_ok[OF assms(1)])
  have "worker_ok W' \<and> map_of (iw_jobs W') i = Some J" if "worker_step\<^sup>*\<^sup>* W W'" "settled J" for W'
    using that(1)
  proof (induction rule: rtranclp_induct)
    case base
    show ?case using ok assms(2) by simp
  next
    case (step W1 W2)
    then show ?case using settled_stays[OF step(2)] that(2) worker_step_ok by blast
  qed
  then show ?thesis using ok assms(2) by (simp add: worker_ok_def)
qed

section \<open>The worker finishes its queue\<close>

fun thread_run :: "(real \<times> jobj res) list \<Rightarrow> worker \<Rightarrow> worker" where
  "thread_run [] W = W"
| "thread_run ((now, r) # xs) W = thread_run xs (thread_step now r W)"

definition work_left :: "worker \<Rightarrow> nat" where
  "work_left W = 3 * length (iw_queue W) + (case iw_thread W of Taken _ \<Rightarrow> 2 | Handling _ \<Rightarrow> 1 | _ \<Rightarrow> 0)"

definition live_worker :: "worker \<Rightarrow> bool" where
  "live_worker W = (worker_ok W \<and> iw_thread W \<noteq> Stopped \<and> None \<notin> set (iw_queue W) \<and> iw_pending W = [])"

lemma thread_step_live:
  assumes "live_worker W"
  shows "live_worker (thread_step now r W) \<and> work_left (thread_step now r W) = work_left W - 1"
proof -
  have ok: "worker_ok W" "worker_ok (thread_step now r W)" using assms thread_step_ok by (auto simp: live_worker_def)
  show ?thesis
  proof (cases "iw_thread W")
    case Waiting
    with assms ok(2) show ?thesis
      by (cases "iw_queue W") (auto simp: live_worker_def work_left_def thread_step_def split: option.splits)
  next
    case (Taken i)
    with ok(1) have "map_of (iw_jobs W) i \<noteq> None" by (simp add: worker_defs)
    with Taken assms ok(2) show ?thesis by (auto simp: live_worker_def work_left_def thread_step_def update_job_def)
  next
    case (Handling i)
    with ok(1) have "map_of (iw_jobs W) i \<noteq> None" by (simp add: worker_defs)
    with Handling assms ok(2) show ?thesis by (auto simp: live_worker_def work_left_def thread_step_def update_job_def)
  qed (use assms in \<open>auto simp: live_worker_def worker_ok_def\<close>)
qed

lemma thread_run_live:
  "live_worker W \<Longrightarrow> live_worker (thread_run xs W) \<and> work_left (thread_run xs W) = work_left W - length xs"
proof (induction xs W rule: thread_run.induct)
  case (2 now r xs W)
  then show ?case using thread_step_live[of W now r] by simp
qed simp

lemma idle_settled:
  assumes "live_worker W" "work_left W = 0" "map_of (iw_jobs W) i = Some J"
  shows "settled J"
proof -
  have "iw_thread W = Waiting \<and> iw_queue W = [] \<and> iw_pending W = []"
    using assms(1,2) by (cases "iw_thread W") (auto simp: live_worker_def work_left_def worker_ok_def)
  with assms(1,3) show ?thesis by (auto simp: live_worker_def worker_defs)
qed

text \<open>C24. Every submitted job is settled: once the submissions are in the queue and nobody has asked the
  thread to stop, three steps of the thread per queued item (and at most two more) settle every job,
  whatever the handler does.\<close>

theorem worker_settles_every_job:
  assumes "worker_reachable W" "iw_thread W \<noteq> Stopped" "None \<notin> set (iw_queue W)" "iw_pending W = []"
    and "3 * length (iw_queue W) + 2 \<le> length xs"
  shows "\<forall>J\<in>ran (map_of (iw_jobs (thread_run xs W))). settled J"
proof -
  have live: "live_worker W" using assms worker_reachable_ok by (simp add: live_worker_def)
  have "work_left W \<le> length xs" using assms(5) by (auto simp: work_left_def split: activity.split)
  then have "work_left (thread_run xs W) = 0" using thread_run_live[OF live] by simp
  then show ?thesis using idle_settled[OF conjunct1[OF thread_run_live[OF live]]] by (auto simp: ran_def)
qed

text \<open>A caller submits one job, the item reaches the queue, and the thread handles it.\<close>

definition one_job :: worker where
  "one_job = put_item (''j'', []) (snd (submit_job mk_worker 0 ''j'' ''a'' []))"

lemma one_job_reachable: "worker_reachable one_job"
proof -
  have 1: "worker_step mk_worker (snd (submit_job mk_worker 0 ''j'' ''a'' []))"
    by (rule worker_step.submit) (simp add: mk_worker_def)
  have 2: "worker_step (snd (submit_job mk_worker 0 ''j'' ''a'' [])) one_job"
    unfolding one_job_def by (rule worker_step.put) (simp add: submit_job_def)
  from 1 2 show ?thesis unfolding worker_reachable_def by simp
qed

theorem worker_books_are_honest_witness: "expected_job one_job ''j'' (new_job 0 ''j'' ''a'')"
  using worker_books_are_honest[OF one_job_reachable, of "''j''" "new_job 0 ''j'' ''a''"]
  by (simp add: one_job_def put_item_def submit_job_def mk_worker_def)

theorem worker_settles_every_job_witness:
  "\<exists>J. map_of (iw_jobs (thread_run (replicate 5 (1, Inl (RuntimeError ''boom''))) one_job)) ''j'' = Some J \<and> settled J"
proof -
  have "map_of (iw_jobs (thread_run (replicate 5 (1, Inl (RuntimeError ''boom''))) one_job)) ''j'' \<noteq> None"
    by (simp add: numeral_eq_Suc one_job_def put_item_def submit_job_def mk_worker_def thread_step_def update_job_def)
  moreover have "\<forall>J\<in>ran (map_of (iw_jobs (thread_run (replicate 5 (1, Inl (RuntimeError ''boom''))) one_job))). settled J"
    by (rule worker_settles_every_job[OF one_job_reachable])
      (simp_all add: one_job_def put_item_def submit_job_def mk_worker_def)
  ultimately show ?thesis by (auto simp: ran_def)
qed

interpretation iw: job_queue "\<lambda>W now i t p. Inr (submit_job W now i t p)" "\<lambda>W t i. Inr (get_job W t i)"
  "\<lambda>_. True" "\<lambda>W i. map_of (iw_jobs W) i = None" worker_ok
  by unfold_locales
    (auto simp: submit_job_def new_job_def get_job_def update_conv' split: if_splits option.splits dest: submit_job_ok)

section \<open>The queue in PostgreSQL\<close>

text \<open>A row of \<open>ingestion_jobs\<close>. Times are seconds.\<close>

record pg_job =
  pj_job :: ingestion_job
  pj_payload :: jobj
  pj_attempts :: nat
  pj_max_attempts :: nat
  pj_run_after :: real
  pj_locked_at :: "real option"

definition pg_submit :: "pg_job list \<Rightarrow> real \<Rightarrow> string \<Rightarrow> string \<Rightarrow> jobj \<Rightarrow> (ingestion_job \<times> pg_job list) res" where
  "pg_submit rows now i tenant payload =
     bind_res (set_tenant tenant) (\<lambda>session.
     if tenant \<noteq> session then Inl (OtherError ''row-level security policy for table ingestion_jobs'')
     else if list_ex (\<lambda>r. ij_id (pj_job r) = i) rows then Inl (OtherError ''duplicate key value violates ingestion_jobs_pkey'')
     else Inr (new_job now i tenant,
       rows @ [\<lparr>pj_job = new_job now i tenant, pj_payload = payload, pj_attempts = 0, pj_max_attempts = 3,
         pj_run_after = now, pj_locked_at = None\<rparr>]))"

text \<open>
  \<open>UUID(s)\<close>: the markers \<open>urn:\<close> and \<open>uuid:\<close>, braces and hyphens are dropped; what remains must be 32
  characters that \<open>int(_, 16)\<close> reads.
\<close>

function remove_all :: "string \<Rightarrow> string \<Rightarrow> string" where
  "remove_all pat s =
     (if s = [] \<or> pat = [] then s
      else if take (length pat) s = pat then remove_all pat (drop (length pat) s)
      else hd s # remove_all pat (tl s))"
  by pat_completeness auto
termination by (relation "measure (\<lambda>(_, s). length s)") auto

declare remove_all.simps [simp del]

definition strip_chars :: "string \<Rightarrow> string \<Rightarrow> string" where
  "strip_chars cs s = rev (dropWhile (\<lambda>c. c \<in> set cs) (rev (dropWhile (\<lambda>c. c \<in> set cs) s)))"

definition is_hex :: "char \<Rightarrow> bool" where
  "is_hex c = (c \<in> set ''0123456789abcdefABCDEF'')"

definition hex_literal :: "string \<Rightarrow> bool" where
  "hex_literal s =
     (let (_, u) = sign_split (strip s);
          v = (if take 2 u = ''0x'' \<or> take 2 u = ''0X''
               then (if drop 2 u \<noteq> [] \<and> hd (drop 2 u) = CHR ''_'' then drop 3 u else drop 2 u) else u) in
      list_all (\<lambda>p. p \<noteq> [] \<and> list_all is_hex p) (split_on (CHR ''_'') v))"

definition is_uuid :: "string \<Rightarrow> bool" where
  "is_uuid s =
     (let h = remove_all ''-'' (strip_chars ''{}'' (remove_all ''uuid:'' (remove_all ''urn:'' s))) in
      length h = 32 \<and> hex_literal h)"

text \<open>\<open>uuid_in\<close> is the input function of the type \<open>uuid\<close> of PostgreSQL, \<open>None\<close> for a value it refuses.\<close>

definition pg_get_job :: "(string \<Rightarrow> string option) \<Rightarrow> pg_job list \<Rightarrow> string \<Rightarrow> string \<Rightarrow> ingestion_job option res" where
  "pg_get_job uuid_in rows tenant i =
     (if \<not> is_uuid i then Inr None
      else bind_res (set_tenant tenant) (\<lambda>_.
        case uuid_in i of
          None \<Rightarrow> Inl (OtherError ''invalid input syntax for type uuid'')
        | Some k \<Rightarrow> Inr (map_option pj_job (List.find (\<lambda>r. own_row tenant (ij_tenant_id (pj_job r)) \<and> ij_id (pj_job r) = k) rows))))"

record claim =
  cl_job_id :: string
  cl_tenant_id :: string
  cl_payload :: jobj
  cl_attempts :: nat
  cl_max_attempts :: nat

definition lease :: real where
  "lease = 600"

definition claimable :: "real \<Rightarrow> pg_job \<Rightarrow> bool" where
  "claimable now r =
     (ij_status (pj_job r) = Queued \<and> pj_run_after r \<le> now
      \<or> ij_status (pj_job r) = Running \<and> (case pj_locked_at r of None \<Rightarrow> False | Some l \<Rightarrow> l < now - lease))"

definition claim_order :: "pg_job \<Rightarrow> real \<times> real" where
  "claim_order r = (pj_run_after r, ij_created_at (pj_job r))"

definition mark_running :: "real \<Rightarrow> pg_job \<Rightarrow> pg_job" where
  "mark_running now r = r\<lparr>pj_job := (pj_job r)\<lparr>ij_status := Running, ij_updated_at := now\<rparr>,
     pj_attempts := pj_attempts r + 1, pj_locked_at := Some now\<rparr>"

definition claim_of :: "pg_job \<Rightarrow> claim" where
  "claim_of r = \<lparr>cl_job_id = ij_id (pj_job r), cl_tenant_id = ij_tenant_id (pj_job r), cl_payload = pj_payload r,
     cl_attempts = pj_attempts r, cl_max_attempts = pj_max_attempts r\<rparr>"

definition update_row :: "(pg_job \<Rightarrow> bool) \<Rightarrow> (pg_job \<Rightarrow> pg_job) \<Rightarrow> pg_job list \<Rightarrow> pg_job list" where
  "update_row P f rows = map (\<lambda>r. if P r then f r else r) rows"

text \<open>\<open>claim_ingestion_job()\<close>; \<open>locked\<close> are the rows other transactions hold, which \<open>SKIP LOCKED\<close> skips.\<close>

definition claim_ingestion_job :: "string list \<Rightarrow> real \<Rightarrow> pg_job list \<Rightarrow> claim option \<times> pg_job list" where
  "claim_ingestion_job locked now rows =
     (case sort_key claim_order (filter (\<lambda>r. claimable now r \<and> ij_id (pj_job r) \<notin> set locked) rows) of
        [] \<Rightarrow> (None, rows)
      | r # _ \<Rightarrow> (Some (claim_of (mark_running now r)),
          update_row (\<lambda>r'. ij_id (pj_job r') = ij_id (pj_job r)) (mark_running now) rows))"

definition finish_row :: "real \<Rightarrow> job_status \<Rightarrow> string option \<Rightarrow> jobj option \<Rightarrow> real \<Rightarrow> pg_job \<Rightarrow> pg_job" where
  "finish_row now status error_text result retry_in r =
     r\<lparr>pj_job := (pj_job r)\<lparr>ij_status := status, ij_error := error_text, ij_result := result, ij_updated_at := now\<rparr>,
       pj_locked_at := None, pj_run_after := now + retry_in,
       pj_payload := (if status \<in> {Completed, Failed} then filter (\<lambda>x. fst x \<noteq> ''content_base64'') (pj_payload r)
         else pj_payload r)\<rparr>"

definition finish_job :: "pg_job list \<Rightarrow> real \<Rightarrow> string \<Rightarrow> string \<Rightarrow> job_status \<Rightarrow> string option \<Rightarrow> jobj option \<Rightarrow> real \<Rightarrow>
    pg_job list res" where
  "finish_job rows now tenant i status error_text result retry_in =
     bind_res (set_tenant tenant) (\<lambda>_.
     Inr (update_row (\<lambda>r. own_row tenant (ij_tenant_id (pj_job r)) \<and> ij_id (pj_job r) = i)
       (finish_row now status error_text result retry_in) rows))"

text \<open>What \<open>run_once\<close> writes after the handler: \<open>r\<close> is the outcome of the handler.\<close>

definition finish_claim :: "pg_job list \<Rightarrow> real \<Rightarrow> claim \<Rightarrow> jobj res \<Rightarrow> pg_job list res" where
  "finish_claim rows now c r = (case r of
     Inr result \<Rightarrow> finish_job rows now (cl_tenant_id c) (cl_job_id c) Completed None (Some result) 0
   | Inl e \<Rightarrow>
       if is_value_error e then finish_job rows now (cl_tenant_id c) (cl_job_id c) Failed (Some (exn_str e)) None 0
       else if cl_attempts c < cl_max_attempts c
       then finish_job rows now (cl_tenant_id c) (cl_job_id c) Queued (Some ''retrying after an internal error'') None
         (2 ^ cl_attempts c)
       else finish_job rows now (cl_tenant_id c) (cl_job_id c) Failed (Some ''internal error during ingestion'') None 0)"

definition run_once :: "string list \<Rightarrow> (jobj \<Rightarrow> jobj res) \<Rightarrow> real \<Rightarrow> real \<Rightarrow> pg_job list \<Rightarrow> (bool \<times> pg_job list) res" where
  "run_once locked handler claimed_at finished_at rows =
     (case claim_ingestion_job locked claimed_at rows of
        (None, _) \<Rightarrow> Inr (False, rows)
      | (Some c, rows') \<Rightarrow> bind_res (finish_claim rows' finished_at c (handler (cl_payload c))) (\<lambda>rows''. Inr (True, rows'')))"

lemma update_row_map: "(\<And>r. g (f r) = g r) \<Longrightarrow> map g (update_row P f rows) = map g rows"
  by (simp add: update_row_def)

definition row_ids :: "pg_job list \<Rightarrow> string list" where
  "row_ids rows = map (ij_id \<circ> pj_job) rows"

definition row_keys :: "pg_job list \<Rightarrow> (string \<times> string) list" where
  "row_keys rows = map (\<lambda>r. (ij_tenant_id (pj_job r), ij_id (pj_job r))) rows"

lemma row_ids_keys: "row_ids rows = map snd (row_keys rows)"
  by (simp add: row_ids_def row_keys_def)

lemma claim_keys: "claim_ingestion_job locked now rows = (c, rows') \<Longrightarrow> row_keys rows' = row_keys rows"
  by (auto simp: claim_ingestion_job_def row_keys_def update_row_def mark_running_def split: list.splits)

lemma finish_job_keys: "finish_job rows now t i st e res d = Inr rows' \<Longrightarrow> row_keys rows' = row_keys rows"
  by (auto simp: finish_job_def row_keys_def update_row_def finish_row_def)

lemma finish_claim_keys: "finish_claim rows now c r = Inr rows' \<Longrightarrow> row_keys rows' = row_keys rows"
  by (auto simp: finish_claim_def dest: finish_job_keys split: sum.splits if_splits)

definition job_rows_ok :: "pg_job list \<Rightarrow> bool" where
  "job_rows_ok rows = (distinct (row_ids rows) \<and> list_all (\<lambda>r. strip (ij_tenant_id (pj_job r)) = ij_tenant_id (pj_job r)
     \<and> ij_tenant_id (pj_job r) \<noteq> []) rows)"

lemma find_SomeD: "List.find P xs = Some x \<Longrightarrow> x \<in> set xs \<and> P x"
  by (auto simp: find_Some_iff)

lemma find_append: "List.find P (xs @ ys) = (case List.find P xs of None \<Rightarrow> List.find P ys | Some x \<Rightarrow> Some x)"
  by (induction xs) auto

lemma row_unique: "distinct (row_ids rows) \<Longrightarrow> r \<in> set rows \<Longrightarrow> r' \<in> set rows \<Longrightarrow> ij_id (pj_job r) = ij_id (pj_job r') \<Longrightarrow> r = r'"
  unfolding row_ids_def distinct_map by (auto simp: inj_on_def)

lemma find_unique:
  "distinct (row_ids rows) \<Longrightarrow> List.find (\<lambda>r. P r \<and> ij_id (pj_job r) = k) rows = Some r \<Longrightarrow>
   List.find (\<lambda>r. Q r \<and> ij_id (pj_job r) = k) rows = Some r' \<Longrightarrow> r' = r"
  by (blast dest: find_SomeD row_unique)

interpretation pgq: job_queue pg_submit "pg_get_job uuid_in" "\<lambda>i. is_uuid i \<and> uuid_in i = Some i"
  "\<lambda>rows i. i \<notin> set (row_ids rows)" job_rows_ok
  for uuid_in
proof
  fix s s' :: "pg_job list" and i i' t t' now p J J'
  show "job_rows_ok s \<Longrightarrow> i \<notin> set (row_ids s) \<Longrightarrow> pg_submit s now i t p = Inr (J, s') \<Longrightarrow> job_rows_ok s'"
    by (auto simp: pg_submit_def job_rows_ok_def row_ids_def new_job_def set_tenant_def split: if_splits)
  show "job_rows_ok s \<Longrightarrow> is_uuid i \<and> uuid_in i = Some i \<Longrightarrow> i \<notin> set (row_ids s) \<Longrightarrow> pg_submit s now i t p = Inr (J, s') \<Longrightarrow>
      pg_get_job uuid_in s' t i = Inr (Some J)"
    by (auto simp: pg_submit_def pg_get_job_def new_job_def set_tenant_def own_row_def row_ids_def find_append
        dest!: find_SomeD split: if_splits option.splits)
  show "job_rows_ok s \<Longrightarrow> is_uuid i \<and> uuid_in i = Some i \<Longrightarrow> is_uuid i' \<and> uuid_in i' = Some i' \<Longrightarrow> pg_submit s now i t p = Inr (J, s') \<Longrightarrow>
      i' \<noteq> i \<Longrightarrow> pg_get_job uuid_in s' t' i' = pg_get_job uuid_in s t' i'"
    by (auto simp: pg_submit_def pg_get_job_def new_job_def set_tenant_def own_row_def find_append split: if_splits option.splits)
  show "is_uuid i \<and> uuid_in i = Some i \<Longrightarrow> i \<notin> set (row_ids s) \<Longrightarrow> pg_get_job uuid_in s t i \<noteq> Inr (Some J)"
    by (auto simp: pg_get_job_def row_ids_def find_Some_iff set_tenant_def image_iff split: if_splits dest: nth_mem)
  show "pg_get_job uuid_in s t i = Inr (Some J) \<Longrightarrow> ij_tenant_id J = t"
    by (auto simp: pg_get_job_def find_Some_iff own_row_def split: if_splits option.splits)
  show "job_rows_ok s \<Longrightarrow> pg_get_job uuid_in s t i = Inr (Some J) \<Longrightarrow> pg_get_job uuid_in s t' i = Inr (Some J') \<Longrightarrow> J' = J"
    by (auto simp: pg_get_job_def job_rows_ok_def dest: find_unique split: if_splits option.splits)
qed

section \<open>Many workers\<close>

text \<open>
  Replicas share the table. \<open>js_inflight\<close> are the claims whose handlers run, with the time of the claim; a
  crash forgets a claim. Statements of the database are atomic.
\<close>

record job_system =
  js_rows :: "pg_job list"
  js_inflight :: "(claim \<times> real) list"
  js_now :: real

inductive queue_step :: "job_system \<Rightarrow> job_system \<Rightarrow> bool" where
  tick: "js_now Q \<le> now \<Longrightarrow> queue_step Q (Q\<lparr>js_now := now\<rparr>)"
| submit: "pg_submit (js_rows Q) (js_now Q) i tenant payload = Inr (J, rows) \<Longrightarrow> queue_step Q (Q\<lparr>js_rows := rows\<rparr>)"
| claim: "claim_ingestion_job locked (js_now Q) (js_rows Q) = (Some c, rows) \<Longrightarrow>
    queue_step Q (Q\<lparr>js_rows := rows, js_inflight := (c, js_now Q) # js_inflight Q\<rparr>)"
| finish: "x \<in> set (js_inflight Q) \<Longrightarrow> finish_claim (js_rows Q) (js_now Q) (fst x) r = Inr rows \<Longrightarrow>
    queue_step Q (Q\<lparr>js_rows := rows, js_inflight := remove1 x (js_inflight Q)\<rparr>)"
| crash: "x \<in> set (js_inflight Q) \<Longrightarrow> queue_step Q (Q\<lparr>js_inflight := remove1 x (js_inflight Q)\<rparr>)"

definition within_lease :: "job_system \<Rightarrow> bool" where
  "within_lease Q = list_all (\<lambda>x. js_now Q \<le> snd x + lease) (js_inflight Q)"

definition empty_system :: "real \<Rightarrow> job_system" where
  "empty_system now = \<lparr>js_rows = [], js_inflight = [], js_now = now\<rparr>"

inductive timely :: "job_system \<Rightarrow> bool" where
  start: "timely (empty_system now)"
| step: "timely Q \<Longrightarrow> queue_step Q Q' \<Longrightarrow> within_lease Q' \<Longrightarrow> timely Q'"

definition row_of :: "job_system \<Rightarrow> string \<Rightarrow> pg_job option" where
  "row_of Q i = List.find (\<lambda>r. ij_id (pj_job r) = i) (js_rows Q)"

definition held :: "job_system \<Rightarrow> claim \<times> real \<Rightarrow> bool" where
  "held Q x = (\<exists>r\<in>set (js_rows Q). claim_of r = fst x \<and> ij_status (pj_job r) = Running \<and> pj_locked_at r = Some (snd x))"

definition row_sound :: "pg_job \<Rightarrow> bool" where
  "row_sound r = ((ij_status (pj_job r) = Running \<longleftrightarrow> pj_locked_at r \<noteq> None)
     \<and> (ij_status (pj_job r) \<in> {Completed, Failed} \<longrightarrow> settled (pj_job r) \<and> ''content_base64'' \<notin> fst ` set (pj_payload r))
     \<and> (ij_status (pj_job r) = Queued \<longrightarrow> pj_attempts r < pj_max_attempts r))"

definition system_ok :: "job_system \<Rightarrow> bool" where
  "system_ok Q = (job_rows_ok (js_rows Q) \<and> list_all row_sound (js_rows Q)
     \<and> list_all (held Q) (js_inflight Q) \<and> distinct (map (cl_job_id \<circ> fst) (js_inflight Q)))"

lemma job_rows_ok_keys: "row_keys rows' = row_keys rows \<Longrightarrow> job_rows_ok rows \<Longrightarrow> job_rows_ok rows'"
proof -
  have "job_rows_ok rs = (distinct (map snd (row_keys rs)) \<and> list_all (\<lambda>k. strip (fst k) = fst k \<and> fst k \<noteq> []) (row_keys rs))" for rs
    by (simp add: job_rows_ok_def row_ids_keys row_keys_def list_all_iff)
  then show "row_keys rows' = row_keys rows \<Longrightarrow> job_rows_ok rows \<Longrightarrow> job_rows_ok rows'" by simp
qed

lemma claim_cases:
  assumes "claim_ingestion_job locked now rows = (Some c, rows')"
  obtains r where "r \<in> set rows" "claimable now r" "c = claim_of (mark_running now r)"
    "rows' = update_row (\<lambda>r'. ij_id (pj_job r') = ij_id (pj_job r)) (mark_running now) rows"
proof -
  let ?rs = "sort_key claim_order (filter (\<lambda>r. claimable now r \<and> ij_id (pj_job r) \<notin> set locked) rows)"
  obtain r rs where r: "?rs = r # rs" using assms by (cases ?rs) (auto simp: claim_ingestion_job_def)
  then have "r \<in> set ?rs" by (metis list.set_intros(1))
  then have "r \<in> set rows" "claimable now r" by auto
  with assms r that show ?thesis by (simp add: claim_ingestion_job_def)
qed

lemma finish_claim_row:
  assumes "finish_claim rows now c r = Inr rows'"
  obtains status e result d where "rows' = update_row (\<lambda>r. own_row (cl_tenant_id c) (ij_tenant_id (pj_job r)) \<and> ij_id (pj_job r) = cl_job_id c)
       (finish_row now status e result d) rows"
    "status = Completed \<and> e = None \<and> result \<noteq> None \<or> status = Failed \<and> e \<noteq> None \<and> result = None
      \<or> status = Queued \<and> cl_attempts c < cl_max_attempts c"
  using assms that by (auto simp: finish_claim_def finish_job_def split: sum.splits if_splits)

lemma held_other_row:
  assumes "held Q x" "\<And>r. r \<in> set (js_rows Q) \<Longrightarrow> ij_id (pj_job r) = cl_job_id (fst x) \<Longrightarrow> r \<in> set (js_rows Q')"
  shows "held Q' x"
  using assms by (auto simp: held_def claim_of_def) (metis claim.select_convs(1))

lemma claim_of_sel:
  "claim_of r = c \<Longrightarrow> cl_job_id c = ij_id (pj_job r)" "claim_of r = c \<Longrightarrow> cl_attempts c = pj_attempts r"
  "claim_of r = c \<Longrightarrow> cl_max_attempts c = pj_max_attempts r" "claim_of r = c \<Longrightarrow> cl_tenant_id c = ij_tenant_id (pj_job r)"
  by (auto simp: claim_of_def)

lemma in_update_row: "r \<in> set (update_row P f rows) \<longleftrightarrow> (\<exists>r0\<in>set rows. r = (if P r0 then f r0 else r0))"
  by (auto simp: update_row_def)

lemma row_sound_running: "row_sound r \<Longrightarrow> row_sound (mark_running now r)"
  by (simp add: row_sound_def mark_running_def)

lemma row_sound_finish:
  "status = Completed \<and> e = None \<and> result \<noteq> None \<or> status = Failed \<and> e \<noteq> None \<and> result = None
     \<or> status = Queued \<and> pj_attempts r < pj_max_attempts r \<Longrightarrow> row_sound (finish_row now status e result d r)"
  by (auto simp: row_sound_def finish_row_def settled_def)

lemma system_ok_submit:
  assumes "system_ok Q" "pg_submit (js_rows Q) now i t p = Inr (J, rows)"
  shows "system_ok (Q\<lparr>js_rows := rows\<rparr>)"
proof -
  let ?r = "\<lparr>pj_job = new_job now i t, pj_payload = p, pj_attempts = 0, pj_max_attempts = 3, pj_run_after = now, pj_locked_at = None\<rparr>"
  have r: "rows = js_rows Q @ [?r]" "list_all (\<lambda>r. ij_id (pj_job r) \<noteq> i) (js_rows Q)" "strip t = t" "t \<noteq> []"
    using assms(2) by (auto simp: pg_submit_def set_tenant_def list_ex_iff list_all_iff split: if_splits)
  have "row_sound ?r" by (simp add: row_sound_def new_job_def)
  moreover have "i \<notin> set (row_ids (js_rows Q))" using r(2) by (auto simp: row_ids_def list_all_iff)
  moreover have "held (Q\<lparr>js_rows := rows\<rparr>) x" if "held Q x" for x using that r(1) by (rule_tac held_other_row) auto
  ultimately show ?thesis using assms(1) r
    by (simp add: system_ok_def job_rows_ok_def row_ids_def new_job_def list_all_iff)
qed

lemma held_not_claimable:
  assumes "distinct (row_ids (js_rows Q))" "held Q x" "js_now Q \<le> snd x + lease" "r \<in> set (js_rows Q)" "claimable (js_now Q) r"
  shows "cl_job_id (fst x) \<noteq> ij_id (pj_job r)"
proof
  assume same: "cl_job_id (fst x) = ij_id (pj_job r)"
  obtain r' where r': "r' \<in> set (js_rows Q)" "claim_of r' = fst x" "ij_status (pj_job r') = Running" "pj_locked_at r' = Some (snd x)"
    using assms(2) by (auto simp: held_def)
  have "ij_id (pj_job r') = ij_id (pj_job r)" using claim_of_sel(1)[OF r'(2)] same by simp
  then have "r' = r" using row_unique assms(1,4) r'(1) by blast
  with r' assms(3,5) show False by (simp add: claimable_def)
qed

lemma system_ok_claim:
  assumes "system_ok Q" "within_lease Q" "claim_ingestion_job locked (js_now Q) (js_rows Q) = (Some c, rows)"
  shows "system_ok (Q\<lparr>js_rows := rows, js_inflight := (c, js_now Q) # js_inflight Q\<rparr>)" (is "system_ok ?Q")
proof -
  obtain r where r: "r \<in> set (js_rows Q)" "claimable (js_now Q) r" "c = claim_of (mark_running (js_now Q) r)"
    "rows = update_row (\<lambda>r'. ij_id (pj_job r') = ij_id (pj_job r)) (mark_running (js_now Q)) (js_rows Q)"
    using assms(3) by (rule claim_cases)
  have d: "distinct (row_ids (js_rows Q))" using assms(1) by (simp add: system_ok_def job_rows_ok_def)
  have other: "cl_job_id (fst x) \<noteq> ij_id (pj_job r)" if "x \<in> set (js_inflight Q)" for x
  proof (rule held_not_claimable[OF d _ _ r(1,2)])
    show "held Q x" "js_now Q \<le> snd x + lease"
      using that assms(1,2) by (auto simp: system_ok_def within_lease_def list_all_iff)
  qed
  have kept: "held ?Q x" if x: "x \<in> set (js_inflight Q)" for x
  proof (rule held_other_row)
    show "held Q x" using x assms(1) by (simp add: system_ok_def list_all_iff)
  next
    fix r' assume "r' \<in> set (js_rows Q)" "ij_id (pj_job r') = cl_job_id (fst x)"
    with other[OF x] show "r' \<in> set (js_rows ?Q)" unfolding r(4) by (auto simp: in_update_row intro!: bexI[of _ r'])
  qed
  have "mark_running (js_now Q) r \<in> set rows" unfolding r(4) in_update_row using r(1) by auto
  then have new: "held ?Q (c, js_now Q)"
    by (auto simp: held_def r(3) mark_running_def intro!: bexI[of _ "mark_running (js_now Q) r"])
  have sound: "list_all row_sound rows"
    using assms(1) by (auto simp: system_ok_def r(4) list_all_iff in_update_row row_sound_running)
  have id: "cl_job_id c = ij_id (pj_job r)" by (simp add: r(3) claim_of_def mark_running_def)
  have "job_rows_ok rows" using job_rows_ok_keys[OF claim_keys[OF assms(3)]] assms(1) by (simp add: system_ok_def)
  moreover have "cl_job_id c \<notin> set (map (cl_job_id \<circ> fst) (js_inflight Q))" using other id by force
  ultimately show ?thesis using sound new kept assms(1) by (simp add: system_ok_def list_all_iff)
qed

lemma distinct_remove1_other:
  assumes "distinct (map f xs)" "x \<in> set xs" "y \<in> set (remove1 x xs)"
  shows "f y \<noteq> f x"
proof -
  have "distinct xs" using assms(1) by (simp add: distinct_map)
  then have "y \<in> set xs" "y \<noteq> x" using assms(3) by auto
  with assms(1,2) show ?thesis by (auto simp: distinct_map dest: inj_onD)
qed

lemma distinct_map_remove1: "distinct (map f xs) \<Longrightarrow> distinct (map f (remove1 x xs))"
  by (induction xs) (auto dest: set_mp[OF set_remove1_subset])

lemma system_ok_finish:
  assumes "system_ok Q" "x \<in> set (js_inflight Q)" "finish_claim (js_rows Q) now (fst x) res = Inr rows"
  shows "system_ok (Q\<lparr>js_rows := rows, js_inflight := remove1 x (js_inflight Q)\<rparr>)" (is "system_ok ?Q")
proof -
  obtain st e result d where rows: "rows = update_row (\<lambda>r. own_row (cl_tenant_id (fst x)) (ij_tenant_id (pj_job r))
        \<and> ij_id (pj_job r) = cl_job_id (fst x)) (finish_row now st e result d) (js_rows Q)"
    and st: "st = Completed \<and> e = None \<and> result \<noteq> None \<or> st = Failed \<and> e \<noteq> None \<and> result = None
      \<or> st = Queued \<and> cl_attempts (fst x) < cl_max_attempts (fst x)"
    using assms(3) by (rule finish_claim_row)
  have d: "distinct (row_ids (js_rows Q))" using assms(1) by (simp add: system_ok_def job_rows_ok_def)
  obtain r0 where r0: "r0 \<in> set (js_rows Q)" "claim_of r0 = fst x"
    using assms(1,2) by (auto simp: system_ok_def list_all_iff held_def)
  have sound: "row_sound (finish_row now st e result d r)" if "r \<in> set (js_rows Q)" "ij_id (pj_job r) = cl_job_id (fst x)" for r
  proof -
    have "ij_id (pj_job r) = ij_id (pj_job r0)" using claim_of_sel(1)[OF r0(2)] that(2) by simp
    then have "r = r0" using row_unique[OF d that(1) r0(1)] by simp
    then have "cl_attempts (fst x) = pj_attempts r" "cl_max_attempts (fst x) = pj_max_attempts r"
      using claim_of_sel(2,3)[OF r0(2)] by simp_all
    with st show ?thesis by (auto intro: row_sound_finish)
  qed
  have "list_all row_sound rows" using assms(1) sound by (auto simp: system_ok_def rows list_all_iff in_update_row)
  moreover have "held ?Q y" if y: "y \<in> set (remove1 x (js_inflight Q))" for y
  proof (rule held_other_row)
    show "held Q y" using y assms(1) by (auto simp: system_ok_def list_all_iff dest: notin_set_remove1)
  next
    fix r assume "r \<in> set (js_rows Q)" "ij_id (pj_job r) = cl_job_id (fst y)"
    moreover have "cl_job_id (fst y) \<noteq> cl_job_id (fst x)"
      using distinct_remove1_other[OF _ assms(2) y, of "cl_job_id \<circ> fst"] assms(1) by (simp add: system_ok_def)
    ultimately show "r \<in> set (js_rows ?Q)" unfolding rows by (auto simp: in_update_row intro!: bexI[of _ r])
  qed
  moreover have "job_rows_ok rows" using job_rows_ok_keys[OF finish_claim_keys[OF assms(3)]] assms(1) by (simp add: system_ok_def)
  ultimately show ?thesis using assms(1) by (simp add: system_ok_def list_all_iff distinct_map_remove1)
qed

lemma system_ok_crash: "system_ok Q \<Longrightarrow> system_ok (Q\<lparr>js_inflight := remove1 x (js_inflight Q)\<rparr>)"
  by (auto simp: system_ok_def list_all_iff held_def distinct_map_remove1 dest: notin_set_remove1)

lemma system_ok_step:
  assumes "queue_step Q Q'" "system_ok Q" "within_lease Q"
  shows "system_ok Q'"
  using assms(1)
proof cases
  case (tick now)
  with assms(2) show ?thesis by (auto simp: system_ok_def held_def list_all_iff)
qed (use assms(2,3) in \<open>auto intro: system_ok_submit system_ok_claim system_ok_finish system_ok_crash\<close>)

lemma timely_ok: "timely Q \<Longrightarrow> system_ok Q \<and> within_lease Q"
  by (induction rule: timely.induct)
    (simp add: empty_system_def system_ok_def job_rows_ok_def row_ids_def within_lease_def, metis system_ok_step)

lemma settled_row_kept:
  assumes "system_ok Q" "queue_step Q Q'" "r \<in> set (js_rows Q)" "ij_status (pj_job r) \<in> {Completed, Failed}"
  shows "r \<in> set (js_rows Q')"
proof -
  have d: "distinct (row_ids (js_rows Q))" using assms(1) by (simp add: system_ok_def job_rows_ok_def)
  from assms(2) show ?thesis
  proof cases
    case (submit i t p J rows)
    then show ?thesis using assms(3) by (auto simp: pg_submit_def split: if_splits)
  next
    case (claim locked c rows)
    then obtain r' where r': "r' \<in> set (js_rows Q)" "claimable (js_now Q) r'"
      "rows = update_row (\<lambda>r. ij_id (pj_job r) = ij_id (pj_job r')) (mark_running (js_now Q)) (js_rows Q)"
      by (metis claim_cases)
    have "ij_id (pj_job r) \<noteq> ij_id (pj_job r')"
      using row_unique[OF d assms(3) r'(1)] r'(2) assms(4) by (auto simp: claimable_def)
    then show ?thesis using claim(1) r'(3) assms(3) by (auto simp: in_update_row intro!: bexI[of _ r])
  next
    case (finish x res rows)
    obtain r0 where r0: "r0 \<in> set (js_rows Q)" "claim_of r0 = fst x" "ij_status (pj_job r0) = Running"
      using assms(1) finish(2) by (auto simp: system_ok_def list_all_iff held_def)
    have "ij_id (pj_job r) \<noteq> cl_job_id (fst x)"
      using row_unique[OF d assms(3) r0(1)] claim_of_sel(1)[OF r0(2)] r0(3) assms(4) by auto
    then show ?thesis using finish(1,3) assms(3)
      by (elim finish_claim_row) (auto simp: in_update_row intro!: bexI[of _ r])
  qed (use assms(3) in simp_all)
qed

text \<open>C3. As long as every handler ends within its ten-minute lease, replicas do not get in each other's way:
  no job is handled by two workers, the row of a job being handled carries that attempt, queued jobs have
  attempts left, and a completed or failed job never changes again and no longer holds the upload.\<close>

theorem timely_queue_is_safe:
  assumes "timely Q" "r \<in> set (js_rows Q)"
  shows "distinct (map (cl_job_id \<circ> fst) (js_inflight Q)) \<and> list_all (held Q) (js_inflight Q) \<and> row_sound r
    \<and> (ij_status (pj_job r) \<in> {Completed, Failed} \<longrightarrow> (\<forall>Q'. queue_step Q Q' \<longrightarrow> r \<in> set (js_rows Q')))"
proof -
  have ok: "system_ok Q" using timely_ok[OF assms(1)] by simp
  then have "row_sound r" using assms(2) by (simp add: system_ok_def list_all_iff)
  with ok settled_row_kept[OF ok _ assms(2)] show ?thesis by (simp add: system_ok_def)
qed

definition job_id_1 :: string where
  "job_id_1 = ''00000000-0000-4000-8000-000000000001''"

definition upload_row :: pg_job where
  "upload_row = \<lparr>pj_job = new_job 0 job_id_1 ''a'', pj_payload = [(''content_base64'', JStr ''aGk='')], pj_attempts = 0,
     pj_max_attempts = 3, pj_run_after = 0, pj_locked_at = None\<rparr>"

lemma upload_submitted: "pg_submit [] 0 job_id_1 ''a'' [(''content_base64'', JStr ''aGk='')] = Inr (new_job 0 job_id_1 ''a'', [upload_row])"
  by (simp add: pg_submit_def set_tenant_def py_str is_space_def upload_row_def)

theorem timely_queue_is_safe_witness: "row_sound upload_row"
proof -
  let ?Q = "(empty_system 0)\<lparr>js_rows := [upload_row]\<rparr>"
  have "queue_step (empty_system 0) ?Q"
    using queue_step.submit[of "empty_system 0" job_id_1 "''a''" "[(''content_base64'', JStr ''aGk='')]"] upload_submitted
    by (simp add: empty_system_def)
  then have "timely ?Q" using timely.step[OF timely.start] by (simp add: within_lease_def empty_system_def)
  from timely_queue_is_safe[OF this, of upload_row] show ?thesis by simp
qed

definition handled_row :: "nat \<Rightarrow> real \<Rightarrow> pg_job" where
  "handled_row n now = upload_row\<lparr>pj_job := (pj_job upload_row)\<lparr>ij_status := Running, ij_updated_at := now\<rparr>, pj_attempts := n,
     pj_locked_at := Some now\<rparr>"

lemma upload_claims:
  "claim_ingestion_job [] 0 [upload_row] = (Some (claim_of (handled_row 1 0)), [handled_row 1 0])"
  "claim_ingestion_job [] 601 [handled_row 1 0] = (Some (claim_of (handled_row 2 601)), [handled_row 2 601])"
  by (simp_all add: claim_ingestion_job_def claimable_def upload_row_def handled_row_def new_job_def mark_running_def
      update_row_def lease_def numeral_2_eq_2)

definition completed_row :: pg_job where
  "completed_row = finish_row 602 Completed None (Some []) 0 (handled_row 2 601)"

lemma upload_finishes:
  "finish_claim [handled_row 2 601] 602 (claim_of (handled_row 2 601)) (Inr []) = Inr [completed_row]"
  "finish_claim [completed_row] 603 (claim_of (handled_row 1 0)) (Inl (RuntimeError ''timeout''))
     = Inr [finish_row 603 Queued (Some ''retrying after an internal error'') None 2 completed_row]"
  by (simp_all add: finish_claim_def finish_job_def set_tenant_def claim_of_def handled_row_def upload_row_def completed_row_def
      new_job_def py_str is_space_def update_row_def own_row_def finish_row_def)

text \<open>A worker that outlives its lease is not fenced off: two workers handle the same upload, the second
  one completes it, and the late failure of the first one puts the completed job back into the queue,
  although the upload it needs has been dropped.\<close>

theorem stale_worker_reopens_job:
  "\<exists>c1 c2 rows1 rows2 rows3 rows4. claim_ingestion_job [] 0 [upload_row] = (Some c1, rows1)
     \<and> claim_ingestion_job [] 601 rows1 = (Some c2, rows2)
     \<and> finish_claim rows2 602 c2 (Inr []) = Inr rows3 \<and> map (ij_status \<circ> pj_job) rows3 = [Completed]
     \<and> finish_claim rows3 603 c1 (Inl (RuntimeError ''timeout'')) = Inr rows4 \<and> map (ij_status \<circ> pj_job) rows4 = [Queued]
     \<and> map pj_payload rows4 = [[]]"
proof (intro exI conjI)
  show "map (ij_status \<circ> pj_job) [completed_row] = [Completed]"
    and "map (ij_status \<circ> pj_job) [finish_row 603 Queued (Some ''retrying after an internal error'') None 2 completed_row] = [Queued]"
    and "map pj_payload [finish_row 603 Queued (Some ''retrying after an internal error'') None 2 completed_row] = [[]]"
    by (simp_all add: completed_row_def finish_row_def handled_row_def upload_row_def)
qed (rule upload_claims upload_finishes)+

section \<open>Retries end\<close>

definition attempts_left :: "pg_job \<Rightarrow> nat" where
  "attempts_left r = (if ij_status (pj_job r) = Queued then pj_max_attempts r - pj_attempts r else 0)"

definition potential :: "pg_job list \<Rightarrow> nat" where
  "potential rows = sum_list (map attempts_left rows)"

definition at_rest :: "pg_job list \<Rightarrow> bool" where
  "at_rest rows = (job_rows_ok rows \<and> list_all (\<lambda>r. row_sound r \<and> ij_status (pj_job r) \<noteq> Running) rows)"

lemma finish_claim_defined:
  "strip (cl_tenant_id c) \<noteq> [] \<Longrightarrow> \<exists>rows'. finish_claim rows now c r = Inr rows'"
  by (auto simp: finish_claim_def finish_job_def set_tenant_def split: sum.split)

lemma sum_update_less:
  assumes "distinct (row_ids rows)" "r \<in> set rows" "attempts_left (f r) < attempts_left r"
  shows "sum_list (map attempts_left (update_row (\<lambda>r'. ij_id (pj_job r') = ij_id (pj_job r)) f rows)) < sum_list (map attempts_left rows)"
  using assms
proof (induction rows)
  case (Cons a rows)
  show ?case
  proof (cases "a = r")
    case True
    have "\<forall>r'\<in>set rows. ij_id (pj_job r') \<noteq> ij_id (pj_job r)" using Cons.prems(1) True
      by (simp add: row_ids_def image_iff) metis
    then have "update_row (\<lambda>r'. ij_id (pj_job r') = ij_id (pj_job r)) f rows = rows"
      unfolding update_row_def by (intro map_idI) simp
    then show ?thesis using True Cons.prems(3) by (simp add: update_row_def)
  next
    case False
    then have "r \<in> set rows" using Cons.prems(2) by simp
    moreover from this have "ij_id (pj_job a) \<noteq> ij_id (pj_job r)" using Cons.prems(1) by (auto simp: row_ids_def)
    ultimately show ?thesis using Cons by (simp add: update_row_def row_ids_def)
  qed
qed simp

lemma run_once_busy:
  assumes "at_rest rows" "run_once locked handler t1 t2 rows = Inr (True, rows')"
  obtains r st e result d where "r \<in> set rows" "ij_status (pj_job r) = Queued"
    "rows' = update_row (\<lambda>r'. ij_id (pj_job r') = ij_id (pj_job r)) (finish_row t2 st e result d \<circ> mark_running t1) rows"
    "st = Completed \<and> e = None \<and> result \<noteq> None \<or> st = Failed \<and> e \<noteq> None \<and> result = None
      \<or> st = Queued \<and> pj_attempts r + 1 < pj_max_attempts r"
proof -
  obtain c rows1 where c: "claim_ingestion_job locked t1 rows = (Some c, rows1)"
    "finish_claim rows1 t2 c (handler (cl_payload c)) = Inr rows'"
    using assms(2) by (auto simp: run_once_def split: prod.splits option.splits)
  obtain r where r: "r \<in> set rows" "claimable t1 r" "c = claim_of (mark_running t1 r)"
    "rows1 = update_row (\<lambda>r'. ij_id (pj_job r') = ij_id (pj_job r)) (mark_running t1) rows"
    using c(1) by (rule claim_cases)
  obtain st e result d where f: "rows' = update_row (\<lambda>r. own_row (cl_tenant_id c) (ij_tenant_id (pj_job r)) \<and> ij_id (pj_job r) = cl_job_id c)
       (finish_row t2 st e result d) rows1"
    and st: "st = Completed \<and> e = None \<and> result \<noteq> None \<or> st = Failed \<and> e \<noteq> None \<and> result = None
      \<or> st = Queued \<and> cl_attempts c < cl_max_attempts c"
    using c(2) by (rule finish_claim_row)
  have ids: "cl_job_id c = ij_id (pj_job r)" "cl_tenant_id c = ij_tenant_id (pj_job r)" "cl_attempts c = pj_attempts r + 1"
    "cl_max_attempts c = pj_max_attempts r" by (simp_all add: r(3) claim_of_def mark_running_def)
  have d: "distinct (row_ids rows)" and own: "own_row (ij_tenant_id (pj_job r)) (ij_tenant_id (pj_job r))"
    using assms(1) r(1) by (simp_all add: at_rest_def job_rows_ok_def list_all_iff own_row_def)
  have "rows' = update_row (\<lambda>r'. ij_id (pj_job r') = ij_id (pj_job r)) (finish_row t2 st e result d \<circ> mark_running t1) rows"
    unfolding f r(4) update_row_def ids map_map
  proof (intro map_cong refl)
    fix x assume "x \<in> set rows"
    then have "ij_id (pj_job x) = ij_id (pj_job r) \<Longrightarrow> x = r" using row_unique[OF d _ r(1)] by blast
    then show "((\<lambda>x. if own_row (ij_tenant_id (pj_job r)) (ij_tenant_id (pj_job x)) \<and> ij_id (pj_job x) = ij_id (pj_job r)
          then finish_row t2 st e result d x else x) \<circ> (\<lambda>x. if ij_id (pj_job x) = ij_id (pj_job r) then mark_running t1 x else x)) x
      = (if ij_id (pj_job x) = ij_id (pj_job r) then (finish_row t2 st e result d \<circ> mark_running t1) x else x)"
      using own by (auto simp: mark_running_def)
  qed
  moreover have "ij_status (pj_job r) = Queued"
    using r(1,2) assms(1) by (auto simp: claimable_def at_rest_def list_all_iff)
  ultimately show ?thesis using that r(1) st unfolding ids by blast
qed

text \<open>One busy \<open>run_once\<close> uses up an attempt and leaves no job running.\<close>

lemma run_once_progress:
  assumes "at_rest rows" "run_once locked handler t1 t2 rows = Inr (True, rows')"
  shows "at_rest rows' \<and> potential rows' < potential rows"
proof -
  obtain r st e result d where r: "r \<in> set rows" "ij_status (pj_job r) = Queued"
    "rows' = update_row (\<lambda>r'. ij_id (pj_job r') = ij_id (pj_job r)) (finish_row t2 st e result d \<circ> mark_running t1) rows"
    "st = Completed \<and> e = None \<and> result \<noteq> None \<or> st = Failed \<and> e \<noteq> None \<and> result = None
      \<or> st = Queued \<and> pj_attempts r + 1 < pj_max_attempts r"
    using assms by (rule run_once_busy)
  have d: "distinct (row_ids rows)" and q: "pj_attempts r < pj_max_attempts r"
    using assms(1) r(1,2) by (auto simp: at_rest_def job_rows_ok_def list_all_iff row_sound_def)
  have "attempts_left ((finish_row t2 st e result d \<circ> mark_running t1) r) < attempts_left r"
    using r(2,4) q by (auto simp: attempts_left_def finish_row_def mark_running_def)
  then have "potential rows' < potential rows" unfolding potential_def r(3) using sum_update_less[OF d r(1)] by blast
  moreover have "row_keys rows' = row_keys rows"
    by (simp add: r(3) row_keys_def update_row_def finish_row_def mark_running_def)
  moreover have "row_sound x \<and> ij_status (pj_job x) \<noteq> Running" if x: "x \<in> set rows'" for x
  proof -
    obtain x0 where x0: "x0 \<in> set rows" "x = (if ij_id (pj_job x0) = ij_id (pj_job r) then (finish_row t2 st e result d \<circ> mark_running t1) x0 else x0)"
      using x unfolding r(3) in_update_row by blast
    show ?thesis
    proof (cases "ij_id (pj_job x0) = ij_id (pj_job r)")
      case True
      then have "x = finish_row t2 st e result d (mark_running t1 r)" using x0 row_unique[OF d x0(1) r(1)] by simp
      moreover have "row_sound (finish_row t2 st e result d (mark_running t1 r))"
        using r(4) by (intro row_sound_finish) (auto simp: mark_running_def)
      moreover have "ij_status (pj_job (finish_row t2 st e result d (mark_running t1 r))) \<noteq> Running"
        using r(4) by (auto simp: finish_row_def)
      ultimately show ?thesis by simp
    qed (use x0 assms(1) in \<open>simp add: at_rest_def list_all_iff\<close>)
  qed
  ultimately show ?thesis using assms(1) job_rows_ok_keys by (auto simp: at_rest_def list_all_iff)
qed

lemma claim_none:
  assumes "claim_ingestion_job locked now rows = (None, rows')"
  shows "filter (\<lambda>r. claimable now r \<and> ij_id (pj_job r) \<notin> set locked) rows = []"
proof -
  let ?rs = "filter (\<lambda>r. claimable now r \<and> ij_id (pj_job r) \<notin> set locked) rows"
  have "sort_key claim_order ?rs = []" using assms by (auto simp: claim_ingestion_job_def split: list.splits)
  then have "length ?rs = 0" by (metis length_sort list.size(3))
  then show ?thesis by simp
qed

lemma run_once_idle:
  assumes "at_rest rows" "run_once [] handler t1 t2 rows = Inr (False, rows')" "\<forall>r\<in>set rows. pj_run_after r \<le> t1"
  shows "rows' = rows \<and> (\<forall>r\<in>set rows. settled (pj_job r))"
proof -
  have "filter (\<lambda>r. claimable t1 r \<and> ij_id (pj_job r) \<notin> set []) rows = []" and "rows' = rows"
    using assms(2) by (auto simp: run_once_def dest: claim_none split: prod.splits option.splits)
  then have "\<not> claimable t1 r" if "r \<in> set rows" for r using that by (simp add: filter_empty_conv)
  then have "ij_status (pj_job r) \<noteq> Queued" if "r \<in> set rows" for r using that assms(3) by (auto simp: claimable_def)
  moreover have "row_sound r" "ij_status (pj_job r) \<noteq> Running" if "r \<in> set rows" for r
    using that assms(1) by (auto simp: at_rest_def list_all_iff)
  ultimately have "settled (pj_job r)" if "r \<in> set rows" for r
    using that by (cases "ij_status (pj_job r)") (auto simp: row_sound_def)
  with \<open>rows' = rows\<close> show ?thesis by blast
qed

text \<open>A worker alone with the queue: \<open>busy_runs\<close> is a sequence of calls of \<open>run_once\<close> that each found a job.\<close>

inductive busy_runs :: "nat \<Rightarrow> pg_job list \<Rightarrow> pg_job list \<Rightarrow> bool" where
  none: "busy_runs 0 rows rows"
| more: "run_once locked handler t1 t2 rows = Inr (True, rows1) \<Longrightarrow> busy_runs n rows1 rows2 \<Longrightarrow> busy_runs (Suc n) rows rows2"

lemma busy_runs_potential: "busy_runs n rows rows' \<Longrightarrow> at_rest rows \<Longrightarrow> at_rest rows' \<and> n + potential rows' \<le> potential rows"
proof (induction rule: busy_runs.induct)
  case (more locked handler t1 t2 rows rows1 n rows2)
  then show ?case using run_once_progress[OF more.prems more.hyps(1)] by linarith
qed simp


lemma upload_at_rest: "at_rest [upload_row]"
  by (simp add: at_rest_def job_rows_ok_def row_ids_def upload_row_def new_job_def row_sound_def py_str is_space_def)

lemma upload_run: "run_once [] (\<lambda>_. Inr []) 0 1 [upload_row] = Inr (True, [finish_row 1 Completed None (Some []) 0 (handled_row 1 0)])"
  unfolding run_once_def upload_claims prod.case option.case
  by (simp add: finish_claim_def finish_job_def set_tenant_def claim_of_def handled_row_def upload_row_def
      new_job_def py_str is_space_def update_row_def own_row_def)


text \<open>A job is private to its tenant in the durable queue: after any further submissions the tenant reads
  it back and no other tenant does.\<close>

theorem pg_job_is_private:
  assumes "job_rows_ok rows" "is_uuid i" "uuid_in i = Some i" "i \<notin> set (row_ids rows)"
    and "pg_submit rows now i t p = Inr (J, rows1)" "(pgq.submits uuid_in)\<^sup>*\<^sup>* rows1 rows'" "t' \<noteq> t"
  shows "pg_get_job uuid_in rows' t i = Inr (Some J) \<and> pg_get_job uuid_in rows' t' i \<noteq> Inr (Some J')"
  using pgq.submitted_job_is_private[OF assms(1) conjI[OF assms(2,3)] assms(4,5,6)] assms(7) by blast

theorem pg_job_is_private_witness:
  "pg_get_job Some [upload_row] ''a'' job_id_1 = Inr (Some (new_job 0 job_id_1 ''a''))"
proof -
  have "is_uuid job_id_1" unfolding job_id_1_def by code_simp
  then show ?thesis
    using pg_job_is_private[OF _ _ _ _ upload_submitted, of Some "[upload_row]" "''b''"]
    by (simp add: job_rows_ok_def row_ids_def)
qed

end
