(* ===== verification/Parsers.thy ===== *)
theory Parsers
  imports Ingestion Py_Codec
begin

text \<open>
  Type detection and parsing of uploads (\<open>parsers.py\<close>). The content type comes from the bytes; PDF and HTML
  are parsed in a child process. What happens to that process, what the PDF reader extracts and the tags
  \<open>HTMLParser\<close> reports are parameters; extraction from them is modelled in full.
\<close>

section \<open>Content types\<close>

definition PDF :: string where "PDF = ''application/pdf''"
definition HTML :: string where "HTML = ''text/html''"
definition MARKDOWN :: string where "MARKDOWN = ''text/markdown''"
definition TEXT :: string where "TEXT = ''text/plain''"

definition EXTENSIONS :: "(string \<times> string) list" where
  "EXTENSIONS = [(''.pdf'', PDF), (''.html'', HTML), (''.htm'', HTML), (''.md'', MARKDOWN), (''.markdown'', MARKDOWN), (''.txt'', TEXT)]"

definition REJECTED_SIGNATURES :: "bytes list" where
  "REJECTED_SIGNATURES = [[CHR ''P'', CHR ''K'', CHR 0x03, CHR 0x04], ''MZ'', CHR 0x7F # ''ELF'', CHR 0x89 # ''PNG'', ''GIF8'',
     [CHR 0xFF, CHR 0xD8, CHR 0xFF]]"

definition MAX_PAGES :: nat where "MAX_PAGES = 500"
definition MAX_EXTRACTED_CHARS :: nat where "MAX_EXTRACTED_CHARS = 5000000"

record parsed_document =
  pd_content_type :: string
  pd_segments :: "segment list"

text \<open>\<open>Path(filename).suffix\<close>: of the last component, from its last dot, unless that dot is first or last.\<close>

definition path_name :: "string \<Rightarrow> string" where
  "path_name s = (case filter (\<lambda>p. p \<noteq> [] \<and> p \<noteq> ''.'') (split_on (CHR ''/'') s) of [] \<Rightarrow> [] | ps \<Rightarrow> last ps)"

definition path_suffix :: "string \<Rightarrow> string" where
  "path_suffix s =
     (let name = path_name s; tail = takeWhile (\<lambda>c. c \<noteq> CHR ''.'') (rev name); i = length name - length tail - 1 in
      if CHR ''.'' \<in> set name \<and> 0 < i \<and> tail \<noteq> [] then drop i name else [])"

text \<open>The pattern \<open>\s*(<!doctype\s+html|<html[\s>])\<close> on bytes, ignoring case.\<close>

definition is_bytes_space :: "char \<Rightarrow> bool" where
  "is_bytes_space c = (ord c = (32 :: nat) \<or> 9 \<le> (ord c :: nat) \<and> ord c \<le> (13 :: nat))"

definition HTML_HEAD_RE :: rx where
  "HTML_HEAD_RE = Seqs [Star (Cls is_bytes_space), Alts [
     Seqs [LitI ''<!doctype'', Plus (Cls is_bytes_space), LitI ''html''],
     Seqs [LitI ''<html'', Cls (\<lambda>c. is_bytes_space c \<or> c = CHR ''>'')]]]"

definition html_head :: "bytes \<Rightarrow> bool" where
  "html_head head = (mt HTML_HEAD_RE (None, head) \<noteq> [])"

definition textual :: "string \<Rightarrow> string \<Rightarrow> bool" where
  "textual a b = ({a, b} \<subseteq> {TEXT, MARKDOWN})"

text \<open>\<open>sniff\<close>, first the kind the bytes establish, then the two checks of what was declared.\<close>

definition sniff_kind :: "bytes \<Rightarrow> string \<Rightarrow> string res" where
  "sniff_kind data filename =
     (if take 5 data = ''%PDF-'' then Inr PDF
      else if list_ex (\<lambda>s. take (length s) data = s) REJECTED_SIGNATURES
      then Inl (UnsupportedDocumentError ''unsupported file type'')
      else if html_head (take 1024 data) then Inr HTML
      else case utf8_points (map ord data) of
        Inl _ \<Rightarrow> Inl (UnsupportedDocumentError ''text documents must be valid UTF-8'')
      | Inr _ \<Rightarrow> Inr (if lower (path_suffix filename) \<in> {''.md'', ''.markdown''} then MARKDOWN else TEXT))"

definition check_extension :: "string \<Rightarrow> string \<Rightarrow> unit res" where
  "check_extension filename kind =
     (case map_of EXTENSIONS (lower (path_suffix filename)) of
        Some extension_type \<Rightarrow>
          if extension_type \<noteq> kind \<and> \<not> textual extension_type kind
          then Inl (UnsupportedDocumentError (''file extension does not match its '' @ kind @ '' content'')) else Inr ()
      | None \<Rightarrow> Inr ())"

definition check_declared :: "string option \<Rightarrow> string \<Rightarrow> unit res" where
  "check_declared declared kind =
     (case declared of
        None \<Rightarrow> Inr ()
      | Some d \<Rightarrow> if d = [] then Inr ()
          else let declared_type = lower (strip (hd (split_on (CHR '';'') d))) in
            if declared_type \<notin> {PDF, HTML, MARKDOWN, TEXT}
            then Inl (UnsupportedDocumentError (''unsupported content type '' @ declared_type))
            else if declared_type \<noteq> kind \<and> \<not> textual declared_type kind
            then Inl (UnsupportedDocumentError ''declared content type does not match the content'')
            else Inr ())"

definition sniff :: "bytes \<Rightarrow> string \<Rightarrow> string option \<Rightarrow> string res" where
  "sniff data filename declared =
     bind_res (sniff_kind data filename) (\<lambda>kind.
     bind_res (check_extension filename kind) (\<lambda>_.
     bind_res (check_declared declared kind) (\<lambda>_. Inr kind)))"

section \<open>Extraction in the child process\<close>

datatype html_event = StartTag string | EndTag string | Data string

record extractor =
  ex_parts :: "string list"
  ex_skip_depth :: nat

definition SKIPPED :: "string list" where
  "SKIPPED = [''script'', ''style'', ''noscript'', ''template'', ''svg'', ''head'']"

definition BLOCKS :: "string list" where
  "BLOCKS = [''p'', ''div'', ''br'', ''li'', ''tr'', ''h1'', ''h2'', ''h3'', ''h4'', ''h5'', ''h6'', ''section'', ''title'']"

definition add_part :: "string \<Rightarrow> extractor \<Rightarrow> extractor" where
  "add_part s X = X\<lparr>ex_parts := ex_parts X @ [s]\<rparr>"

fun handle_event :: "extractor \<Rightarrow> html_event \<Rightarrow> extractor" where
  "handle_event X (StartTag tag) =
     (if tag \<in> set SKIPPED then X\<lparr>ex_skip_depth := ex_skip_depth X + 1\<rparr>
      else if tag \<in> set BLOCKS then add_part [CHR 0x0A] X else X)"
| "handle_event X (EndTag tag) =
     (if tag \<in> set SKIPPED \<and> ex_skip_depth X \<noteq> 0 then X\<lparr>ex_skip_depth := ex_skip_depth X - 1\<rparr>
      else if tag \<in> set BLOCKS then add_part [CHR 0x0A] X else X)"
| "handle_event X (Data s) = (if ex_skip_depth X = 0 then add_part s X else X)"

definition BLANK_LINES_RE :: rx where
  "BLANK_LINES_RE = Seqs [Lit [CHR 0x0A], Star (Cls is_space), Plus (Lit [CHR 0x0A])]"

definition parse_html :: "(bytes \<Rightarrow> html_event list) \<Rightarrow> bytes \<Rightarrow> segment list" where
  "parse_html html_events data =
     (let X = foldl handle_event \<lparr>ex_parts = [], ex_skip_depth = 0\<rparr> (html_events data);
          t = strip (re_sub BLANK_LINES_RE (\<lambda>_. [CHR 0x0A, CHR 0x0A]) (None, concat (ex_parts X))) in
      [(None, take MAX_EXTRACTED_CHARS t)])"

text \<open>The loop over the pages; a page is what \<open>extract_text() or ""\<close> gives.\<close>

fun pdf_loop :: "int \<Rightarrow> nat \<Rightarrow> string list \<Rightarrow> segment list res" where
  "pdf_loop number chars [] = Inr []"
| "pdf_loop number chars (page # pages) =
     (let t = strip page; chars' = chars + length t in
      if chars' > MAX_EXTRACTED_CHARS then Inl (UnsupportedDocumentError ''document has too much text'')
      else bind_res (pdf_loop (number + 1) chars' pages) (\<lambda>rest. Inr (if t \<noteq> [] then (Some number, t) # rest else rest)))"

definition parse_pdf :: "(bytes \<Rightarrow> (bool \<times> string list) res) \<Rightarrow> bytes \<Rightarrow> segment list res" where
  "parse_pdf read_pdf data =
     bind_res (read_pdf data) (\<lambda>(is_encrypted, pages).
     if is_encrypted then Inl (UnsupportedDocumentError ''encrypted PDFs are not supported'')
     else pdf_loop 1 0 (take MAX_PAGES pages))"

text \<open>
  The child process: its exit code, what it prints to stderr and the segments it writes. \<open>type_name\<close> is
  \<open>type(exc).__name__\<close>. JSON carries segments unchanged.
\<close>

fun is_unsupported :: "exn \<Rightarrow> bool" where
  "is_unsupported (UnsupportedDocumentError _) = True"
| "is_unsupported _ = False"

definition parser_main :: "(bytes \<Rightarrow> html_event list) \<Rightarrow> (bytes \<Rightarrow> (bool \<times> string list) res) \<Rightarrow> (exn \<Rightarrow> string) \<Rightarrow> string \<Rightarrow> bytes \<Rightarrow>
    int \<times> string \<times> segment list" where
  "parser_main html_events read_pdf type_name kind data =
     (case (if kind = PDF then parse_pdf read_pdf data else Inr (parse_html html_events data)) of
        Inr segments \<Rightarrow> (0, [], segments)
      | Inl e \<Rightarrow> if is_unsupported e then (2, exn_str e @ [CHR 0x0A], []) else (3, type_name e @ [CHR 0x0A], []))"

text \<open>The fate of the process: it ends by itself, runs into the timeout, or is killed by a resource limit,
  with an exit code and whatever it wrote to stderr.\<close>

datatype fate = Ends | TimesOut | Killed int string

definition run_sandboxed :: "fate \<Rightarrow> (string \<Rightarrow> bytes \<Rightarrow> int \<times> string \<times> segment list) \<Rightarrow> string \<Rightarrow> bytes \<Rightarrow> segment list res" where
  "run_sandboxed fate main kind data =
     (case fate of TimesOut \<Rightarrow> Inl (UnsupportedDocumentError ''document parsing timed out'')
      | _ \<Rightarrow>
        let (returncode, stderr, segments) = (case fate of Killed code err \<Rightarrow> (code, err, []) | _ \<Rightarrow> main kind data) in
        if returncode \<noteq> 0
        then let message = splitlines (strip stderr); reason = (if message \<noteq> [] then last message else ''parser crashed'') in
          Inl (UnsupportedDocumentError (''could not parse document: '' @ take 200 reason))
        else Inr segments)"

definition parse :: "fate \<Rightarrow> (string \<Rightarrow> bytes \<Rightarrow> int \<times> string \<times> segment list) \<Rightarrow> bytes \<Rightarrow> string \<Rightarrow> string option \<Rightarrow>
    parsed_document res" where
  "parse fate main data filename declared =
     bind_res (sniff data filename declared) (\<lambda>kind.
     if kind \<in> {TEXT, MARKDOWN}
     then bind_res (utf8_decode data) (\<lambda>t. Inr \<lparr>pd_content_type = kind, pd_segments = [(None, t)]\<rparr>)
     else bind_res (run_sandboxed fate main kind data) (\<lambda>segments.
       Inr \<lparr>pd_content_type = kind, pd_segments = segments\<rparr>))"

section \<open>What is accepted\<close>

lemma sniff_Inr:
  assumes "sniff data filename declared = Inr kind"
  shows "sniff_kind data filename = Inr kind"
    and "map_of EXTENSIONS (lower (path_suffix filename)) = Some e \<Longrightarrow> e = kind \<or> textual e kind"
    and "declared = Some d \<Longrightarrow> d \<noteq> [] \<Longrightarrow> lower (strip (hd (split_on (CHR '';'') d))) = kind
      \<or> textual (lower (strip (hd (split_on (CHR '';'') d)))) kind"
  using assms by (auto simp: sniff_def check_extension_def check_declared_def split: option.splits if_splits)

lemma kinds_distinct [simp]:
  "PDF \<noteq> HTML" "PDF \<noteq> TEXT" "PDF \<noteq> MARKDOWN" "HTML \<noteq> TEXT" "HTML \<noteq> MARKDOWN" "TEXT \<noteq> MARKDOWN"
  "HTML \<noteq> PDF" "TEXT \<noteq> PDF" "MARKDOWN \<noteq> PDF" "TEXT \<noteq> HTML" "MARKDOWN \<noteq> HTML" "MARKDOWN \<noteq> TEXT"
  by (simp_all add: PDF_def HTML_def TEXT_def MARKDOWN_def)

lemma sniff_kind_facts:
  assumes "sniff_kind data filename = Inr kind"
  shows "kind = PDF \<longleftrightarrow> take 5 data = ''%PDF-''"
    and "kind \<noteq> PDF \<Longrightarrow> list_all (\<lambda>s. take (length s) data \<noteq> s) REJECTED_SIGNATURES \<and> (kind = HTML \<longleftrightarrow> html_head (take 1024 data))"
    and "kind \<in> {TEXT, MARKDOWN} \<Longrightarrow> \<exists>ps. utf8_points (map ord data) = Inr ps"
  using assms by (auto simp: sniff_kind_def list_ex_iff list_all_iff split: if_splits sum.splits)

lemma textual_HTML [simp]: "\<not> textual HTML k" "\<not> textual PDF k"
  by (auto simp: textual_def)

lemma HTML_declared: "lower (strip (hd (split_on (CHR '';'') HTML))) = HTML"
  unfolding HTML_def by code_simp

lemma HTML_nonempty [simp]: "HTML \<noteq> []"
  by (simp add: HTML_def)



text \<open>A refused upload is an input error: no upload makes the parser fail otherwise.\<close>

lemma sniff_Inl: "sniff data filename declared = Inl e \<Longrightarrow> is_unsupported e"
proof -
  have "sniff_kind data filename = Inl e \<Longrightarrow> is_unsupported e"
    by (auto simp: sniff_kind_def split: if_splits sum.splits)
  moreover have "check_extension filename kind = Inl e \<Longrightarrow> is_unsupported e" for kind
    by (auto simp: check_extension_def split: if_splits option.splits)
  moreover have "check_declared declared kind = Inl e \<Longrightarrow> is_unsupported e" for kind
    by (cases declared) (auto simp: check_declared_def split: if_splits)
  moreover assume "sniff data filename declared = Inl e"
  ultimately show ?thesis by (auto simp: sniff_def bind_res_Inl_iff)
qed

lemma utf8_decode_Inl: "utf8_points (map ord data) = Inr ps \<Longrightarrow> utf8_decode data = Inl e \<Longrightarrow> e = outside_model"
  by (auto simp: utf8_decode_def split: if_splits)

lemma run_sandboxed_Inl: "run_sandboxed fate main kind data = Inl e \<Longrightarrow> is_unsupported e"
  by (auto simp: run_sandboxed_def split: fate.splits prod.splits if_splits)

lemma parse_Inl:
  assumes "parse fate main data filename declared = Inl e"
  shows "is_unsupported e \<or> e = outside_model"
proof (cases "sniff data filename declared")
  case (Inl e')
  with assms sniff_Inl show ?thesis by (auto simp: parse_def)
next
  case (Inr kind)
  have "e = outside_model" if "kind \<in> {TEXT, MARKDOWN}" "utf8_decode data = Inl e"
    using sniff_kind_facts(3)[OF sniff_Inr(1)[OF Inr] that(1)] that(2) utf8_decode_Inl by blast
  with assms Inr run_sandboxed_Inl show ?thesis by (auto simp: parse_def bind_res_Inl_iff split: if_splits)
qed

section \<open>What is extracted\<close>

definition extracted_chars :: "segment list \<Rightarrow> nat" where
  "extracted_chars segments = sum_list (map (length \<circ> snd) segments)"

lemma pdf_loop_segments:
  assumes "pdf_loop number chars pages = Inr segments"
  shows "sorted_wrt (<) (map (\<lambda>x. the (fst x)) segments)"
    and "\<forall>(n, t)\<in>set segments. \<exists>i<length pages. n = Some (number + int i) \<and> t = strip (pages ! i) \<and> t \<noteq> []"
    and "chars \<le> MAX_EXTRACTED_CHARS \<Longrightarrow> chars + extracted_chars segments \<le> MAX_EXTRACTED_CHARS"
proof -
  have "sorted_wrt (<) (map (\<lambda>x. the (fst x)) segments)
    \<and> (\<forall>(n, t)\<in>set segments. \<exists>i<length pages. n = Some (number + int i) \<and> t = strip (pages ! i) \<and> t \<noteq> [])
    \<and> (chars \<le> MAX_EXTRACTED_CHARS \<longrightarrow> chars + extracted_chars segments \<le> MAX_EXTRACTED_CHARS)"
    using assms
  proof (induction number chars pages arbitrary: segments rule: pdf_loop.induct)
    case (1 number chars)
    then show ?case by (simp add: extracted_chars_def)
  next
    case (2 number chars page pages)
    let ?t = "strip page"
    obtain rest where fits: "chars + length ?t \<le> MAX_EXTRACTED_CHARS"
      and rest: "pdf_loop (number + 1) (chars + length ?t) pages = Inr rest"
      and s: "segments = (if ?t \<noteq> [] then (Some number, ?t) # rest else rest)"
      using "2.prems" by (auto split: if_splits)
    from "2.IH"[OF refl refl _ rest] fits
    have IH: "sorted_wrt (<) (map (\<lambda>x. the (fst x)) rest)"
      "\<forall>(n, t)\<in>set rest. \<exists>i<length pages. n = Some (number + 1 + int i) \<and> t = strip (pages ! i) \<and> t \<noteq> []"
      "chars + length ?t + extracted_chars rest \<le> MAX_EXTRACTED_CHARS" by auto
    have "\<forall>(n, t)\<in>set rest. \<exists>i<length (page # pages). n = Some (number + int i) \<and> t = strip ((page # pages) ! i) \<and> t \<noteq> []"
      using IH(2) by (fastforce intro: exI[of _ "Suc _"])
    moreover have "\<forall>(n, t)\<in>set rest. number < the n" using IH(2) by fastforce
    ultimately show ?case using IH(1,3) s by (auto simp: extracted_chars_def)
  qed
  then show "sorted_wrt (<) (map (\<lambda>x. the (fst x)) segments)"
    and "\<forall>(n, t)\<in>set segments. \<exists>i<length pages. n = Some (number + int i) \<and> t = strip (pages ! i) \<and> t \<noteq> []"
    and "chars \<le> MAX_EXTRACTED_CHARS \<Longrightarrow> chars + extracted_chars segments \<le> MAX_EXTRACTED_CHARS" by blast+
qed


lemma sample_pdf: "parse_pdf (\<lambda>_. Inr (False, ['' one '', '' '', ''three''])) ''%PDF-'' = Inr [(Some 1, ''one''), (Some 3, ''three'')]"
proof -
  have t: "strip '' one '' = ''one''" "strip '' '' = []" "strip ''three'' = ''three''" by code_simp+
  have "(3 :: nat) \<le> MAX_EXTRACTED_CHARS" "(8 :: nat) \<le> MAX_EXTRACTED_CHARS" unfolding MAX_EXTRACTED_CHARS_def by simp_all
  then show ?thesis by (simp add: parse_pdf_def MAX_PAGES_def t not_less)
qed


text \<open>What stands inside a skipped element does not reach the text.\<close>

fun nested :: "nat \<Rightarrow> html_event list \<Rightarrow> bool" where
  "nested k [] = True"
| "nested k (StartTag t # es) = nested (if t \<in> set SKIPPED then k + 1 else k) es"
| "nested k (EndTag t # es) = (if t \<in> set SKIPPED then k > 0 \<and> nested (k - 1) es else nested k es)"
| "nested k (Data s # es) = nested k es"

fun is_data :: "html_event \<Rightarrow> bool" where
  "is_data (Data _) = True"
| "is_data _ = False"

lemma depth_add_part [simp]: "ex_skip_depth (add_part s X) = ex_skip_depth X"
  by (simp add: add_part_def)

lemma hidden_events: "nested k es \<Longrightarrow> k < ex_skip_depth X \<Longrightarrow> foldl handle_event X es = foldl handle_event X (filter (\<lambda>e. \<not> is_data e) es)"
proof (induction k es arbitrary: X rule: nested.induct)
  case (2 k t es)
  then show ?case by auto
next
  case (3 k t es)
  then show ?case by auto
qed auto

text \<open>C35. Hidden text is not indexed: the data inside a script, style or other skipped element, however deep its
  tags are nested, has no influence on the text extracted from a page.\<close>

theorem hidden_text_not_indexed:
  assumes "t \<in> set SKIPPED" "nested 0 mid" "nested 0 mid'" "filter (\<lambda>e. \<not> is_data e) mid = filter (\<lambda>e. \<not> is_data e) mid'"
  shows "parse_html (\<lambda>_. before @ StartTag t # mid @ EndTag t # rest) data
    = parse_html (\<lambda>_. before @ StartTag t # mid' @ EndTag t # rest) data"
proof -
  have "foldl handle_event X (StartTag t # mid @ EndTag t # rest) = foldl handle_event X (StartTag t # mid' @ EndTag t # rest)" for X
  proof -
    let ?X = "handle_event X (StartTag t)"
    have "0 < ex_skip_depth ?X" using assms(1) by simp
    then have "foldl handle_event ?X mid = foldl handle_event ?X mid'"
      using hidden_events[OF assms(2)] hidden_events[OF assms(3)] assms(4) by metis
    then show ?thesis by simp
  qed
  then show ?thesis unfolding parse_html_def by simp
qed

theorem hidden_text_not_indexed_witness:
  "parse_html (\<lambda>_. [] @ StartTag ''script'' # [Data ''alert(1)''] @ EndTag ''script'' # [Data ''ok'']) ''''
   = parse_html (\<lambda>_. [] @ StartTag ''script'' # [] @ EndTag ''script'' # [Data ''ok'']) ''''"
  by (rule hidden_text_not_indexed) (simp_all add: SKIPPED_def)

lemma parse_text_roundtrip:
  assumes "sniff (utf8_encode t) filename declared = Inr kind" "kind \<in> {TEXT, MARKDOWN}"
  shows "parse fate main (utf8_encode t) filename declared = Inr \<lparr>pd_content_type = kind, pd_segments = [(None, t)]\<rparr>"
  using assms by (auto simp: parse_def utf8_roundtrip)

end
