(* ===== verification/Py_Url.thy ===== *)
theory Py_Url
  imports Py_Codec
begin

text \<open>
  The parts of \<open>urllib.parse\<close> the program uses: \<open>urlsplit\<close> with the attributes of its result, and
  \<open>parse_qs\<close>. The check of a bracketed IP literal is a parameter. The NFKC check of the network location
  never fails on code points up to U+00FF.
\<close>

definition partition_at :: "char \<Rightarrow> string \<Rightarrow> string \<times> bool \<times> string" where
  "partition_at c s = (let a = takeWhile (\<lambda>d. d \<noteq> c) s in
     if c \<in> set s then (a, True, drop (length a + 1) s) else (s, False, []))"

definition rpartition_at :: "char \<Rightarrow> string \<Rightarrow> string \<times> bool \<times> string" where
  "rpartition_at c s = (let b = rev (takeWhile (\<lambda>d. d \<noteq> c) (rev s)) in
     if c \<in> set s then (take (length s - length b - 1) s, True, b) else ([], False, s))"

record split_result =
  u_scheme :: string
  u_netloc :: string
  u_path :: string
  u_query :: string

definition scheme_char :: "char \<Rightarrow> bool" where
  "scheme_char c = (is_ascii_alnum c \<or> c \<in> set ''+-.'')"

definition ascii_alpha :: "char \<Rightarrow> bool" where
  "ascii_alpha c = (is_ascii_alnum c \<and> \<not> is_decimal c)"

definition urlsplit :: "(string \<Rightarrow> bool) \<Rightarrow> string \<Rightarrow> split_result res" where
  "urlsplit bracket_ok raw =
     (let url = filter (\<lambda>c. ord c \<notin> {9, 10, 13 :: nat}) (dropWhile (\<lambda>c. ord c \<le> (32 :: nat)) raw);
          (s, colon, r) = partition_at (CHR '':'') url;
          (scheme, rest) = (if colon \<and> s \<noteq> [] \<and> ascii_alpha (hd s) \<and> list_all scheme_char s then (lower s, r) else ([], url));
          has_netloc = (take 2 rest = ''//'');
          netloc = (if has_netloc then takeWhile (\<lambda>c. c \<notin> set ''/?#'') (drop 2 rest) else []);
          rest' = (if has_netloc then drop (length netloc + 2) rest else rest);
          opened = (CHR ''['' \<in> set netloc); closed = (CHR '']'' \<in> set netloc) in
      if opened \<noteq> closed \<or> opened \<and> \<not> bracket_ok netloc then Inl (ValueError ''Invalid IPv6 URL'')
      else
        let (before_fragment, _, _) = partition_at (CHR ''#'') rest';
            (path, _, query) = partition_at (CHR ''?'') before_fragment in
        Inr \<lparr>u_scheme = scheme, u_netloc = netloc, u_path = path, u_query = query\<rparr>)"

definition url_credentials :: "split_result \<Rightarrow> string option \<times> string option" where
  "url_credentials U =
     (let (userinfo, have_info, _) = rpartition_at (CHR ''@'') (u_netloc U) in
      if have_info then let (username, have_password, password) = partition_at (CHR '':'') userinfo in
        (Some username, if have_password then Some password else None)
      else (None, None))"

definition hostinfo :: "split_result \<Rightarrow> string \<times> string" where
  "hostinfo U =
     (let (_, _, info) = rpartition_at (CHR ''@'') (u_netloc U);
          (_, have_open, bracketed) = partition_at (CHR ''['') info in
      if have_open then let (host, _, after_host) = partition_at (CHR '']'') bracketed; (_, _, port) = partition_at (CHR '':'') after_host in
        (host, port)
      else let (host, _, port) = partition_at (CHR '':'') info in (host, port))"

definition url_hostname :: "split_result \<Rightarrow> string option" where
  "url_hostname U =
     (let host = fst (hostinfo U) in
      if host = [] then None
      else let (name, percent, zone) = partition_at (CHR ''%'') host in
        Some (lower name @ (if percent then ''%'' else []) @ zone))"

definition url_port :: "split_result \<Rightarrow> int option res" where
  "url_port U =
     (let port = snd (hostinfo U) in
      if port = [] then Inr None
      else if \<not> list_all is_decimal port then Inl (ValueError ''Port could not be cast to integer value'')
      else bind_res (py_int port) (\<lambda>n. if n \<le> 65535 then Inr (Some n) else Inl (ValueError ''Port out of range 0-65535'')))"

text \<open>
  \<open>unquote\<close>: percent-escapes are bytes, decoded as UTF-8 in each run of ASCII characters. \<open>None\<close> is a
  text with a character outside the modelled strings (a replacement character included), which equals
  none of them.
\<close>

definition hex_val :: "char \<Rightarrow> nat option" where
  "hex_val c = (if CHR ''0'' \<le> c \<and> c \<le> CHR ''9'' then Some (ord c - 48)
     else if CHR ''a'' \<le> c \<and> c \<le> CHR ''f'' then Some (ord c - 87)
     else if CHR ''A'' \<le> c \<and> c \<le> CHR ''F'' then Some (ord c - 55) else None)"

fun unquote_to_bytes :: "string \<Rightarrow> bytes" where
  "unquote_to_bytes (c # a # b # s) =
     (case (hex_val a, hex_val b) of
        (Some x, Some y) \<Rightarrow> if c = CHR ''%'' then char_of (16 * x + y) # unquote_to_bytes s else c # unquote_to_bytes (a # b # s)
      | _ \<Rightarrow> c # unquote_to_bytes (a # b # s))"
| "unquote_to_bytes s = s"

function unquote_runs :: "string \<Rightarrow> string option" where
  "unquote_runs s =
     (if s = [] then Some []
      else if ord (hd s) < (128 :: nat)
      then let run = takeWhile (\<lambda>c. ord c < (128 :: nat)) s in
        (case (utf8_decode (unquote_to_bytes run), unquote_runs (drop (length run) s)) of
           (Inr t, Some u) \<Rightarrow> Some (t @ u) | _ \<Rightarrow> None)
      else map_option ((#) (hd s)) (unquote_runs (tl s)))"
  by pat_completeness auto
termination by (relation "measure length") (auto simp: neq_Nil_conv)

declare unquote_runs.simps [simp del]

definition unquote :: "string \<Rightarrow> string option" where
  "unquote s = (if CHR ''%'' \<in> set s then unquote_runs s else Some s)"

definition plus_to_space :: "string \<Rightarrow> string" where
  "plus_to_space s = map (\<lambda>c. if c = CHR ''+'' then CHR '' '' else c) s"

definition parse_qsl :: "string \<Rightarrow> (string option \<times> string option) list" where
  "parse_qsl qs = List.map_filter (\<lambda>field.
     let (name, eq, v) = partition_at (CHR ''='') field in
     if eq \<and> v \<noteq> [] then Some (unquote (plus_to_space name), unquote (plus_to_space v)) else None)
     (split_on (CHR ''&'') qs)"

text \<open>\<open>{key: values[-1] for key, values in parse_qs(query).items()}.get(k)\<close>\<close>

definition query_get :: "string \<Rightarrow> string \<Rightarrow> string option" where
  "query_get qs k = (case filter (\<lambda>x. fst x = Some k) (parse_qsl qs) of [] \<Rightarrow> None | xs \<Rightarrow> snd (last xs))"

end
