(* ===== verification/Byok.thy ===== *)
theory Byok
  imports Gateway Py_Url
begin

text \<open>
  Models that users bring (\<open>byok.py\<close>): the presets, the check that a custom URL leads to public addresses
  only, the validation of the settings of a request, and the gateway built from them. Name resolution,
  which may answer differently each time, and \<open>ipaddress\<close>'s \<open>is_global\<close> are parameters.
\<close>

record preset =
  pr_label :: string
  pr_base_url :: string
  pr_models :: "string list"
  pr_key_url :: string

definition PRESETS :: "(string \<times> preset) list" where
  "PRESETS =
    [(''groq'', \<lparr>pr_label = ''Groq'', pr_base_url = ''https://api.groq.com/openai/v1'',
       pr_models = [''llama-3.1-8b-instant'', ''llama-3.3-70b-versatile''], pr_key_url = ''https://console.groq.com/keys''\<rparr>),
     (''openai'', \<lparr>pr_label = ''OpenAI'', pr_base_url = ''https://api.openai.com/v1'',
       pr_models = [''gpt-4o-mini'', ''gpt-4o''], pr_key_url = ''https://platform.openai.com/api-keys''\<rparr>),
     (''openrouter'', \<lparr>pr_label = ''OpenRouter'', pr_base_url = ''https://openrouter.ai/api/v1'',
       pr_models = [''meta-llama/llama-3.1-8b-instruct''], pr_key_url = ''https://openrouter.ai/keys''\<rparr>),
     (''gemini'', \<lparr>pr_label = ''Google Gemini'', pr_base_url = ''https://generativelanguage.googleapis.com/v1beta/openai'',
       pr_models = [''gemini-2.0-flash''], pr_key_url = ''https://aistudio.google.com/apikey''\<rparr>),
     (''together'', \<lparr>pr_label = ''Together AI'', pr_base_url = ''https://api.together.xyz/v1'',
       pr_models = [''meta-llama/Llama-3.3-70B-Instruct-Turbo''], pr_key_url = ''https://api.together.ai/settings/api-keys''\<rparr>),
     (''mistral'', \<lparr>pr_label = ''Mistral'', pr_base_url = ''https://api.mistral.ai/v1'',
       pr_models = [''mistral-small-latest''], pr_key_url = ''https://console.mistral.ai/api-keys''\<rparr>)]"

definition CUSTOM :: string where
  "CUSTOM = ''custom''"

definition model_id :: "string \<Rightarrow> bool" where
  "model_id s = (1 \<le> length s \<and> length s \<le> 128 \<and> list_all (\<lambda>c. is_ascii_alnum c \<or> c \<in> set ''._:/@+-'') s)"

record llm_settings =
  ls_provider :: string
  ls_base_url :: string
  ls_model :: string
  ls_api_key :: string

definition custom_urls_allowed :: "environ \<Rightarrow> bool" where
  "custom_urls_allowed env = (getenv env ''RAG_ALLOW_CUSTOM_LLM_URL'' ''1'' \<noteq> ''0'')"

text \<open>
  The network as the check sees it: \<open>nv_resolve n host port\<close> is the \<open>n\<close>-th resolution, \<open>Inr None\<close> for
  \<open>gaierror\<close>, and \<open>Inl\<close> for another exception of the resolver.
\<close>

record net_view =
  nv_bracket_ok :: "string \<Rightarrow> bool"
  nv_resolve :: "nat \<Rightarrow> string \<Rightarrow> int \<Rightarrow> string list option res"
  nv_is_global :: "string \<Rightarrow> bool"

definition check_public_url :: "net_view \<Rightarrow> nat \<Rightarrow> string \<Rightarrow> unit res" where
  "check_public_url V n url =
     bind_res (urlsplit (nv_bracket_ok V) url) (\<lambda>parts.
     case url_hostname parts of
       None \<Rightarrow> Inl (LlmSettingsError ''custom LLM URLs must use https'')
     | Some host \<Rightarrow>
       if u_scheme parts \<noteq> ''https'' then Inl (LlmSettingsError ''custom LLM URLs must use https'')
       else if py_truthy (fst (url_credentials parts)) \<or> py_truthy (snd (url_credentials parts))
       then Inl (LlmSettingsError ''custom LLM URLs must not contain credentials'')
       else
         bind_res (url_port parts) (\<lambda>port.
         bind_res (nv_resolve V n host (case port of Some p \<Rightarrow> if p \<noteq> 0 then p else 443 | None \<Rightarrow> 443)) (\<lambda>infos.
         case infos of
           None \<Rightarrow> Inl (LlmSettingsError (''cannot resolve '' @ host))
         | Some addresses \<Rightarrow>
             if list_ex (\<lambda>a. \<not> nv_is_global V a) addresses
             then Inl (LlmSettingsError (host @ '' resolves to a private or internal address, which is not allowed''))
             else Inr ())))"

definition settings_url :: "net_view \<Rightarrow> nat \<Rightarrow> bool \<Rightarrow> jobj \<Rightarrow> string res" where
  "settings_url V n allow_custom value_obj =
     (case jget value_obj ''provider'' of
        JStr provider \<Rightarrow>
          if provider = CUSTOM then
            if \<not> allow_custom then Inl (LlmSettingsError ''custom LLM URLs are disabled on this server'')
            else (case jget value_obj ''base_url'' of
                JStr url \<Rightarrow>
                  if length url > 300 then Inl (LlmSettingsError ''base_url is required for a custom provider'')
                  else let base_url = rstrip_char (CHR ''/'') (strip url) in
                    bind_res (check_public_url V n base_url) (\<lambda>_. Inr base_url)
              | _ \<Rightarrow> Inl (LlmSettingsError ''base_url is required for a custom provider''))
          else (case map_of PRESETS provider of
              Some p \<Rightarrow> Inr (pr_base_url p)
            | None \<Rightarrow> Inl (LlmSettingsError (''provider must be one of: '' @ join '', '' (map fst PRESETS @ [CUSTOM]))))
      | _ \<Rightarrow> Inl (LlmSettingsError (''provider must be one of: '' @ join '', '' (map fst PRESETS @ [CUSTOM]))))"

definition parse_llm_settings :: "net_view \<Rightarrow> nat \<Rightarrow> bool \<Rightarrow> json \<Rightarrow> llm_settings option res" where
  "parse_llm_settings V n allow_custom value_json =
     (case value_json of
        JNull \<Rightarrow> Inr None
      | JObj value_obj \<Rightarrow>
          bind_res (settings_url V n allow_custom value_obj) (\<lambda>base_url.
          case (jget value_obj ''model'', jget value_obj ''api_key'', jstr (jget value_obj ''provider'')) of
            (JStr model, key, Some provider) \<Rightarrow>
              if \<not> model_id (strip model) then Inl (LlmSettingsError ''model must be a model ID such as llama-3.1-8b-instant'')
              else (case key of
                  JStr api_key \<Rightarrow>
                    if 8 \<le> length (strip api_key) \<and> length (strip api_key) \<le> 512
                    then Inr (Some \<lparr>ls_provider = provider, ls_base_url = base_url, ls_model = strip model, ls_api_key = strip api_key\<rparr>)
                    else Inl (LlmSettingsError ''api_key is missing or malformed'')
                | _ \<Rightarrow> Inl (LlmSettingsError ''api_key is missing or malformed''))
          | _ \<Rightarrow> Inl (LlmSettingsError ''model must be a model ID such as llama-3.1-8b-instant''))
      | _ \<Rightarrow> Inl (LlmSettingsError ''llm must be an object''))"

definition user_openai :: "net_view \<Rightarrow> environ \<Rightarrow> llm_settings \<Rightarrow> openai_provider res" where
  "user_openai V env settings =
     bind_res (py_float (getenv env ''RAG_MODEL_TIMEOUT_SECONDS'' ''30'')) (\<lambda>timeout.
     bind_res (py_int (getenv env ''RAG_MAX_OUTPUT_TOKENS'' ''512'')) (\<lambda>max_out.
     Inr (mk_openai (ls_base_url settings) (ls_api_key settings) (ls_model settings) timeout max_out
       (if ls_provider settings = CUSTOM then Some (check_public_url V) else None))))"

definition build_user_provider :: "net_view \<Rightarrow> (openai_provider \<Rightarrow> model_provider) \<Rightarrow> environ \<Rightarrow> llm_settings \<Rightarrow> gateway res" where
  "build_user_provider V run env settings =
     bind_res (user_openai V env settings) (\<lambda>provider.
     bind_res (py_int (getenv env ''RAG_MAX_CONTEXT_TOKENS'' ''3000'')) (\<lambda>mc.
     bind_res (py_int (getenv env ''RAG_MAX_HISTORY_TOKENS'' ''1000'')) (\<lambda>mh.
     bind_res (py_float (getenv env ''RAG_GENERATION_DEADLINE_SECONDS'' ''45'')) (\<lambda>dl.
     Inr \<lparr>gw_providers = [run provider], gw_budget = \<lparr>max_context_tokens = mc, max_history_tokens = mh\<rparr>, gw_pricing = [],
       gw_max_attempts = 2, gw_base_delay = 1/2, gw_max_delay = 8, gw_deadline = dl\<rparr>))))"

definition presets_for_ui :: "environ \<Rightarrow> jobj" where
  "presets_for_ui env =
     [(''providers'', JList (map (\<lambda>(k, p). JObj [(''id'', JStr k), (''label'', JStr (pr_label p)),
        (''models'', JList (map JStr (pr_models p))), (''key_url'', JStr (pr_key_url p))]) PRESETS)),
      (''custom_allowed'', JBool (custom_urls_allowed env))]"

section \<open>What the settings guarantee\<close>

text \<open>A URL that the check accepts: https, no credentials, and every address it resolves to is public.\<close>

definition public_url :: "net_view \<Rightarrow> nat \<Rightarrow> string \<Rightarrow> bool" where
  "public_url V n url = (\<exists>parts host port addresses. urlsplit (nv_bracket_ok V) url = Inr parts \<and> u_scheme parts = ''https''
     \<and> url_hostname parts = Some host \<and> \<not> py_truthy (fst (url_credentials parts)) \<and> \<not> py_truthy (snd (url_credentials parts))
     \<and> nv_resolve V n host port = Inr (Some addresses) \<and> list_all (nv_is_global V) addresses)"

lemma check_public_url_Inr:
  assumes "check_public_url V n url = Inr u"
  shows "public_url V n url"
proof -
  obtain parts where parts: "urlsplit (nv_bracket_ok V) url = Inr parts"
    using assms by (auto simp: check_public_url_def)
  obtain host where host: "url_hostname parts = Some host"
    using assms parts by (cases "url_hostname parts") (auto simp: check_public_url_def)
  have ok: "u_scheme parts = ''https''" "\<not> py_truthy (fst (url_credentials parts))" "\<not> py_truthy (snd (url_credentials parts))"
    using assms parts host by (auto simp: check_public_url_def split: if_splits)
  obtain port infos where infos: "nv_resolve V n host port = Inr infos"
    "(case infos of None \<Rightarrow> Inl (LlmSettingsError (''cannot resolve '' @ host))
      | Some addresses \<Rightarrow> if list_ex (\<lambda>a. \<not> nv_is_global V a) addresses
          then Inl (LlmSettingsError (host @ '' resolves to a private or internal address, which is not allowed'')) else Inr ()) = Inr u"
    using assms parts host ok unfolding check_public_url_def by (simp only: bind_res_simps option.case if_False simp_thms bind_res_Inr_iff) blast
  then obtain addresses where "infos = Some addresses" "list_all (nv_is_global V) addresses"
    by (cases infos) (auto simp: list_ex_iff list_all_iff split: if_splits)
  with parts host ok infos(1) show ?thesis unfolding public_url_def by blast
qed

lemma settings_url_Inr:
  assumes "settings_url V n allow_custom obj = Inr url"
  shows "(jget obj ''provider'' = JStr CUSTOM \<and> allow_custom \<and> public_url V n url)
    \<or> (\<exists>provider p. jget obj ''provider'' = JStr provider \<and> provider \<noteq> CUSTOM \<and> map_of PRESETS provider = Some p \<and> url = pr_base_url p)"
  using assms unfolding settings_url_def
  by (auto dest: check_public_url_Inr split: json.splits if_splits option.splits)

lemma parse_llm_settings_Inr:
  assumes "parse_llm_settings V n allow_custom j = Inr (Some s)"
  obtains obj where "j = JObj obj" "settings_url V n allow_custom obj = Inr (ls_base_url s)"
    "jget obj ''provider'' = JStr (ls_provider s)" "model_id (ls_model s)" "8 \<le> length (ls_api_key s)" "length (ls_api_key s) \<le> 512"
proof -
  obtain obj url where o: "j = JObj obj" "settings_url V n allow_custom obj = Inr url"
    using assms by (cases j) (auto simp: parse_llm_settings_def)
  then have "ls_base_url s = url \<and> jget obj ''provider'' = JStr (ls_provider s) \<and> model_id (ls_model s)
      \<and> 8 \<le> length (ls_api_key s) \<and> length (ls_api_key s) \<le> 512"
    using assms by (auto simp: parse_llm_settings_def jstr_Some_iff split: json.splits option.splits if_splits)
  with o that show ?thesis by blast
qed

text \<open>C31. The server cannot be steered into its own network by a request's model settings: accepted settings
  name a preset with its own URL, or a custom https URL without credentials whose host resolves to public
  addresses only, and then only if custom URLs are allowed; the model ID and the key are well formed.\<close>

theorem llm_settings_are_safe:
  assumes "parse_llm_settings V n allow_custom j = Inr (Some s)"
  shows "model_id (ls_model s) \<and> 8 \<le> length (ls_api_key s) \<and> length (ls_api_key s) \<le> 512
    \<and> (if ls_provider s = CUSTOM then allow_custom \<and> public_url V n (ls_base_url s)
       else \<exists>p. map_of PRESETS (ls_provider s) = Some p \<and> ls_base_url s = pr_base_url p)"
proof -
  obtain obj where "settings_url V n allow_custom obj = Inr (ls_base_url s)" "jget obj ''provider'' = JStr (ls_provider s)"
    "model_id (ls_model s)" "8 \<le> length (ls_api_key s)" "length (ls_api_key s) \<le> 512"
    using assms by (rule parse_llm_settings_Inr)
  with settings_url_Inr[of V n allow_custom obj "ls_base_url s"] show ?thesis by auto
qed

definition sample_net :: net_view where
  "sample_net = \<lparr>nv_bracket_ok = (\<lambda>_. True), nv_resolve = (\<lambda>_ _ _. Inr (Some [''93.184.216.34''])), nv_is_global = (\<lambda>a. a = ''93.184.216.34'')\<rparr>"

lemma sample_settings:
  "parse_llm_settings sample_net 0 True (JObj [(''provider'', JStr ''custom''), (''base_url'', JStr ''https://llm.example/v1''),
     (''model'', JStr ''m''), (''api_key'', JStr ''12345678'')])
   = Inr (Some \<lparr>ls_provider = ''custom'', ls_base_url = ''https://llm.example/v1'', ls_model = ''m'', ls_api_key = ''12345678''\<rparr>)"
  by code_simp

theorem llm_settings_are_safe_witness: "public_url sample_net 0 ''https://llm.example/v1''"
  using llm_settings_are_safe[OF sample_settings] by (simp add: CUSTOM_def)

text \<open>
  The check is made again before every request: where it fails, what the network would answer does not
  matter, because nothing is sent.
\<close>

definition agree_when_public :: "net_view \<Rightarrow> string \<Rightarrow> transport \<Rightarrow> transport \<Rightarrow> bool" where
  "agree_when_public V url net net' = (\<forall>n rq. public_url V n url \<longrightarrow> net n rq = net' n rq)"

lemma guarded_request:
  assumes "oa_url_guard P = Some (check_public_url V)" "agree_when_public V (oa_base_url P) net net'"
  shows "openai_request P net n messages = openai_request P net' n messages"
  using assms check_public_url_Inr[of V n "oa_base_url P"]
  by (cases "check_public_url V n (oa_base_url P)") (auto simp: openai_request_def agree_when_public_def)

lemma user_openai_custom:
  assumes "user_openai V env s = Inr P" "ls_provider s = CUSTOM"
  shows "oa_url_guard P = Some (check_public_url V)"
  using assms by (auto simp: user_openai_def mk_openai_def)

text \<open>C32. A custom model is only ever called at a public address: replacing the network by any other one that
  agrees at the moments when the URL passes the check changes neither the answer of the model nor the
  rewritten question.\<close>

theorem custom_requests_are_guarded:
  assumes "user_openai V env s = Inr P" "ls_provider s = CUSTOM" "agree_when_public V (oa_base_url P) net net'"
  shows "openai_complete rep P net question sources history = openai_complete rep P net' question sources history
    \<and> openai_rewrite_query rep P net question history = openai_rewrite_query rep P net' question history"
proof -
  have r: "openai_request P net n messages = openai_request P net' n messages" for n messages
    using guarded_request[OF user_openai_custom[OF assms(1,2)] assms(3)] .
  then have "openai_generation rep P net n messages = openai_generation rep P net' n messages" for n messages
    by (simp add: openai_generation_def)
  with r show ?thesis by (simp only: openai_complete_def openai_rewrite_query_def)
qed

definition private_net :: net_view where
  "private_net = sample_net\<lparr>nv_is_global := (\<lambda>_. False)\<rparr>"

theorem custom_requests_are_guarded_witness:
  "openai_complete (\<lambda>_. []) (mk_openai ''https://llm.example/v1'' ''12345678'' ''m'' 30 512 (Some (check_public_url private_net)))
     (\<lambda>_ _. Inr (JStr ''secret'')) ''q'' [] []
   = openai_complete (\<lambda>_. []) (mk_openai ''https://llm.example/v1'' ''12345678'' ''m'' 30 512 (Some (check_public_url private_net)))
     (\<lambda>_ _. Inl URLError) ''q'' [] []"
proof -
  let ?s = "\<lparr>ls_provider = CUSTOM, ls_base_url = ''https://llm.example/v1'', ls_model = ''m'', ls_api_key = ''12345678''\<rparr>"
  have "py_float ''30'' = Inr 30" "py_int ''512'' = Inr 512" by code_simp+
  then have P: "user_openai private_net (\<lambda>_. None) ?s =
      Inr (mk_openai ''https://llm.example/v1'' ''12345678'' ''m'' 30 512 (Some (check_public_url private_net)))"
    by (simp add: user_openai_def getenv_def)
  have "\<not> public_url private_net n u" for n u by (auto simp: public_url_def private_net_def sample_net_def)
  then have "agree_when_public private_net u net net'" for u net net' by (simp add: agree_when_public_def)
  from custom_requests_are_guarded[OF P _ this] show ?thesis by simp
qed

text \<open>
  A port out of range makes the check raise a \<open>ValueError\<close> that is not an \<open>LlmSettingsError\<close>, so the
  caller, who only expects the latter, does not report it as a fault of the settings.
\<close>

lemma bad_port_is_not_a_settings_error:
  "parse_llm_settings V n True (JObj [(''provider'', JStr ''custom''), (''base_url'', JStr ''https://h:70000''),
     (''model'', JStr ''m''), (''api_key'', JStr ''12345678'')]) = Inl (ValueError ''Port out of range 0-65535'')"
proof -
  have "urlsplit (nv_bracket_ok V) ''https://h:70000'' = Inr \<lparr>u_scheme = ''https'', u_netloc = ''h:70000'', u_path = [], u_query = []\<rparr>"
    by (simp add: urlsplit_def partition_at_def scheme_char_def ascii_alpha_def is_ascii_alnum_def is_decimal_def lower_def lower_char_def)
  moreover have "rstrip_char (CHR ''/'') (strip ''https://h:70000'') = ''https://h:70000''" by code_simp
  moreover let ?U = "\<lparr>u_scheme = ''https'', u_netloc = ''h:70000'', u_path = [], u_query = []\<rparr>"
  have "url_hostname ?U = Some ''h''" "url_credentials ?U = (None, None)" "url_port ?U = Inl (ValueError ''Port out of range 0-65535'')"
    by code_simp+
  ultimately show ?thesis
    by (simp add: parse_llm_settings_def settings_url_def jget_def CUSTOM_def check_public_url_def py_truthy_def)
qed

end
