(* ===== verification/Api_Documents.thy ===== *)
theory Api_Documents
  imports Memory_Store Postgres_Store Py_Url Reranker Workers Parsers Byok History Observability Auth
begin

text \<open>
  The application of \<open>api.py\<close>, first part: its state, the store behind it, the validation of uploads, the
  ingestion of a job and the document endpoints. A handler is a function from the state to an outcome and
  the next state; an exception keeps the changes made before it. \<open>world\<close> holds what the environment
  contributes to one request.
\<close>

section \<open>State\<close>

datatype storage = Memory memory_store | Postgres pg_store

datatype history = MemoryHistory history_store | PostgresHistory chat_table

datatype jobs = InProcess worker | Durable "pg_job list"

record app_state =
  ap_store :: storage
  ap_history :: history
  ap_jobs :: jobs
  ap_embedder :: embedder
  ap_reranker :: reranker
  ap_limiter :: rate_limiter
  ap_budget :: token_budget
  ap_metrics :: metrics
  ap_gateway :: gw_state

text \<open>The configuration fixed by \<open>__init__\<close>; no provider stands for \<open>ExtractiveProvider\<close>.\<close>

record app_config =
  cf_keys :: key_store
  cf_min_score :: real
  cf_relative_score :: real
  cf_max_body_bytes :: int
  cf_ingestion :: pipeline
  cf_provider :: "gateway option"
  cf_environ :: environ

record world =
  w_sha256 :: "bytes \<Rightarrow> string"
  w_uuid :: "nat \<Rightarrow> string"
  w_now :: int
  w_time :: real
  w_monotonic :: real
  w_request_uuid :: string
  w_arrow :: string
  w_elapsed :: real
  w_day :: string
  w_clock :: "int \<times> int \<times> int"
  w_fromisoformat :: "string \<Rightarrow> int option"
  w_isoformat :: "int \<Rightarrow> string"
  w_job_isoformat :: "real \<Rightarrow> string"
  w_repr :: "json \<Rightarrow> string"
  w_json_loads :: "bytes \<Rightarrow> json res"
  w_bracket_ok :: "string \<Rightarrow> bool"
  w_fate :: fate
  w_parser :: "string \<Rightarrow> bytes \<Rightarrow> int \<times> string \<times> segment list"
  w_embed_installed :: bool
  w_embed_passages :: "int \<Rightarrow> string list \<Rightarrow> real list list"
  w_embed_question :: "string \<Rightarrow> real list list"
  w_vdist :: "real list \<Rightarrow> real list \<Rightarrow> real"
  w_hits :: "string \<Rightarrow> string \<Rightarrow> bool"
  w_ts_rank :: "string \<Rightarrow> string \<Rightarrow> real"
  w_rerank_import :: "(string \<Rightarrow> unit res) option"
  w_predict :: "(string \<times> string) list \<Rightarrow> real list res"
  w_uuid_in :: "string \<Rightarrow> string option"
  w_database_up :: bool
  w_net :: net_view
  w_run :: "openai_provider \<Rightarrow> model_provider"
  w_gateway_clock :: "nat \<Rightarrow> real"
  w_random :: "nat \<Rightarrow> real \<Rightarrow> real"

record request =
  rq_params :: "(string \<times> string) list"
  rq_body :: jobj
  rq_request_id :: string
  rq_caller :: principal
  rq_query :: string

section \<open>Handlers\<close>

type_synonym 'a act = "app_state \<Rightarrow> 'a res \<times> app_state"

definition ret :: "'a \<Rightarrow> 'a act" where
  "ret x = (\<lambda>S. (Inr x, S))"

definition raise :: "exn \<Rightarrow> 'a act" where
  "raise e = (\<lambda>S. (Inl e, S))"

definition lift_res :: "'a res \<Rightarrow> 'a act" where
  "lift_res r = (\<lambda>S. (r, S))"

definition reading :: "(app_state \<Rightarrow> 'a res) \<Rightarrow> 'a act" where
  "reading f = (\<lambda>S. (f S, S))"

definition bind_act :: "'a act \<Rightarrow> ('a \<Rightarrow> 'b act) \<Rightarrow> 'b act" where
  "bind_act m f = (\<lambda>S. case m S of (Inl e, S') \<Rightarrow> (Inl e, S') | (Inr x, S') \<Rightarrow> f x S')"

text \<open>\<open>try: m except P as exc: raise handler(exc)\<close>\<close>

definition catching :: "(exn \<Rightarrow> bool) \<Rightarrow> (exn \<Rightarrow> exn) \<Rightarrow> 'a act \<Rightarrow> 'a act" where
  "catching P h m = (\<lambda>S. case m S of (Inl e, S') \<Rightarrow> (Inl (if P e then h e else e), S') | r \<Rightarrow> r)"

definition api_error :: "int \<Rightarrow> string \<Rightarrow> exn" where
  "api_error status message = ApiError status message []"

lemma act_simps [simp]:
  "bind_act (ret x) f = f x" "bind_act (raise e) f = raise e" "bind_act (lift_res (Inr x)) f = f x"
  "bind_act (lift_res (Inl e)) f = raise e"
  by (simp_all add: bind_act_def ret_def raise_def lift_res_def)

definition upd_store :: "(storage \<Rightarrow> 'a res \<times> storage) \<Rightarrow> 'a act" where
  "upd_store f = (\<lambda>S. case f (ap_store S) of (r, st) \<Rightarrow> (r, S\<lparr>ap_store := st\<rparr>))"

text \<open>A transaction of the database: on an exception nothing changes.\<close>

definition transact :: "pg_store \<Rightarrow> ('a \<times> pg_store) res \<Rightarrow> 'a res \<times> storage" where
  "transact P r = (case r of Inl e \<Rightarrow> (Inl e, Postgres P) | Inr (x, P') \<Rightarrow> (Inr x, Postgres P'))"

section \<open>The store behind the API\<close>

fun store_current_version :: "storage \<Rightarrow> string \<Rightarrow> source_ref \<Rightarrow> string list \<Rightarrow> doc_meta option res" where
  "store_current_version (Memory M) t src g = Inr (current_version M t src g)"
| "store_current_version (Postgres P) t src g = pg_current_version P t src g"

fun store_mark_checked :: "int \<Rightarrow> string \<Rightarrow> string \<Rightarrow> storage \<Rightarrow> unit res \<times> storage" where
  "store_mark_checked now t d (Memory M) = (Inr (), Memory (mark_checked M now t d))"
| "store_mark_checked now t d (Postgres P) =
     transact P (bind_res (pg_mark_checked P now t d) (\<lambda>P'. Inr ((), P')))"

fun store_update_document :: "int \<Rightarrow> string \<Rightarrow> string \<Rightarrow> string list \<Rightarrow> string list option \<Rightarrow> string option \<Rightarrow> storage \<Rightarrow>
    (bool \<times> doc_meta option) res \<times> storage" where
  "store_update_document now t d g allowed display (Memory M) =
     (case update_document M now t d g allowed display of (r, M') \<Rightarrow> (Inr r, Memory M'))"
| "store_update_document now t d g allowed display (Postgres P) =
     transact P (pg_update_document P now t d g allowed display)"

fun store_list_documents :: "storage \<Rightarrow> string \<Rightarrow> string list \<Rightarrow> bool \<Rightarrow> doc_meta list res" where
  "store_list_documents (Memory M) t g b = Inr (list_documents M t g b)"
| "store_list_documents (Postgres P) t g b = pg_list_documents P t g b"

fun store_get_document :: "storage \<Rightarrow> string \<Rightarrow> string \<Rightarrow> string list \<Rightarrow> doc_meta option res" where
  "store_get_document (Memory M) t d g = Inr (get_document M t d g)"
| "store_get_document (Postgres P) t d g = pg_get_document P t d g"

fun store_delete_document :: "string \<Rightarrow> string \<Rightarrow> string list \<Rightarrow> storage \<Rightarrow> bool res \<times> storage" where
  "store_delete_document t d g (Memory M) = (case delete_document M t d g of (b, M') \<Rightarrow> (Inr b, Memory M'))"
| "store_delete_document t d g (Postgres P) = transact P (pg_delete_document P t d g)"

section \<open>Validating an upload\<close>

definition tenant_of :: "request \<Rightarrow> string res" where
  "tenant_of rq =
     (case jget (rq_body rq) ''tenant_id'' of
        JNull \<Rightarrow> Inr (p_tenant_id (rq_caller rq))
      | JStr claimed \<Rightarrow>
          if strip claimed \<noteq> p_tenant_id (rq_caller rq)
          then Inl (api_error 403 ''tenant_id does not match authenticated identity'')
          else Inr (p_tenant_id (rq_caller rq))
      | _ \<Rightarrow> Inl (api_error 403 ''tenant_id does not match authenticated identity''))"

definition source_system_ok :: "string \<Rightarrow> bool" where
  "source_system_ok s = (1 \<le> length s \<and> length s \<le> 32
     \<and> list_all (\<lambda>c. CHR ''a'' \<le> c \<and> c \<le> CHR ''z'' \<or> CHR ''0'' \<le> c \<and> c \<le> CHR ''9'' \<or> c \<in> set ''_-'') s)"

definition source_fields :: "world \<Rightarrow> jobj \<Rightarrow> string \<Rightarrow> jobj res" where
  "source_fields W payload filename =
     (let system = jget_or payload ''source_system'' (JStr ''upload'');
          source_id = jget_or payload ''source_id'' (JStr filename);
          version = jget payload ''source_version''; modified = jget payload ''source_modified_at'' in
      if \<not> (case system of JStr s \<Rightarrow> source_system_ok s | _ \<Rightarrow> False)
      then Inl (ValueError ''source_system must be 1-32 lowercase letters, digits, - or _'')
      else if \<not> (case source_id of JStr s \<Rightarrow> strip s \<noteq> [] \<and> length s \<le> 512 | _ \<Rightarrow> False)
      then Inl (ValueError ''source_id must be a non-empty string of at most 512 characters'')
      else if \<not> (case version of JNull \<Rightarrow> True | JStr s \<Rightarrow> length s \<le> 256 | _ \<Rightarrow> False)
      then Inl (ValueError ''source_version must be a string of at most 256 characters'')
      else if modified \<noteq> JNull \<and> w_fromisoformat W (json_str (w_repr W) modified) = None
      then Inl (ValueError ''source_modified_at must be an ISO-8601 timestamp'')
      else Inr [(''source_system'', system), (''source_id'', case source_id of JStr s \<Rightarrow> JStr (strip s) | j \<Rightarrow> j),
        (''source_version'', version), (''source_modified_at'', modified)])"

definition upload_content :: "jobj \<Rightarrow> string res" where
  "upload_content payload =
     (case (jget payload ''content'', jget payload ''content_base64'') of
        (JStr t, JNull) \<Rightarrow> Inr (b64_encode (utf8_encode t))
      | (JNull, JStr encoded) \<Rightarrow>
          (case b64_decode encoded of
             Inl _ \<Rightarrow> Inl (ValueError ''content_base64 is not valid base64'')
           | Inr _ \<Rightarrow> Inr encoded)
      | _ \<Rightarrow> Inl (ValueError ''send exactly one of content (text) or content_base64 (file)''))"

definition document_job :: "world \<Rightarrow> request \<Rightarrow> jobj res" where
  "document_job W rq =
     (let payload = rq_body rq in
      case jget payload ''filename'' of
        JStr filename \<Rightarrow>
          if strip filename = [] then Inl (ValueError ''filename is required'')
          else
            bind_res (upload_content payload) (\<lambda>encoded.
            let content_type = jget payload ''content_type'' in
            if \<not> (case content_type of JNull \<Rightarrow> True | JStr _ \<Rightarrow> True | _ \<Rightarrow> False)
            then Inl (ValueError ''content_type must be a string'')
            else
              bind_res (tenant_of rq) (\<lambda>tenant.
              bind_res (if jhas payload ''allowed_groups''
                  then bind_res (normalize_groups (jget payload ''allowed_groups'')) (\<lambda>gs. Inr (JList (map JStr gs)))
                  else Inr JNull) (\<lambda>allowed.
              bind_res (source_fields W payload (strip filename)) (\<lambda>source.
              Inr ([(''tenant_id'', JStr tenant), (''filename'', JStr (strip filename)), (''content_base64'', JStr encoded),
                (''content_type'', content_type), (''allowed_groups'', allowed)] @ source @
                [(''groups'', JList (map JStr (caller_groups (rq_caller rq))))])))))
      | _ \<Rightarrow> Inl (ValueError ''filename is required''))"

section \<open>Ingesting a job\<close>

text \<open>Reading a job; only a job made by hand has a value of another type.\<close>

definition job_str :: "jobj \<Rightarrow> string \<Rightarrow> string res" where
  "job_str job k = (case map_of job k of
     None \<Rightarrow> Inl (KeyError k) | Some (JStr s) \<Rightarrow> Inr s | Some _ \<Rightarrow> Inl (OtherError ''TypeError''))"

definition job_strings :: "json \<Rightarrow> string list" where
  "job_strings j = (case j of JList gs \<Rightarrow> List.map_filter jstr gs | _ \<Rightarrow> [])"

definition job_groups :: "jobj \<Rightarrow> string list" where
  "job_groups job = job_strings (jget job ''groups'')"

definition job_allowed :: "jobj \<Rightarrow> string list option res" where
  "job_allowed job = (case map_of job ''allowed_groups'' of
     None \<Rightarrow> Inl (KeyError ''allowed_groups'') | Some JNull \<Rightarrow> Inr None | Some j \<Rightarrow> Inr (Some (job_strings j)))"

definition job_source :: "world \<Rightarrow> jobj \<Rightarrow> source_ref res" where
  "job_source W job =
     bind_res (case jget job ''source_id'' of
         JStr s \<Rightarrow> if s \<noteq> [] then Inr s else job_str job ''filename''
       | _ \<Rightarrow> job_str job ''filename'') (\<lambda>i.
     bind_res (let modified = jget job ''source_modified_at'' in
         if \<not> jtruthy modified then Inr None
         else case modified of
           JStr s \<Rightarrow> (case w_fromisoformat W s of None \<Rightarrow> Inl (ValueError ''Invalid isoformat string'') | Some n \<Rightarrow> Inr (Some n))
         | _ \<Rightarrow> Inl (OtherError ''TypeError: fromisoformat: argument must be str'')) (\<lambda>modified.
     Inr \<lparr>src_system = (case jget_or job ''source_system'' (JStr ''upload'') of JStr s \<Rightarrow> s | _ \<Rightarrow> []),
       src_id = i, src_version = jstr (jget job ''source_version''), src_modified_at = modified\<rparr>))"

definition stored_json :: "string \<Rightarrow> string \<Rightarrow> string \<Rightarrow> string \<Rightarrow> string \<Rightarrow> nat \<Rightarrow> string list \<Rightarrow> nat \<Rightarrow> bool \<Rightarrow> bool \<Rightarrow> jobj" where
  "stored_json document_id system source_id sha content_type version superseded chunks existed unchanged =
     [(''document_id'', JStr document_id), (''source_system'', JStr system), (''source_id'', JStr source_id),
      (''content_sha256'', JStr sha), (''content_type'', JStr content_type), (''version'', JInt (int version)),
      (''superseded'', JList (map JStr superseded)), (''chunks_created'', JInt (int chunks)),
      (''already_existed'', JBool existed), (''unchanged'', JBool unchanged)]"

definition unchanged :: "world \<Rightarrow> jobj \<Rightarrow> doc_meta \<Rightarrow> jobj act" where
  "unchanged W job current =
     bind_act (lift_res (job_str job ''tenant_id'')) (\<lambda>tenant.
     bind_act (upd_store (store_mark_checked (w_now W) tenant (dm_document_id current))) (\<lambda>_.
     bind_act (lift_res (job_str job ''filename'')) (\<lambda>filename.
     bind_act (if filename \<noteq> dm_source current
         then bind_act (upd_store (store_update_document (w_now W) tenant (dm_document_id current) (job_groups job) None (Some filename)))
           (\<lambda>_. ret ())
         else ret ()) (\<lambda>_.
     ret (stored_json (dm_document_id current) (dm_source_system current) (dm_source_id current) (dm_content_sha256 current)
       (dm_content_type current) (dm_version current) [] 0 True True)))))"

definition persist_embedded :: "world \<Rightarrow> ingest_result \<Rightarrow> string list option \<Rightarrow> string list \<Rightarrow> string \<Rightarrow> source_ref \<Rightarrow> persist_result act" where
  "persist_embedded W result allowed groups content_type source = (\<lambda>S.
     case ap_store S of
       Memory M \<Rightarrow>
         (case persist M (w_now W) result allowed groups content_type (Some source) of
            Inl e \<Rightarrow> (Inl e, S)
          | Inr (r, M') \<Rightarrow> (Inr r, S\<lparr>ap_store := Memory M'\<rparr>))
     | Postgres P \<Rightarrow>
         (case embed_documents (w_embed_installed W) (w_embed_passages W) (ap_embedder S) (map chunk_text (ir_chunks result)) of
            Inl e \<Rightarrow> (Inl e, S)
          | Inr (vectors, E) \<Rightarrow>
              upd_store (\<lambda>_. transact P (pg_persist P (w_now W) result vectors (em_model_name E) allowed groups content_type (Some source)))
                (S\<lparr>ap_embedder := E\<rparr>)))"

definition matches_current :: "source_ref \<Rightarrow> string \<Rightarrow> doc_meta \<Rightarrow> bool" where
  "matches_current source sha current =
     (src_version source \<noteq> None \<and> dm_source_version current = src_version source \<or> dm_content_sha256 current = sha)"

definition ingest_new :: "app_config \<Rightarrow> world \<Rightarrow> jobj \<Rightarrow> bytes \<Rightarrow> source_ref \<Rightarrow> jobj act" where
  "ingest_new C W job data source =
     bind_act (lift_res (job_str job ''filename'')) (\<lambda>filename.
     bind_act (lift_res (parse (w_fate W) (w_parser W) data filename (jstr (jget job ''content_type'')))) (\<lambda>parsed.
     bind_act (lift_res (job_str job ''tenant_id'')) (\<lambda>tenant.
     bind_act (lift_res (ingest_segments (w_sha256 W) (w_uuid W) (w_now W) (cf_ingestion C) data (pd_segments parsed) filename tenant
         (Some (src_system source @ ''/'' @ src_id source)))) (\<lambda>result.
     if ir_chunks result = [] then raise (ValueError ''document has no text to index'')
     else
       bind_act (lift_res (job_allowed job)) (\<lambda>allowed.
       bind_act (persist_embedded W result allowed (job_groups job) (pd_content_type parsed) source) (\<lambda>stored.
       ret (stored_json (pr_document_id stored) (src_system source) (src_id source) (ir_content_sha256 result)
         (pd_content_type parsed) (pr_version stored) (pr_superseded stored) (pr_chunks_written stored)
         (pr_already_existed stored) False)))))))"

definition ingest_document :: "app_config \<Rightarrow> world \<Rightarrow> jobj \<Rightarrow> jobj act" where
  "ingest_document C W job =
     bind_act (lift_res (job_source W job)) (\<lambda>source.
     bind_act (lift_res (job_str job ''content_base64'')) (\<lambda>encoded.
     bind_act (lift_res (b64_decode encoded)) (\<lambda>data.
     bind_act (lift_res (job_str job ''tenant_id'')) (\<lambda>tenant.
     bind_act (reading (\<lambda>S. store_current_version (ap_store S) tenant source (job_groups job))) (\<lambda>current.
     case current of
       Some m \<Rightarrow> if matches_current source (w_sha256 W data) m then unchanged W job m else ingest_new C W job data source
     | None \<Rightarrow> ingest_new C W job data source)))))"

section \<open>The document endpoints\<close>

type_synonym reply = "int \<times> jobj"

fun doc_status_str :: "doc_status \<Rightarrow> string" where
  "doc_status_str Ready = ''ready''"
| "doc_status_str Superseded = ''superseded''"

definition doc_json :: "world \<Rightarrow> doc_meta \<Rightarrow> jobj" where
  "doc_json W m =
     [(''document_id'', JStr (dm_document_id m)), (''source'', JStr (dm_source m)), (''source_system'', JStr (dm_source_system m)),
      (''source_id'', JStr (dm_source_id m)), (''version'', JInt (int (dm_version m))), (''status'', JStr (doc_status_str (dm_status m))),
      (''content_type'', JStr (dm_content_type m)), (''content_sha256'', JStr (dm_content_sha256 m)),
      (''chunk_count'', JInt (int (dm_chunk_count m))), (''allowed_groups'', JList (map JStr (dm_allowed_groups m))),
      (''source_version'', case dm_source_version m of None \<Rightarrow> JNull | Some v \<Rightarrow> JStr v),
      (''source_modified_at'', case dm_source_modified_at m of None \<Rightarrow> JNull | Some t \<Rightarrow> JStr (w_isoformat W t)),
      (''last_checked_at'', JStr (w_isoformat W (dm_last_checked_at m))), (''created_at'', JStr (w_isoformat W (dm_created_at m))),
      (''updated_at'', JStr (w_isoformat W (dm_updated_at m)))]"

definition unprocessable :: "exn \<Rightarrow> exn" where
  "unprocessable e = api_error 422 (exn_str e)"

definition create_document :: "app_config \<Rightarrow> world \<Rightarrow> request \<Rightarrow> reply act" where
  "create_document C W rq =
     bind_act (catching is_value_error unprocessable
       (bind_act (lift_res (document_job W rq)) (ingest_document C W))) (\<lambda>stored.
     ret (if jget stored ''already_existed'' = JBool True then 200 else 201, stored))"

definition rq_document_id :: "request \<Rightarrow> string" where
  "rq_document_id rq = (case map_of (rq_params rq) ''document_id'' of Some d \<Rightarrow> d | None \<Rightarrow> [])"

definition patch_fields :: "jobj \<Rightarrow> (string list option \<times> string option) res" where
  "patch_fields payload =
     bind_res (if jhas payload ''allowed_groups''
       then (case normalize_groups (jget payload ''allowed_groups'') of
           Inl e \<Rightarrow> Inl (unprocessable e) | Inr gs \<Rightarrow> Inr (Some gs))
       else Inr None) (\<lambda>allowed.
     bind_res (case jget payload ''filename'' of
         JNull \<Rightarrow> Inr None
       | JStr s \<Rightarrow> if strip s = [] then Inl (api_error 422 ''filename must be a non-empty string'') else Inr (Some (strip s))
       | _ \<Rightarrow> Inl (api_error 422 ''filename must be a non-empty string'')) (\<lambda>display.
     if allowed = None \<and> display = None then Inl (api_error 422 ''send allowed_groups and/or filename to change'')
     else Inr (allowed, display)))"

definition update_document_handler :: "world \<Rightarrow> request \<Rightarrow> reply act" where
  "update_document_handler W rq =
     bind_act (lift_res (tenant_of rq)) (\<lambda>tenant.
     bind_act (lift_res (patch_fields (rq_body rq))) (\<lambda>(allowed, display).
     bind_act (upd_store (store_update_document (w_now W) tenant (rq_document_id rq) (caller_groups (rq_caller rq)) allowed display))
       (\<lambda>(found, row).
     if \<not> found then raise (api_error 404 ''document not found'')
     else case row of
       None \<Rightarrow> ret (200, [(''document_id'', JStr (rq_document_id rq)), (''updated'', JBool True), (''visible'', JBool False)])
     | Some m \<Rightarrow> ret (200, doc_json W m @ [(''updated'', JBool True), (''visible'', JBool True)]))))"

definition list_documents_handler :: "world \<Rightarrow> request \<Rightarrow> reply act" where
  "list_documents_handler W rq =
     bind_act (lift_res (tenant_of rq)) (\<lambda>_.
     bind_act (reading (\<lambda>S. store_list_documents (ap_store S) (p_tenant_id (rq_caller rq)) (caller_groups (rq_caller rq))
         (query_get (rq_query rq) ''include_superseded'' = Some ''true''))) (\<lambda>rows.
     ret (200, [(''documents'', JList (map (JObj \<circ> doc_json W) rows))])))"

definition get_document_handler :: "world \<Rightarrow> request \<Rightarrow> reply act" where
  "get_document_handler W rq =
     bind_act (lift_res (tenant_of rq)) (\<lambda>_.
     bind_act (reading (\<lambda>S. store_get_document (ap_store S) (p_tenant_id (rq_caller rq)) (rq_document_id rq) (caller_groups (rq_caller rq))))
       (\<lambda>row. case row of None \<Rightarrow> raise (api_error 404 ''document not found'') | Some m \<Rightarrow> ret (200, doc_json W m)))"

definition delete_document_handler :: "request \<Rightarrow> reply act" where
  "delete_document_handler rq =
     bind_act (lift_res (tenant_of rq)) (\<lambda>tenant.
     bind_act (upd_store (store_delete_document tenant (rq_document_id rq) (caller_groups (rq_caller rq)))) (\<lambda>deleted.
     if \<not> deleted then raise (api_error 404 ''document not found'')
     else ret (200, [(''document_id'', JStr (rq_document_id rq)), (''deleted'', JBool True)])))"

section \<open>The ingestion job endpoints\<close>

definition submit_to_queue :: "world \<Rightarrow> string \<Rightarrow> jobj \<Rightarrow> ingestion_job act" where
  "submit_to_queue W tenant payload = (\<lambda>S. case ap_jobs S of
     InProcess V \<Rightarrow>
       (case submit_job V (w_time W) (w_uuid W 0) tenant payload of
          (J, V') \<Rightarrow> (Inr J, S\<lparr>ap_jobs := InProcess (put_item (w_uuid W 0, payload) V')\<rparr>))
   | Durable rows \<Rightarrow>
       (case pg_submit rows (w_time W) (w_uuid W 0) tenant payload of
          Inl e \<Rightarrow> (Inl e, S)
        | Inr (J, rows') \<Rightarrow> (Inr J, S\<lparr>ap_jobs := Durable rows'\<rparr>)))"

definition submit_job_handler :: "world \<Rightarrow> request \<Rightarrow> reply act" where
  "submit_job_handler W rq =
     bind_act (catching is_value_error unprocessable (lift_res (document_job W rq))) (\<lambda>job.
     bind_act (lift_res (job_str job ''tenant_id'')) (\<lambda>tenant.
     bind_act (submit_to_queue W tenant job) (\<lambda>J. ret (202, as_dict (w_job_isoformat W) J))))"

definition get_from_queue :: "world \<Rightarrow> jobs \<Rightarrow> string \<Rightarrow> string \<Rightarrow> ingestion_job option res" where
  "get_from_queue W q tenant i = (case q of
     InProcess V \<Rightarrow> Inr (get_job V tenant i) | Durable rows \<Rightarrow> pg_get_job (w_uuid_in W) rows tenant i)"

definition get_job_handler :: "world \<Rightarrow> request \<Rightarrow> reply act" where
  "get_job_handler W rq =
     bind_act (lift_res (tenant_of rq)) (\<lambda>tenant.
     bind_act (reading (\<lambda>S. get_from_queue W (ap_jobs S) tenant (case map_of (rq_params rq) ''job_id'' of Some i \<Rightarrow> i | None \<Rightarrow> [])))
       (\<lambda>J. case J of None \<Rightarrow> raise (api_error 404 ''job not found'') | Some J \<Rightarrow> ret (200, as_dict (w_job_isoformat W) J)))"

section \<open>The store as an implementation of the contract\<close>

fun store_step :: "storage \<Rightarrow> store_op \<Rightarrow> storage" where
  "store_step (Memory M) x = Memory (mem_step M x)"
| "store_step (Postgres P) x = Postgres (pg_step P x)"

fun storage_view :: "storage \<Rightarrow> string \<Rightarrow> _ + _" where
  "storage_view (Memory M) t = Inl (mem_view M t)"
| "storage_view (Postgres P) t = Inr (pg_view P t)"

fun storage_ok :: "storage \<Rightarrow> bool" where
  "storage_ok (Memory M) = store_ok M"
| "storage_ok (Postgres P) = pg_ok P"

fun storage_readable :: "storage \<Rightarrow> principal \<Rightarrow> chunk list" where
  "storage_readable (Memory M) p = readable_list M p"
| "storage_readable (Postgres P) p = pg_readable P p"

fun storage_doc :: "storage \<Rightarrow> doc_key \<Rightarrow> doc_meta option" where
  "storage_doc (Memory M) k = doc_at M k"
| "storage_doc (Postgres P) k = map_of (pg_docs P) k"

lemma or_default_simps [simp]: "or_default d (Inr x) = x" "or_default d (Inl e) = d"
  by (simp_all add: or_default_def)

interpretation store: document_store store_step
  "\<lambda>st t g b. or_default [] (store_list_documents st t g b)"
  "\<lambda>st t d g. or_default None (store_get_document st t d g)"
  storage_readable storage_doc storage_view storage_ok
proof
  fix s s' :: storage and x t g b d p m c
  show "storage_ok s \<Longrightarrow> op_ok x \<Longrightarrow> storage_ok (store_step s x)"
    by (cases s) (simp_all add: mem.inv_step pg.inv_step)
  show "storage_ok s \<Longrightarrow> op_ok x \<Longrightarrow> op_tenant x \<noteq> t \<Longrightarrow> storage_view (store_step s x) t = storage_view s t"
    by (cases s) (simp_all add: mem.step_other pg.step_other)
  show "storage_view s t = storage_view s' t \<Longrightarrow> or_default [] (store_list_documents s t g b) = or_default [] (store_list_documents s' t g b)"
    by (cases s; cases s') (auto dest: mem.list_view pg.list_view)
  show "storage_view s t = storage_view s' t \<Longrightarrow> or_default None (store_get_document s t d g) = or_default None (store_get_document s' t d g)"
    by (cases s; cases s') (auto dest: mem.get_view pg.get_view)
  show "storage_view s (p_tenant_id p) = storage_view s' (p_tenant_id p) \<Longrightarrow> storage_readable s p = storage_readable s' p"
    by (cases s; cases s') (auto dest: mem.readable_view pg.readable_view)
  show "storage_ok s \<Longrightarrow> m \<in> set (or_default [] (store_list_documents s t g b)) \<Longrightarrow>
      storage_doc s (t, dm_document_id m) = Some m \<and> acl_admits (set (dm_allowed_groups m)) (set g)"
    by (cases s) (auto dest: mem.list_acl pg.list_acl)
  show "storage_ok s \<Longrightarrow> or_default None (store_get_document s t d g) = Some m \<Longrightarrow>
      storage_doc s (t, d) = Some m \<and> acl_admits (set (dm_allowed_groups m)) (set g)"
    by (cases s) (auto dest: mem.get_acl pg.get_acl)
  show "storage_ok s \<Longrightarrow> c \<in> set (storage_readable s p) \<Longrightarrow>
      \<exists>m. storage_doc s (p_tenant_id p, chunk_document_id c) = Some m \<and> dm_status m = Ready
        \<and> chunk_tenant_id c = p_tenant_id p \<and> acl_admits (set (dm_allowed_groups m)) (fset (p_groups p))"
    by (cases s) (simp_all add: mem.readable_acl pg.readable_acl)
qed

section \<open>What a handler touches\<close>

text \<open>
  A handler works for a tenant: its effect on the store is a run of store operations of that tenant, and it
  leaves the conversations and jobs of other tenants alone.
\<close>

fun history_view :: "history \<Rightarrow> string \<Rightarrow> _ + _" where
  "history_view (MemoryHistory h) t = Inl (\<lambda>u s. entry h (t, u, s))"
| "history_view (PostgresHistory T) t = Inr (filter (\<lambda>r. fst (cr_key r) = t) (chat_rows T))"

fun jobs_view :: "jobs \<Rightarrow> string \<Rightarrow> _ + _" where
  "jobs_view (InProcess V) t = Inl (\<lambda>i. get_job V t i)"
| "jobs_view (Durable rows) t = Inr (filter (\<lambda>r. ij_tenant_id (pj_job r) = t) rows)"

definition op_for :: "string \<Rightarrow> store_op \<Rightarrow> bool" where
  "op_for t x = (op_ok x \<and> op_tenant x = t)"

definition touches_only :: "string \<Rightarrow> app_state \<Rightarrow> app_state \<Rightarrow> bool" where
  "touches_only t S S' = ((\<exists>xs. list_all (op_for t) xs \<and> ap_store S' = foldl store_step (ap_store S) xs)
     \<and> (\<forall>t'. t' \<noteq> t \<longrightarrow> history_view (ap_history S') t' = history_view (ap_history S) t'
          \<and> jobs_view (ap_jobs S') t' = jobs_view (ap_jobs S) t'))"

lemma touches_only_same:
  "ap_store S' = ap_store S \<Longrightarrow> ap_history S' = ap_history S \<Longrightarrow> ap_jobs S' = ap_jobs S \<Longrightarrow> touches_only t S S'"
  unfolding touches_only_def by (auto intro: exI[of _ "[]"])

lemma touches_only_refl [simp]: "touches_only t S S"
  by (rule touches_only_same) simp_all

lemma touches_only_trans:
  assumes "touches_only t S S'" "touches_only t S' S''"
  shows "touches_only t S S''"
proof -
  obtain xs ys where "list_all (op_for t) xs" "ap_store S' = foldl store_step (ap_store S) xs"
    "list_all (op_for t) ys" "ap_store S'' = foldl store_step (ap_store S') ys"
    using assms unfolding touches_only_def by blast
  then have "list_all (op_for t) (xs @ ys)" "ap_store S'' = foldl store_step (ap_store S) (xs @ ys)" by simp_all
  with assms show ?thesis unfolding touches_only_def by metis
qed

lemma touches_only_step:
  assumes "op_for t x" "ap_store S' = store_step (ap_store S) x" "ap_history S' = ap_history S" "ap_jobs S' = ap_jobs S"
  shows "touches_only t S S'"
  unfolding touches_only_def using assms by (auto intro: exI[of _ "[x]"])

definition acts_for :: "string \<Rightarrow> 'a act \<Rightarrow> bool" where
  "acts_for t m = (\<forall>S. touches_only t S (snd (m S)))"

named_theorems acts \<open>how handlers are built from acts of one tenant\<close>

lemma acts_forI: "(\<And>S. touches_only t S (snd (m S))) \<Longrightarrow> acts_for t m"
  by (simp add: acts_for_def)

lemma acts_for_basic [acts]: "acts_for t (ret x)" "acts_for t (raise e)" "acts_for t (lift_res r)" "acts_for t (reading f)"
  by (simp_all add: acts_for_def ret_def raise_def lift_res_def reading_def)

lemma acts_for_bind:
  assumes "acts_for t m" "\<And>S x S'. m S = (Inr x, S') \<Longrightarrow> acts_for t (f x)"
  shows "acts_for t (bind_act m f)"
proof (rule acts_forI)
  fix S
  obtain r S' where m: "m S = (r, S')" by (metis surj_pair)
  then have 1: "touches_only t S S'" using assms(1) unfolding acts_for_def by (metis snd_conv)
  show "touches_only t S (snd (bind_act m f S))"
  proof (cases r)
    case (Inr x)
    then have "acts_for t (f x)" using assms(2) m by blast
    then have "touches_only t S' (snd (f x S'))" by (simp add: acts_for_def)
    with 1 show ?thesis using m Inr by (auto simp: bind_act_def intro: touches_only_trans)
  qed (use m 1 in \<open>simp add: bind_act_def\<close>)
qed

lemma acts_for_lift: "(\<And>x. r = Inr x \<Longrightarrow> acts_for t (f x)) \<Longrightarrow> acts_for t (bind_act (lift_res r) f)"
  by (cases r) (auto intro: acts_for_basic)

lemma acts_for_catching: "acts_for t m \<Longrightarrow> acts_for t (catching P h m)"
proof (rule acts_forI)
  fix S
  assume "acts_for t m"
  then have "touches_only t S (snd (m S))" by (simp add: acts_for_def)
  moreover have "snd (catching P h m S) = snd (m S)" by (simp add: catching_def split: prod.split sum.split)
  ultimately show "touches_only t S (snd (catching P h m S))" by simp
qed

lemma acts_for_upd_store:
  assumes "op_for t x" "\<And>st. snd (f st) = store_step st x"
  shows "acts_for t (upd_store f)"
proof (rule acts_forI)
  fix S
  show "touches_only t S (snd (upd_store f S))"
    by (rule touches_only_step[OF assms(1)]) (simp_all add: upd_store_def assms(2)[symmetric] split: prod.split)
qed

lemma transact_rolled_back: "snd (transact P r) = Postgres (rolled_back P r)"
  by (auto simp: transact_def rolled_back_def split: sum.split)

lemma store_mark_checked_step: "snd (store_mark_checked now t d st) = store_step st (OpMarkChecked now t d)"
  by (cases st) (auto simp: transact_rolled_back rolled_back_def split: sum.split)

lemma store_update_step: "snd (store_update_document now t d g a n st) = store_step st (OpUpdate now t d g a n)"
  by (cases st) (auto simp: transact_rolled_back split: prod.split)

lemma store_delete_step: "snd (store_delete_document t d g st) = store_step st (OpDelete t d g)"
  by (cases st) (auto simp: transact_rolled_back split: prod.split)

lemma op_for_simps:
  "strip t = t \<Longrightarrow> op_for t (OpMarkChecked now t d)" "strip t = t \<Longrightarrow> op_for t (OpUpdate now t d g a n)"
  "strip t = t \<Longrightarrow> op_for t (OpDelete t d g)"
  by (simp_all add: op_for_def op_ok_def)

lemma acts_for_mark_checked: "strip t = t \<Longrightarrow> acts_for t (upd_store (store_mark_checked now t d))"
  using acts_for_upd_store[OF op_for_simps(1) store_mark_checked_step] .

lemma acts_for_update: "strip t = t \<Longrightarrow> acts_for t (upd_store (store_update_document now t d g a n))"
  using acts_for_upd_store[OF op_for_simps(2) store_update_step] .

lemma acts_for_delete: "strip t = t \<Longrightarrow> acts_for t (upd_store (store_delete_document t d g))"
  using acts_for_upd_store[OF op_for_simps(3) store_delete_step] .

lemmas acts_for_store = acts_for_mark_checked acts_for_update acts_for_delete

lemma ingest_segments_ok:
  assumes "ingest_segments sha uuid now P data segments filename t identity = Inr r" "strip t = t" "ir_chunks r \<noteq> []"
  shows "result_ok r \<and> chunk_tenant_id (hd (ir_chunks r)) = t"
proof -
  have r: "ir_chunks r = mk_chunks uuid now (ir_document_id r) t (strip filename) (pieces_of P segments)"
    using assms(1,2) by (auto simp: ingest_segments_def normalize_identifier_Inr_iff)
  then have "chunk_document_id c = ir_document_id r \<and> chunk_tenant_id c = t" if "c \<in> set (ir_chunks r)" for c
    using that mk_chunks_fields by metis
  with assms(3) show ?thesis by (simp add: result_ok_def list_all_iff)
qed

lemma acts_for_persist:
  assumes "result_ok r" "chunk_tenant_id (hd (ir_chunks r)) = t" "strip t = t"
  shows "acts_for t (persist_embedded W r allowed g ct src)"
proof (rule acts_forI)
  fix S
  let ?x = "\<lambda>em. OpPersist (w_now W) r em allowed g ct (Some src)"
  have x: "op_for t (?x em)" for em using assms by (simp add: op_for_def op_ok_def)
  show "touches_only t S (snd (persist_embedded W r allowed g ct src S))"
  proof (cases "ap_store S")
    case (Memory M)
    show ?thesis
      by (rule touches_only_step[OF x[of "[]"]]) (auto simp: persist_embedded_def Memory split: sum.split)
  next
    case (Postgres P)
    show ?thesis
    proof (cases "embed_documents (w_embed_installed W) (w_embed_passages W) (ap_embedder S) (map chunk_text (ir_chunks r))")
      case (Inl e)
      then show ?thesis by (simp add: persist_embedded_def Postgres)
    next
      case (Inr vE)
      obtain vs E where vE: "vE = (vs, E)" by (metis surj_pair)
      let ?run = "\<lambda>mn. pg_persist P (w_now W) r vs mn allowed g ct (Some src)"
      have S': "snd (persist_embedded W r allowed g ct src S) = S\<lparr>ap_embedder := E, ap_store := Postgres (rolled_back P (?run (em_model_name E)))\<rparr>"
        using transact_rolled_back[of P "?run (em_model_name E)"]
        by (simp add: persist_embedded_def Postgres Inr vE upd_store_def case_prod_unfold)
      show ?thesis
      proof (cases "em_model_name E = MODEL_NAME")
        case True
        show ?thesis unfolding S' by (rule touches_only_step[OF x[of vs]]) (simp_all add: Postgres True)
      next
        case False
        then have "rolled_back P (?run (em_model_name E)) = P" by (simp add: pg_persist_def check_embeddings_def rolled_back_def)
        then show ?thesis unfolding S' by (intro touches_only_same) (simp_all add: Postgres)
      qed
    qed
  qed
qed

lemma acts_for_unchanged:
  assumes "map_of job ''tenant_id'' = Some (JStr t)" "strip t = t"
  shows "acts_for t (unchanged W job m)"
  unfolding unchanged_def using assms
  by (auto simp: job_str_def intro!: acts_for_bind acts_for_lift acts_for_store acts_for_basic split: if_split)

lemma acts_for_ingest_new:
  assumes "map_of job ''tenant_id'' = Some (JStr t)" "strip t = t"
  shows "acts_for t (ingest_new C W job data src)"
  unfolding ingest_new_def
proof (intro acts_for_lift)
  fix filename parsed tenant result
  assume "job_str job ''tenant_id'' = Inr tenant"
    and r: "ingest_segments (w_sha256 W) (w_uuid W) (w_now W) (cf_ingestion C) data (pd_segments parsed) filename tenant
      (Some (src_system src @ ''/'' @ src_id src)) = Inr result"
  then have "tenant = t" using assms(1) by (simp add: job_str_def)
  with r have ok: "ir_chunks result \<noteq> [] \<Longrightarrow> result_ok result \<and> chunk_tenant_id (hd (ir_chunks result)) = t"
    using ingest_segments_ok assms(2) by blast
  let ?rest = "bind_act (lift_res (job_allowed job)) (\<lambda>allowed.
       bind_act (persist_embedded W result allowed (job_groups job) (pd_content_type parsed) src) (\<lambda>stored.
       ret (stored_json (pr_document_id stored) (src_system src) (src_id src) (ir_content_sha256 result)
         (pd_content_type parsed) (pr_version stored) (pr_superseded stored) (pr_chunks_written stored)
         (pr_already_existed stored) False)))"
  show "acts_for t (if ir_chunks result = [] then raise (ValueError ''document has no text to index'') else ?rest)"
    using ok assms(2) by (auto intro!: acts_for_lift acts_for_bind acts_for_persist acts_for_basic)
qed

lemma acts_for_ingest:
  assumes "map_of job ''tenant_id'' = Some (JStr t)" "strip t = t"
  shows "acts_for t (ingest_document C W job)"
  unfolding ingest_document_def
  using acts_for_unchanged[OF assms] acts_for_ingest_new[OF assms]
  by (auto intro!: acts_for_lift acts_for_bind acts_for_basic split: option.split)

lemma tenant_of_Inr: "tenant_of rq = Inr t \<Longrightarrow> t = p_tenant_id (rq_caller rq)"
  by (auto simp: tenant_of_def split: json.splits if_splits)

lemma document_job_tenant:
  assumes "document_job W rq = Inr job"
  shows "map_of job ''tenant_id'' = Some (JStr (p_tenant_id (rq_caller rq)))"
  using assms by (auto simp: document_job_def dest: tenant_of_Inr split: json.splits if_splits)

lemma acts_for_create:
  assumes "strip (p_tenant_id (rq_caller rq)) = p_tenant_id (rq_caller rq)"
  shows "acts_for (p_tenant_id (rq_caller rq)) (create_document C W rq)"
  unfolding create_document_def
  by (intro acts_for_bind acts_for_catching acts_for_lift acts_for_ingest acts_for_basic assms document_job_tenant)

lemma acts_for_document_handlers:
  assumes "strip (p_tenant_id (rq_caller rq)) = p_tenant_id (rq_caller rq)"
  shows "acts_for (p_tenant_id (rq_caller rq)) (update_document_handler W rq)"
    "acts_for (p_tenant_id (rq_caller rq)) (delete_document_handler rq)"
    "acts_for (p_tenant_id (rq_caller rq)) (list_documents_handler W rq)"
    "acts_for (p_tenant_id (rq_caller rq)) (get_document_handler W rq)"
    "acts_for (p_tenant_id (rq_caller rq)) (get_job_handler W rq)"
proof -
  note parts = acts_for_lift acts_for_bind acts_for_store acts_for_basic assms
  show "acts_for (p_tenant_id (rq_caller rq)) (update_document_handler W rq)"
    unfolding update_document_handler_def
    by (auto intro!: parts dest!: tenant_of_Inr split: option.split)
  show "acts_for (p_tenant_id (rq_caller rq)) (delete_document_handler rq)"
    unfolding delete_document_handler_def by (auto intro!: parts dest!: tenant_of_Inr)
  show "acts_for (p_tenant_id (rq_caller rq)) (list_documents_handler W rq)"
    unfolding list_documents_handler_def by (auto intro!: parts)
  show "acts_for (p_tenant_id (rq_caller rq)) (get_document_handler W rq)"
    unfolding get_document_handler_def by (auto intro!: parts split: option.split)
  show "acts_for (p_tenant_id (rq_caller rq)) (get_job_handler W rq)"
    unfolding get_job_handler_def by (auto intro!: parts split: option.split)
qed

text \<open>A submitted job gets an identifier no job has yet; \<open>uuid4\<close> does not repeat itself.\<close>

definition fresh_job :: "app_state \<Rightarrow> string \<Rightarrow> bool" where
  "fresh_job S i = (case ap_jobs S of InProcess V \<Rightarrow> map_of (iw_jobs V) i = None | Durable rows \<Rightarrow> i \<notin> set (row_ids rows))"

lemma submit_to_queue_touches:
  assumes "fresh_job S (w_uuid W 0)"
  shows "touches_only t S (snd (submit_to_queue W t payload S))"
proof -
  let ?S = "snd (submit_to_queue W t payload S)"
  have same: "ap_store ?S = ap_store S" "ap_history ?S = ap_history S"
    by (auto simp: submit_to_queue_def split: jobs.split prod.split sum.split)
  have "jobs_view (ap_jobs ?S) t' = jobs_view (ap_jobs S) t'" if "t' \<noteq> t" for t'
    using that assms
    by (auto simp: submit_to_queue_def fresh_job_def submit_job_def put_item_def get_job_def update_conv' new_job_def pg_submit_def
        split: jobs.split sum.split option.split if_splits)
  with same show ?thesis unfolding touches_only_def by (auto intro: exI[of _ "[]"])
qed

lemma submit_job_touches:
  assumes "fresh_job S (w_uuid W 0)"
  shows "touches_only (p_tenant_id (rq_caller rq)) S (snd (submit_job_handler W rq S))"
proof (cases "document_job W rq")
  case (Inl e)
  then show ?thesis by (simp add: submit_job_handler_def bind_act_def catching_def lift_res_def)
next
  case (Inr job)
  have "submit_job_handler W rq S = bind_act (submit_to_queue W (p_tenant_id (rq_caller rq)) job)
      (\<lambda>J. ret (202, as_dict (w_job_isoformat W) J)) S"
    using document_job_tenant[OF Inr] Inr by (simp add: submit_job_handler_def catching_def lift_res_def bind_act_def job_str_def)
  moreover have "snd (bind_act m (\<lambda>J. ret (f J)) S) = snd (m S)" for m :: "ingestion_job act" and f :: "ingestion_job \<Rightarrow> reply"
    by (simp add: bind_act_def ret_def split: prod.split sum.split)
  ultimately show ?thesis using submit_to_queue_touches[OF assms] by simp
qed

section \<open>What a handler leaves alone\<close>

text \<open>Acts under which a predicate of the state stays true.\<close>

definition stays :: "(app_state \<Rightarrow> bool) \<Rightarrow> 'a act \<Rightarrow> bool" where
  "stays P m = (\<forall>S. P S \<longrightarrow> P (snd (m S)))"

lemma staysD: "stays P m \<Longrightarrow> P S \<Longrightarrow> P (snd (m S))"
  by (simp add: stays_def)

lemma stays_basic: "stays P (ret x)" "stays P (raise e)" "stays P (lift_res r)" "stays P (reading f)"
  by (simp_all add: stays_def ret_def raise_def lift_res_def reading_def)

lemma stays_bind:
  assumes "stays P m" "\<And>x. stays P (f x)"
  shows "stays P (bind_act m f)"
  unfolding stays_def
proof (intro allI impI)
  fix S
  assume "P S"
  then have "P (snd (m S))" using assms(1) by (rule staysD[rotated])
  with assms(2) show "P (snd (bind_act m f S))" by (cases "m S"; cases "fst (m S)") (auto simp: bind_act_def stays_def)
qed

lemma stays_lift: "(\<And>x. r = Inr x \<Longrightarrow> stays P (f x)) \<Longrightarrow> stays P (bind_act (lift_res r) f)"
  by (cases r) (auto intro: stays_basic)

lemma stays_catching: "stays P m \<Longrightarrow> stays P (catching Q h m)"
proof -
  have "snd (catching Q h m S) = snd (m S)" for S by (simp add: catching_def split: prod.split sum.split)
  then show "stays P m \<Longrightarrow> stays P (catching Q h m)" by (simp add: stays_def)
qed

text \<open>Predicates that do not look at the documents, the jobs or the embedder.\<close>

definition blind :: "(app_state \<Rightarrow> bool) \<Rightarrow> bool" where
  "blind P = ((\<forall>S st. P (S\<lparr>ap_store := st\<rparr>) = P S) \<and> (\<forall>S js. P (S\<lparr>ap_jobs := js\<rparr>) = P S) \<and> (\<forall>S E. P (S\<lparr>ap_embedder := E\<rparr>) = P S))"

lemma blindD: "blind P \<Longrightarrow> P (S\<lparr>ap_store := st\<rparr>) = P S" "blind P \<Longrightarrow> P (S\<lparr>ap_jobs := js\<rparr>) = P S" "blind P \<Longrightarrow> P (S\<lparr>ap_embedder := E\<rparr>) = P S"
  unfolding blind_def by blast+

lemma stays_upd_store: "blind P \<Longrightarrow> stays P (upd_store f)"
  by (auto simp: stays_def upd_store_def blindD split: prod.split)

lemma stays_persist: "blind P \<Longrightarrow> stays P (persist_embedded W r allowed g ct src)"
  by (auto simp: stays_def persist_embedded_def upd_store_def blindD split: storage.split sum.split prod.split)

lemma stays_submit: "blind P \<Longrightarrow> stays P (submit_to_queue W t payload)"
  by (auto simp: stays_def submit_to_queue_def blindD split: jobs.split sum.split prod.split)

lemma stays_unchanged: "blind P \<Longrightarrow> stays P (unchanged W job m)"
  unfolding unchanged_def by (auto intro!: stays_bind stays_upd_store stays_basic)

lemma stays_ingest_new: "blind P \<Longrightarrow> stays P (ingest_new C W job data src)"
  unfolding ingest_new_def by (auto intro!: stays_bind stays_persist stays_basic)

lemma stays_ingest: "blind P \<Longrightarrow> stays P (ingest_document C W job)"
  unfolding ingest_document_def
  by (auto intro!: stays_bind stays_unchanged stays_ingest_new stays_basic split: option.split)

lemma stays_create: "blind P \<Longrightarrow> stays P (create_document C W rq)"
  unfolding create_document_def by (auto intro!: stays_catching stays_bind stays_ingest stays_basic)

lemma stays_document_handlers:
  assumes "blind P"
  shows "stays P (update_document_handler W rq)" "stays P (delete_document_handler rq)" "stays P (list_documents_handler W rq)"
    "stays P (get_document_handler W rq)" "stays P (get_job_handler W rq)" "stays P (submit_job_handler W rq)"
  unfolding update_document_handler_def delete_document_handler_def list_documents_handler_def get_document_handler_def
    get_job_handler_def submit_job_handler_def
  using assms by (auto intro!: stays_catching stays_bind stays_upd_store stays_submit stays_basic split: option.split prod.split)

section \<open>Uploads arrive unchanged\<close>

lemma document_job_content:
  assumes "document_job W rq = Inr job"
  shows "\<exists>encoded. upload_content (rq_body rq) = Inr encoded \<and> map_of job ''content_base64'' = Some (JStr encoded)"
  using assms by (auto simp: document_job_def split: json.splits if_splits)

lemma document_job_modified:
  assumes "document_job W rq = Inr job"
  shows "jget job ''source_modified_at'' = jget (rq_body rq) ''source_modified_at''"
proof -
  obtain filename encoded tenant ct allowed source where job: "job = [(''tenant_id'', JStr tenant), (''filename'', JStr (strip filename)),
      (''content_base64'', JStr encoded), (''content_type'', ct), (''allowed_groups'', allowed)] @ source @
      [(''groups'', JList (map JStr (caller_groups (rq_caller rq))))]"
    and s: "source_fields W (rq_body rq) (strip filename) = Inr source"
    using assms by (auto simp: document_job_def split: json.splits if_splits)
  have "map_of source ''source_modified_at'' = Some (jget (rq_body rq) ''source_modified_at'')"
    using s unfolding source_fields_def Let_def by (auto simp only: split: if_splits) simp_all
  then show ?thesis by (simp add: job jget_def)
qed

text \<open>C12. A text uploaded as \<open>content\<close> is the text that is indexed: the job carries it through base64 and UTF-8,
  and the bytes that ingestion decodes and digests are exactly its encoding; if they are sniffed as text, the
  only segment handed to the chunker is the text itself.\<close>

theorem text_upload_roundtrip:
  assumes "document_job W rq = Inr job" "jget (rq_body rq) ''content'' = JStr t"
  shows "\<exists>encoded data. job_str job ''content_base64'' = Inr encoded \<and> b64_decode encoded = Inr data \<and> utf8_decode data = Inr t
    \<and> (\<forall>kind. sniff data filename declared = Inr kind \<and> kind \<in> {TEXT, MARKDOWN} \<longrightarrow>
        parse (w_fate W) (w_parser W) data filename declared = Inr \<lparr>pd_content_type = kind, pd_segments = [(None, t)]\<rparr>)"
proof -
  obtain encoded where e: "upload_content (rq_body rq) = Inr encoded" "map_of job ''content_base64'' = Some (JStr encoded)"
    using document_job_content[OF assms(1)] by blast
  then have "encoded = b64_encode (utf8_encode t)"
    using assms(2) by (cases "jget (rq_body rq) ''content_base64''") (simp_all add: upload_content_def)
  then have "b64_decode encoded = Inr (utf8_encode t)" by (simp add: b64_roundtrip)
  moreover have "job_str job ''content_base64'' = Inr encoded" using e(2) by (simp add: job_str_def)
  moreover have "utf8_decode (utf8_encode t) = Inr t" by (rule utf8_roundtrip)
  moreover have "\<forall>kind. sniff (utf8_encode t) filename declared = Inr kind \<and> kind \<in> {TEXT, MARKDOWN} \<longrightarrow>
      parse (w_fate W) (w_parser W) (utf8_encode t) filename declared = Inr \<lparr>pd_content_type = kind, pd_segments = [(None, t)]\<rparr>"
    by (intro allI impI parse_text_roundtrip; elim conjE; assumption)
  ultimately show ?thesis by (intro exI conjI)
qed

definition sample_caller :: principal where
  "sample_caller = \<lparr>p_tenant_id = ''a'', p_user_id = ''u'', p_groups = {||}\<rparr>"

definition upload_request :: "json \<Rightarrow> request" where
  "upload_request modified = \<lparr>rq_params = [], rq_body = [(''filename'', JStr ''f.txt''), (''content'', JStr ''hi''),
     (''source_modified_at'', modified)], rq_request_id = ''r'', rq_caller = sample_caller, rq_query = []\<rparr>"

lemma sample_job:
  assumes "modified = JNull \<or> w_fromisoformat W (json_str (w_repr W) modified) \<noteq> None"
  shows "\<exists>job. document_job W (upload_request modified) = Inr job"
proof -
  have "strip ''f.txt'' = ''f.txt''" "source_system_ok ''upload''" by code_simp+
  with assms show ?thesis
    by (auto simp: document_job_def upload_request_def jget_def jget_or_def jhas_def upload_content_def tenant_of_def source_fields_def)
qed

theorem text_upload_roundtrip_witness:
  "\<forall>W. \<exists>job encoded data. document_job W (upload_request JNull) = Inr job \<and> job_str job ''content_base64'' = Inr encoded
     \<and> b64_decode encoded = Inr data \<and> utf8_decode data = Inr ''hi''"
proof
  fix W
  obtain job where job: "document_job W (upload_request JNull) = Inr job" using sample_job by blast
  have "jget (rq_body (upload_request JNull)) ''content'' = JStr ''hi''" by (simp add: upload_request_def jget_def)
  from text_upload_roundtrip[OF job this] job show "\<exists>job encoded data. document_job W (upload_request JNull) = Inr job
     \<and> job_str job ''content_base64'' = Inr encoded \<and> b64_decode encoded = Inr data \<and> utf8_decode data = Inr ''hi''" by blast
qed

text \<open>A timestamp that is not a string passes the validation, which looks at its printed form, and then makes
  the ingestion fail with a \<open>TypeError\<close>: the caller gets an internal error instead of an explanation.\<close>

theorem non_string_timestamp_fails_late:
  assumes "document_job W rq = Inr job" "jget (rq_body rq) ''source_modified_at'' = JInt n" "n \<noteq> 0"
  shows "create_document C W rq S = (Inl (OtherError ''TypeError: fromisoformat: argument must be str''), S)"
proof -
  have "jget job ''source_modified_at'' = JInt n" using document_job_modified[OF assms(1)] assms(2) by simp
  moreover obtain fn where "job_str job ''filename'' = Inr fn"
    using assms(1) by (auto simp: document_job_def job_str_def split: json.splits if_splits)
  ultimately have "job_source W job = Inl (OtherError ''TypeError: fromisoformat: argument must be str'')"
    using assms(3) by (auto simp: job_source_def split: json.split)
  then show ?thesis
    using assms(1) by (simp add: create_document_def ingest_document_def catching_def raise_def lift_res_def bind_act_def)
qed

theorem non_string_timestamp_fails_late_witness:
  "\<forall>C W S. fst (create_document C (W\<lparr>w_fromisoformat := \<lambda>_. Some 0\<rparr>) (upload_request (JInt 20240101)) S)
     = Inl (OtherError ''TypeError: fromisoformat: argument must be str'')"
proof (intro allI)
  fix C S and W :: world
  let ?W = "W\<lparr>w_fromisoformat := \<lambda>_. Some 0\<rparr>"
  obtain job where job: "document_job ?W (upload_request (JInt 20240101)) = Inr job" using sample_job[of "JInt 20240101" ?W] by auto
  have "jget (rq_body (upload_request (JInt 20240101))) ''source_modified_at'' = JInt 20240101"
    by (simp add: upload_request_def jget_def)
  from non_string_timestamp_fails_late[OF job this] show "fst (create_document C ?W (upload_request (JInt 20240101)) S)
     = Inl (OtherError ''TypeError: fromisoformat: argument must be str'')" by simp
qed

end
