(* ===== verification/Api_Answer.thy ===== *)
theory Api_Answer
  imports Api_Documents Query
begin

text \<open>
  The application of \<open>api.py\<close>, second part: retrieval for a caller and the answering of questions, with
  chat history, the caller's own model, the daily token budget and the citation contract.
\<close>

section \<open>Collaborators\<close>

definition history_window_size :: nat where
  "history_window_size = 24"

definition read_history :: "session_key \<Rightarrow> chat_turn list act" where
  "read_history k = (\<lambda>S. case ap_history S of
     MemoryHistory h \<Rightarrow> (case history_get h k of (ts, h') \<Rightarrow> (Inr ts, S\<lparr>ap_history := MemoryHistory h'\<rparr>))
   | PostgresHistory T \<Rightarrow> (case pg_history_get history_window_size T k of (ts, T') \<Rightarrow> (Inr ts, S\<lparr>ap_history := PostgresHistory T'\<rparr>)))"

definition append_history :: "session_key \<Rightarrow> chat_turn list \<Rightarrow> unit act" where
  "append_history k ts = (\<lambda>S. (Inr (), S\<lparr>ap_history := (case ap_history S of
     MemoryHistory h \<Rightarrow> MemoryHistory (history_append h k ts)
   | PostgresHistory T \<Rightarrow> PostgresHistory (pg_history_append history_window_size T k ts))\<rparr>))"

text \<open>The model of a request: the caller's own gateway, the server's gateway, or the extractive answerer.\<close>

datatype answerer = UserModel gateway | ServerModel gateway | ExtractiveModel

definition user_provider :: "app_config \<Rightarrow> world \<Rightarrow> jobj \<Rightarrow> gateway option res" where
  "user_provider C W payload =
     (case parse_llm_settings (w_net W) 0 (custom_urls_allowed (cf_environ C)) (jget payload ''llm'') of
        Inl (LlmSettingsError m) \<Rightarrow> Inl (api_error 422 m)
      | Inl e \<Rightarrow> Inl e
      | Inr None \<Rightarrow> Inr None
      | Inr (Some s) \<Rightarrow> bind_res (build_user_provider (w_net W) (w_run W) (cf_environ C) s) (\<lambda>G. Inr (Some G)))"

definition answerer_of :: "app_config \<Rightarrow> gateway option \<Rightarrow> answerer" where
  "answerer_of C user = (case user of Some G \<Rightarrow> UserModel G
     | None \<Rightarrow> (case cf_provider C of Some G \<Rightarrow> ServerModel G | None \<Rightarrow> ExtractiveModel))"

definition rewrite_question :: "answerer \<Rightarrow> string \<Rightarrow> chat_turn list \<Rightarrow> app_state \<Rightarrow> string" where
  "rewrite_question A question prior S = (case A of
     UserModel G \<Rightarrow> gateway_rewrite_query G (init_gateway G []) question prior
   | ServerModel G \<Rightarrow> gateway_rewrite_query G (ap_gateway S) question prior
   | ExtractiveModel \<Rightarrow> heuristic_rewrite question prior)"

text \<open>A gateway of a user's own lives for one request; its breakers are not those of the server.\<close>

definition generate :: "world \<Rightarrow> answerer \<Rightarrow> string \<Rightarrow> string list \<Rightarrow> chat_turn list \<Rightarrow> generation act" where
  "generate W A question sources prior = (\<lambda>S. case A of
     UserModel G \<Rightarrow> (fst (gateway_complete G (w_gateway_clock W) (w_random W) question sources prior (init_gateway G [])), S)
   | ServerModel G \<Rightarrow>
       (case gateway_complete G (w_gateway_clock W) (w_random W) question sources prior (ap_gateway S) of
          (r, g) \<Rightarrow> (r, S\<lparr>ap_gateway := g\<rparr>))
   | ExtractiveModel \<Rightarrow> (Inr (extractive_complete sources), S))"

section \<open>Retrieval\<close>

definition allowed_rows :: "principal \<Rightarrow> candidate list \<Rightarrow> candidate list" where
  "allowed_rows p rows = filter (\<lambda>r. can_read (Some (chunk_tenant_id (sr_chunk r))) (Some (sr_groups r)) p) rows"

definition retrieve :: "app_config \<Rightarrow> world \<Rightarrow> principal \<Rightarrow> string \<Rightarrow> bool \<Rightarrow> scored list act" where
  "retrieve C W p question gated = (\<lambda>S.
     let gate_score = (if gated then cf_min_score C else 0); relative = (if gated then cf_relative_score C else 0) in
     case ap_store S of
       Memory M \<Rightarrow>
         (bind_res (readable_chunks M p) (\<lambda>chunks.
          bind_res (mk_query_pipeline chunks 5 gate_score relative 2000) (\<lambda>Q. evidence Q question (p_tenant_id p) None)), S)
     | Postgres P \<Rightarrow>
         (case bind_res (mk_query_pipeline [] 5 gate_score relative 2000) (\<lambda>Q.
               bind_res (validate_query Q question (p_tenant_id p)) (\<lambda>safe.
               bind_res (embed_query (w_embed_installed W) (w_embed_question W) (ap_embedder S) safe) (\<lambda>(v, E). Inr (Q, safe, v, E)))) of
            Inl e \<Rightarrow> (Inl e, S)
          | Inr (Q, safe, v, E) \<Rightarrow>
              let S1 = S\<lparr>ap_embedder := E\<rparr> in
              (case bind_res (search_hybrid (w_vdist W) (w_hits W) (w_ts_rank W) P (p_tenant_id p) safe v 20 50 (em_model_name E)
                      (caller_groups p)) (\<lambda>rows.
                    rerank (w_rerank_import W) (w_predict W) (ap_reranker S1) safe (allowed_rows p rows)) of
                 Inl e \<Rightarrow> (Inl e, S1)
               | Inr (rows, R) \<Rightarrow>
                   (evidence Q safe (p_tenant_id p) (Some (map (\<lambda>r. (sr_chunk r, sr_score r)) rows)), S1\<lparr>ap_reranker := R\<rparr>))))"

section \<open>Answering\<close>

fun is_unsafe_query :: "exn \<Rightarrow> bool" where
  "is_unsafe_query (UnsafeQueryError _) = True"
| "is_unsafe_query _ = False"

definition citation_json :: "scored list \<Rightarrow> int \<Rightarrow> json" where
  "citation_json found number =
     (let (c, s) = found ! nat (number - 1) in
      JObj [(''source_number'', JInt number), (''document_id'', JStr (chunk_document_id c)), (''source'', JStr (chunk_source c)),
        (''chunk_index'', JInt (int (chunk_index c))), (''page'', case chunk_page c of None \<Rightarrow> JNull | Some n \<Rightarrow> JInt n),
        (''score'', JFloat (round4 s)), (''excerpt'', JStr (take 240 (chunk_text c)))])"

text \<open>\<open>remaining\<close> is infinite without a limit.\<close>

definition budget_left :: "world \<Rightarrow> string \<Rightarrow> app_state \<Rightarrow> bool" where
  "budget_left W tenant S = (case remaining (w_day W) (ap_budget S) tenant of None \<Rightarrow> True | Some n \<Rightarrow> n > 0)"

definition spend_tokens :: "world \<Rightarrow> string \<Rightarrow> int \<Rightarrow> unit act" where
  "spend_tokens W tenant n = (\<lambda>S. (Inr (), S\<lparr>ap_budget := spend (w_day W) (ap_budget S) tenant n\<rparr>))"

definition count_metric :: "string \<Rightarrow> string \<Rightarrow> real \<Rightarrow> labels \<Rightarrow> unit act" where
  "count_metric name help_text v labels = (\<lambda>S. (Inr (), S\<lparr>ap_metrics := inc (ap_metrics S) name help_text v labels\<rparr>))"

definition budget_exhausted :: "world \<Rightarrow> exn" where
  "budget_exhausted W = (case w_clock W of (hour, minute, second) \<Rightarrow>
     ApiError 429 ''daily token budget exhausted'' [(''retry-after'', show_int (seconds_until_reset hour minute second))])"

text \<open>The answer from evidence: the text with the numbers of the sources it cites, and the generation.\<close>

definition answer_from :: "world \<Rightarrow> answerer \<Rightarrow> string \<Rightarrow> string \<Rightarrow> scored list \<Rightarrow> chat_turn list \<Rightarrow>
    (string \<times> int list \<times> generation) act" where
  "answer_from W A tenant question found prior =
     bind_act (\<lambda>S. (if (case A of UserModel _ \<Rightarrow> False | _ \<Rightarrow> True) \<and> \<not> budget_left W tenant S
       then Inl (budget_exhausted W) else Inr (), S)) (\<lambda>_.
     bind_act (generate W A question (map (chunk_text \<circ> fst) found) prior) (\<lambda>g.
     let tokens = gen_prompt_tokens g + gen_completion_tokens g in
     bind_act (case A of UserModel _ \<Rightarrow> ret () | _ \<Rightarrow> spend_tokens W tenant tokens) (\<lambda>_.
     bind_act (count_metric ''rag_generation_tokens_total'' ''Model tokens by model.'' (of_int tokens) [(''model'', gen_model g)]) (\<lambda>_.
     bind_act (if gen_degraded g
       then count_metric ''rag_generation_degraded_total'' ''Answers served by the fallback answerer.'' 1 [] else ret ()) (\<lambda>_.
     bind_act (lift_res (strip_invalid_citations (gen_text g) (length found))) (\<lambda>cand.
     bind_act (lift_res (cited_sources cand (length found))) (\<lambda>used.
     ret (if used \<noteq> [] then cand else ABSTENTION, used, g))))))))"

definition generation_json :: "answerer \<Rightarrow> generation \<Rightarrow> json" where
  "generation_json A g = JObj [(''model'', JStr (gen_model g)), (''degraded'', JBool (gen_degraded g)),
     (''prompt_tokens'', JInt (gen_prompt_tokens g)), (''completion_tokens'', JInt (gen_completion_tokens g)),
     (''cost_usd'', JFloat (gen_cost_usd g)), (''own_key'', JBool (case A of UserModel _ \<Rightarrow> True | _ \<Rightarrow> False)),
     (''note'', case gen_note g of None \<Rightarrow> JNull | Some n \<Rightarrow> JStr n)]"

text \<open>The end of a chat request: the exchange is remembered and reported.\<close>

definition remember :: "session_key \<Rightarrow> string \<Rightarrow> string \<Rightarrow> string \<Rightarrow> jobj act" where
  "remember k question search_query ans =
     bind_act (append_history k [\<lparr>role = ''user'', content = question\<rparr>, \<lparr>role = ''assistant'', content = ans\<rparr>]) (\<lambda>_.
     bind_act (read_history k) (\<lambda>ts.
     ret ([(''session_id'', JStr (snd (snd k))), (''history_messages'', JInt (int (length ts)))] @
       (if search_query \<noteq> question then [(''search_query'', JStr search_query)] else []))))"

text \<open>The three stages of a question: find evidence, answer from it, and build the response.\<close>

definition find_evidence :: "app_config \<Rightarrow> world \<Rightarrow> answerer \<Rightarrow> principal \<Rightarrow> string \<Rightarrow> string \<Rightarrow> chat_turn list \<Rightarrow>
    (string \<times> string \<times> scored list) act" where
  "find_evidence C W A p tenant raw prior =
     catching is_unsafe_query (\<lambda>e. api_error 400 (exn_str e))
       (bind_act (lift_res (bind_res (mk_query_pipeline [] 5 (10/100) 0 2000) (\<lambda>Q. validate_query Q raw tenant))) (\<lambda>question.
        bind_act (if prior \<noteq> [] then reading (\<lambda>S. Inr (rewrite_question A question prior S)) else ret question) (\<lambda>search_query.
        bind_act (retrieve C W p search_query True) (\<lambda>found. ret (question, search_query, found)))))"

definition answer_evidence :: "world \<Rightarrow> answerer \<Rightarrow> string \<Rightarrow> string \<Rightarrow> scored list \<Rightarrow> chat_turn list \<Rightarrow>
    (string \<times> int list \<times> generation option) act" where
  "answer_evidence W A tenant question found prior =
     (if found = [] then ret (ABSTENTION, [], None)
      else bind_act (answer_from W A tenant question found prior) (\<lambda>(ans, cites, g). ret (ans, cites, Some g)))"

definition answer_reply :: "answerer \<Rightarrow> scored list \<Rightarrow> string \<times> int list \<times> generation option \<Rightarrow> jobj \<Rightarrow> reply" where
  "answer_reply A found = (\<lambda>(ans, cites, g) chat.
     (200, [(''answer'', JStr ans), (''grounded'', JBool (cites \<noteq> [])), (''citations'', JList (map (citation_json found) cites))]
       @ (case g of None \<Rightarrow> [] | Some g \<Rightarrow> [(''generation'', generation_json A g)]) @ chat))"

definition session_of :: "bool \<Rightarrow> jobj \<Rightarrow> string res" where
  "session_of is_chat payload =
     (if is_chat then (case jget payload ''session_id'' of
         JStr s \<Rightarrow> if strip s = [] then Inl (api_error 400 ''session_id is required for chat'') else Inr s
       | _ \<Rightarrow> Inl (api_error 400 ''session_id is required for chat''))
      else Inr [])"

definition answer :: "app_config \<Rightarrow> world \<Rightarrow> bool \<Rightarrow> request \<Rightarrow> reply act" where
  "answer C W is_chat rq =
     (case jget (rq_body rq) ''question'' of
        JStr raw \<Rightarrow>
          bind_act (lift_res (tenant_of rq)) (\<lambda>tenant.
          bind_act (lift_res (session_of is_chat (rq_body rq))) (\<lambda>session.
          bind_act (lift_res (user_provider C W (rq_body rq))) (\<lambda>user.
          let A = answerer_of C user; p = rq_caller rq; k = (tenant, p_user_id p, session) in
          bind_act (if is_chat then bind_act (read_history k) (\<lambda>ts. ret (history_for_model ts)) else ret []) (\<lambda>prior.
          bind_act (find_evidence C W A p tenant raw prior) (\<lambda>(question, search_query, found).
          bind_act (answer_evidence W A tenant question found prior) (\<lambda>a.
          bind_act (if is_chat then remember k question search_query (fst a) else ret []) (\<lambda>chat.
          ret (answer_reply A found a chat))))))))
      | _ \<Rightarrow> raise (api_error 400 ''question is required as a string''))"

definition test_llm :: "app_config \<Rightarrow> world \<Rightarrow> request \<Rightarrow> reply act" where
  "test_llm C W rq =
     bind_act (lift_res (user_provider C W (rq_body rq))) (\<lambda>user.
     case user of
       None \<Rightarrow> raise (api_error 422 ''llm settings are required'')
     | Some G \<Rightarrow>
         bind_act (generate W (UserModel G) ''Reply with the word ok.'' [''ok''] []) (\<lambda>g.
         ret (200, if gen_degraded g
           then [(''ok'', JBool False), (''error'', JStr (if py_truthy (gen_note g) then the (gen_note g) else ''the call failed''))]
           else [(''ok'', JBool True), (''model'', JStr (gen_model g)), (''latency_ms'', JInt (round_half_even (w_elapsed W * 1000)))])))"

section \<open>A question touches only the caller's conversation\<close>

lemma touches_only_history:
  assumes "ap_store S' = ap_store S" "ap_jobs S' = ap_jobs S"
    "\<And>t'. t' \<noteq> t \<Longrightarrow> history_view (ap_history S') t' = history_view (ap_history S) t'"
  shows "touches_only t S S'"
  unfolding touches_only_def using assms by (auto intro: exI[of _ "[]"])

lemma acts_for_read_history: "acts_for t (read_history (t, u, s))"
proof (rule acts_forI, rule touches_only_history)
  fix S t'
  assume "t' \<noteq> t"
  then show "history_view (ap_history (snd (read_history (t, u, s) S))) t' = history_view (ap_history S) t'"
    by (cases "ap_history S") (auto simp: read_history_def history_get_def pg_history_get_def entry_def)
qed (auto simp: read_history_def split: history.split prod.split)

lemma foldl_insert_chat_rows:
  "filter (\<lambda>r. fst (cr_key r) = t') (chat_rows (foldl (insert_chat_row k) T ts)) = filter (\<lambda>r. fst (cr_key r) = t') (chat_rows T)"
  if "t' \<noteq> fst k"
  using that by (induction ts arbitrary: T) (auto simp: insert_chat_row_def)

lemma acts_for_append_history: "acts_for t (append_history (t, u, s) ts)"
proof (rule acts_forI, rule touches_only_history)
  fix S t'
  assume t': "t' \<noteq> t"
  show "history_view (ap_history (snd (append_history (t, u, s) ts S))) t' = history_view (ap_history S) t'"
  proof (cases "ap_history S")
    case (MemoryHistory h)
    with t' show ?thesis by (auto simp: append_history_def history_append_def entry_def)
  next
    case (PostgresHistory T)
    have "filter (\<lambda>r. fst (cr_key r) = t') (chat_rows (pg_history_append n T (t, u, s) ts)) = filter (\<lambda>r. fst (cr_key r) = t') (chat_rows T)" for n
    proof -
      have "filter (\<lambda>r. fst (cr_key r) = t') (chat_rows (pg_history_append n T (t, u, s) ts))
          = filter (\<lambda>r. fst (cr_key r) = t') (chat_rows (foldl (insert_chat_row (t, u, s)) T ts))"
        using t' by (auto simp: pg_history_append_def intro!: filter_cong)
      also have "\<dots> = filter (\<lambda>r. fst (cr_key r) = t') (chat_rows T)" using t' by (intro foldl_insert_chat_rows) simp
      finally show ?thesis .
    qed
    with PostgresHistory show ?thesis by (simp add: append_history_def)
  qed
qed (simp_all add: append_history_def)

lemma acts_for_quiet:
  assumes "\<And>S. ap_store (snd (m S)) = ap_store S" "\<And>S. ap_history (snd (m S)) = ap_history S" "\<And>S. ap_jobs (snd (m S)) = ap_jobs S"
  shows "acts_for t m"
  by (rule acts_forI, rule touches_only_same) (simp_all add: assms)

lemma acts_for_retrieve: "acts_for t (retrieve C W p q gated)"
  by (rule acts_for_quiet) (auto simp: retrieve_def split: storage.split sum.split prod.split)

lemma acts_for_generate: "acts_for t (generate W A q sources prior)"
  by (rule acts_for_quiet) (auto simp: generate_def split: answerer.split prod.split)

lemma acts_for_counters: "acts_for t (spend_tokens W u n)" "acts_for t (count_metric a b v l)"
  by (rule acts_for_quiet; simp add: spend_tokens_def count_metric_def)+

lemma acts_for_check: "acts_for t (\<lambda>S. (f S, S))"
  by (rule acts_for_quiet) simp_all

lemma acts_for_answer_from: "acts_for t (answer_from W A u q found prior)"
  unfolding answer_from_def Let_def
  by (intro acts_for_bind acts_for_check acts_for_generate) (auto intro!: acts_for_bind acts_for_counters acts_for_basic acts_for_lift split: answerer.split)

lemma acts_for_remember: "acts_for t (remember (t, u, s) q sq ans)"
  unfolding remember_def by (intro acts_for_bind acts_for_append_history acts_for_read_history acts_for_basic)

lemma acts_for_find_evidence: "acts_for t (find_evidence C W A p u raw prior)"
  unfolding find_evidence_def
  by (auto intro!: acts_for_catching acts_for_lift acts_for_bind acts_for_retrieve acts_for_basic)

lemma acts_for_answer_evidence: "acts_for t (answer_evidence W A u q found prior)"
  unfolding answer_evidence_def by (auto intro!: acts_for_bind acts_for_answer_from acts_for_basic)

lemma acts_for_answer: "acts_for (p_tenant_id (rq_caller rq)) (answer C W is_chat rq)"
proof -
  note parts = acts_for_find_evidence acts_for_answer_evidence acts_for_remember acts_for_read_history acts_for_basic
  show ?thesis
    unfolding answer_def Let_def
    by (auto intro!: acts_for_lift acts_for_bind parts dest!: tenant_of_Inr split: json.split)
qed

lemma acts_for_test_llm: "acts_for t (test_llm C W rq)"
  unfolding test_llm_def by (auto intro!: acts_for_lift acts_for_bind acts_for_generate acts_for_basic split: option.split)

section \<open>What an answer rests on\<close>

lemma mk_query_pipeline_Inr: "mk_query_pipeline cs k ms rel n = Inr Q \<Longrightarrow> qp_chunks Q = cs \<and> min_score Q = ms"
  by (auto simp: mk_query_pipeline_def split: if_splits)

lemma retrieve_memory:
  assumes "retrieve C W p q gated S = (Inr found, S')" "ap_store S = Memory M" "x \<in> set found"
  shows "fst x \<in> set (readable_list M p)"
proof -
  obtain chunks Q where r: "readable_chunks M p = Inr chunks" "qp_chunks Q = chunks" "evidence Q q (p_tenant_id p) None = Inr found"
    using assms(1,2) mk_query_pipeline_Inr by (fastforce simp: retrieve_def)
  then obtain safe where "found = gate Q (p_tenant_id p) (retrieve_lexical Q safe (p_tenant_id p))"
    by (auto simp: evidence_def)
  then have "x \<in> set (retrieve_lexical Q safe (p_tenant_id p))" using assms(3) gate_mem(3)[of "fst x" "snd x"] by simp
  then have "x \<in> set (candidates Q safe (p_tenant_id p))" by (auto simp: retrieve_lexical_def dest: in_set_takeD)
  then show ?thesis using r(1,2) by (auto simp: candidates_def readable_list_def)
qed

lemma unscored_chunk: "map unscored out = map unscored rows \<Longrightarrow> map sr_chunk out = map sr_chunk rows"
proof -
  have "map sr_chunk rs = map sr_chunk (map unscored rs)" for rs :: "'a search_row_scheme list" by (simp add: unscored_def)
  then show "map unscored out = map unscored rows \<Longrightarrow> map sr_chunk out = map sr_chunk rows" by metis
qed

lemma rerank_chunks:
  assumes "rerank imported predict R q rows = Inr (out, R')"
  shows "sr_chunk ` set out = sr_chunk ` set rows"
proof -
  obtain ranked where "out = sort_key (\<lambda>row. - sr_score row) ranked" "map unscored ranked = map unscored rows"
    using rerank_Inr[OF assms] by (auto simp: sound_ranking_def)
  then show ?thesis using unscored_chunk by (metis list.set_map set_sort)
qed

lemma retrieve_postgres:
  assumes "retrieve C W p q gated S = (Inr found, S')" "ap_store S = Postgres P" "x \<in> set found"
  shows "fst x \<in> set (pg_readable P p)"
proof -
  obtain Q safe v and E :: embedder and rows out R where s: "search_hybrid (w_vdist W) (w_hits W) (w_ts_rank W) P (p_tenant_id p) safe v 20 50 (em_model_name E)
        (caller_groups p) = Inr rows"
    "rerank (w_rerank_import W) (w_predict W) (ap_reranker S) safe (allowed_rows p rows) = Inr (out, R)"
    "evidence Q safe (p_tenant_id p) (Some (map (\<lambda>r. (sr_chunk r, sr_score r)) out)) = Inr found"
    using assms(1,2) by (auto simp: retrieve_def split: sum.splits prod.splits)
  then have "found = gate Q (p_tenant_id p) (map (\<lambda>r. (sr_chunk r, sr_score r)) out)" by (auto simp: evidence_def)
  then have "x \<in> set (map (\<lambda>r. (sr_chunk r, sr_score r)) out)" using assms(3) gate_mem(3)[of "fst x" "snd x"] by (metis prod.collapse)
  then have "fst x \<in> sr_chunk ` set out" by auto
  then obtain r where r: "r \<in> set rows" "fst x = sr_chunk r" unfolding rerank_chunks[OF s(2)] allowed_rows_def by auto
  with search_hybrid_rows[OF s(1) r(1)] show ?thesis by (auto simp: of_row_def pg_readable_def)
qed

lemma retrieve_readable:
  assumes "retrieve C W p q gated S = (Inr found, S')" "x \<in> set found"
  shows "fst x \<in> set (storage_readable (ap_store S) p)"
  using retrieve_memory[OF assms(1) _ assms(2)] retrieve_postgres[OF assms(1) _ assms(2)] by (cases "ap_store S") simp_all

lemma cited_sources_range: "cited_sources t n = Inr xs \<Longrightarrow> k \<in> set xs \<Longrightarrow> 1 \<le> k \<and> k \<le> int n"
  by (auto simp: cited_sources_def foldl_add_seen)

text \<open>Reading the parts of a run of acts backwards from its result.\<close>

lemma bind_act_Inr: "bind_act m f S = (Inr y, S') \<longleftrightarrow> (\<exists>x S1. m S = (Inr x, S1) \<and> f x S1 = (Inr y, S'))"
  by (auto simp: bind_act_def split: prod.split sum.split)

lemma ret_Inr: "ret x S = (Inr y, S') \<longleftrightarrow> y = x \<and> S' = S"
  by (auto simp: ret_def)

lemma lift_Inr: "lift_res r S = (Inr y, S') \<longleftrightarrow> r = Inr y \<and> S' = S"
  by (auto simp: lift_res_def)

lemma raise_Inr: "raise e S = (Inr y, S') \<longleftrightarrow> False"
  by (simp add: raise_def)

lemma catching_Inr: "catching P h m S = (Inr y, S') \<longleftrightarrow> m S = (Inr y, S')"
  by (auto simp: catching_def split: prod.split sum.split)

lemma reading_Inr: "reading f S = (Inr y, S') \<longleftrightarrow> f S = Inr y \<and> S' = S"
  by (auto simp: reading_def)

lemmas act_Inr = bind_act_Inr ret_Inr lift_Inr raise_Inr catching_Inr reading_Inr

lemma answer_from_Inr:
  assumes "answer_from W A tenant question found prior S = (Inr (ans, cites, g), S')"
  shows "\<exists>cand. cited_sources cand (length found) = Inr cites \<and> ans = (if cites \<noteq> [] then cand else ABSTENTION)"
  using assms unfolding answer_from_def Let_def act_Inr by auto

text \<open>An answer is credited with sources only through the markers in its own text.\<close>

definition credited :: "nat \<Rightarrow> string \<Rightarrow> int list \<Rightarrow> bool" where
  "credited n ans cites = (if cites = [] then ans = ABSTENTION else cited_sources ans n = Inr cites)"

lemma answer_evidence_Inr:
  assumes "answer_evidence W A tenant question found prior S = (Inr (ans, cites, g), S')"
  shows "credited (length found) ans cites"
proof (cases "found = []")
  case False
  then obtain g' S1 where "answer_from W A tenant question found prior S = (Inr (ans, cites, g'), S1)"
    using assms unfolding answer_evidence_def by (auto simp: act_Inr)
  from answer_from_Inr[OF this] show ?thesis by (auto simp: credited_def)
qed (use assms in \<open>simp add: answer_evidence_def act_Inr credited_def\<close>)

lemma find_evidence_Inr:
  assumes "find_evidence C W A p tenant raw prior S = (Inr (question, search_query, found), S')"
  shows "retrieve C W p search_query True S = (Inr found, S')"
  using assms unfolding find_evidence_def act_Inr by (auto simp: act_Inr split: if_splits)

lemma read_prior_store:
  "(if is_chat then bind_act (read_history k) (\<lambda>ts. ret (history_for_model ts)) else ret []) S = (r, S') \<Longrightarrow> ap_store S' = ap_store S"
  by (cases "ap_history S") (auto simp: read_history_def bind_act_def ret_def split: prod.splits if_splits)

text \<open>The response of a successful question, in terms of the evidence it was given.\<close>

lemma answer_Inr:
  assumes "answer C W is_chat rq S = (Inr reply, S')"
  shows "\<exists>A found ans cites g chat q S1 S2. reply = answer_reply A found (ans, cites, g) chat \<and> credited (length found) ans cites
    \<and> retrieve C W (rq_caller rq) q True S1 = (Inr found, S2) \<and> ap_store S1 = ap_store S"
proof (cases "jget (rq_body rq) ''question''")
  case (JStr raw)
  let ?p = "rq_caller rq"
  obtain tenant session user where t: "tenant_of rq = Inr tenant" "session_of is_chat (rq_body rq) = Inr session"
    "user_provider C W (rq_body rq) = Inr user"
    using assms by (auto simp: answer_def JStr act_Inr)
  let ?A = "answerer_of C user" and ?k = "(tenant, p_user_id ?p, session)"
  have "bind_act (if is_chat then bind_act (read_history ?k) (\<lambda>ts. ret (history_for_model ts)) else ret []) (\<lambda>prior.
          bind_act (find_evidence C W ?A ?p tenant raw prior) (\<lambda>(question, search_query, found).
          bind_act (answer_evidence W ?A tenant question found prior) (\<lambda>a.
          bind_act (if is_chat then remember ?k question search_query (fst a) else ret []) (\<lambda>chat.
          ret (answer_reply ?A found a chat))))) S = (Inr reply, S')"
    using assms by (simp add: answer_def JStr t)
  then obtain prior S1 x S2 a S3 chat S4 where
    1: "(if is_chat then bind_act (read_history ?k) (\<lambda>ts. ret (history_for_model ts)) else ret []) S = (Inr prior, S1)"
    and 2: "find_evidence C W ?A ?p tenant raw prior S1 = (Inr x, S2)"
    and 3: "answer_evidence W ?A tenant (fst x) (snd (snd x)) prior S2 = (Inr a, S3)"
    and 4: "reply = answer_reply ?A (snd (snd x)) a chat"
    unfolding bind_act_Inr by (auto simp: act_Inr case_prod_unfold)
  obtain question search_query found where x: "x = (question, search_query, found)" by (metis surj_pair)
  obtain ans cites g where a: "a = (ans, cites, g)" by (metis surj_pair)
  have "retrieve C W ?p search_query True S1 = (Inr found, S2)" using find_evidence_Inr 2 x by blast
  moreover have "credited (length found) ans cites" using answer_evidence_Inr 3 x a by simp
  moreover have "reply = answer_reply ?A found (ans, cites, g) chat" using 4 x a by simp
  ultimately show ?thesis using read_prior_store[OF 1] by blast
qed (use assms in \<open>simp_all add: answer_def raise_def\<close>)

text \<open>C2. Answers are grounded in what the caller may read: a successful answer either abstains and cites nothing,
  or its citations are exactly the markers in its text, and every cited source is a chunk of the caller's
  tenant, from the current version of a document whose groups admit the caller.\<close>

theorem answers_cite_readable_sources:
  assumes "answer C W is_chat rq S = (Inr (status, resp), S')" "storage_ok (ap_store S)"
  shows "\<exists>ans cites found. jget resp ''answer'' = JStr ans \<and> jget resp ''grounded'' = JBool (cites \<noteq> [])
    \<and> jget resp ''citations'' = JList (map (citation_json found) cites)
    \<and> (if cites = [] then ans = ABSTENTION else cited_sources ans (length found) = Inr cites)
    \<and> (\<forall>k\<in>set cites. \<exists>m. let c = fst (found ! nat (k - 1)) in
        1 \<le> k \<and> k \<le> int (length found) \<and> chunk_tenant_id c = p_tenant_id (rq_caller rq)
        \<and> storage_doc (ap_store S) (p_tenant_id (rq_caller rq), chunk_document_id c) = Some m \<and> dm_status m = Ready
        \<and> acl_admits (set (dm_allowed_groups m)) (fset (p_groups (rq_caller rq))))"
proof -
  let ?p = "rq_caller rq"
  obtain A found ans cites g chat q S1 S2 where r: "(status, resp) = answer_reply A found (ans, cites, g) chat"
    "credited (length found) ans cites" "retrieve C W ?p q True S1 = (Inr found, S2)" "ap_store S1 = ap_store S"
    using answer_Inr[OF assms(1)] by blast
  have src: "\<exists>m. let c = fst (found ! nat (k - 1)) in
        1 \<le> k \<and> k \<le> int (length found) \<and> chunk_tenant_id c = p_tenant_id ?p
        \<and> storage_doc (ap_store S) (p_tenant_id ?p, chunk_document_id c) = Some m \<and> dm_status m = Ready
        \<and> acl_admits (set (dm_allowed_groups m)) (fset (p_groups ?p))" if k: "k \<in> set cites" for k
  proof -
    have "cited_sources ans (length found) = Inr cites" using r(2) k by (auto simp: credited_def split: if_splits)
    from cited_sources_range[OF this k] have b: "1 \<le> k" "k \<le> int (length found)" by auto
    then have "nat (k - 1) < length found" by linarith
    from retrieve_readable[OF r(3) nth_mem[OF this]] r(4)
    have "fst (found ! nat (k - 1)) \<in> set (storage_readable (ap_store S) ?p)" by simp
    from store.readable_acl[OF assms(2) this] b show ?thesis by auto
  qed
  have "jget resp ''answer'' = JStr ans" "jget resp ''grounded'' = JBool (cites \<noteq> [])"
    "jget resp ''citations'' = JList (map (citation_json found) cites)"
    using r(1) by (auto simp: answer_reply_def jget_def)
  with r(2) src show ?thesis unfolding credited_def by (intro exI conjI) auto
qed

text \<open>A question that is answered from the one readable chunk.\<close>

definition ask_request :: "string \<Rightarrow> request" where
  "ask_request q = \<lparr>rq_params = [], rq_body = [(''question'', JStr q)], rq_request_id = ''r'',
     rq_caller = \<lparr>p_tenant_id = ''a'', p_user_id = ''u'', p_groups = {|''staff''|}\<rparr>, rq_query = []\<rparr>"

definition sample_config :: "app_config \<Rightarrow> app_config" where
  "sample_config C = C\<lparr>cf_min_score := 15/100, cf_relative_score := 8/10, cf_provider := None\<rparr>"

definition sample_state :: "app_state \<Rightarrow> app_state" where
  "sample_state S = S\<lparr>ap_store := Memory (mem_run [sample_upload ''a'' ''d1'' (Some [''staff''])]), ap_budget := mk_token_budget 0\<rparr>"

lemma sample_storage_ok: "storage_ok (ap_store (sample_state S))"
  using mem.inv_run[OF store_ok_empty, of "[sample_upload ''a'' ''d1'' (Some [''staff''])]"] by (simp add: sample_defs sample_state_def)

definition sample_q :: string where
  "sample_q = ''Refunds take five days.''"

definition sample_answer :: string where
  "sample_answer = ''Based on the indexed sources: Refunds take five days. [1]''"

lemma sample_question:
  "strip sample_q = sample_q"
  "list_ex (\<lambda>p. re_search p None sample_q) INJECTION_PATTERNS = False"
  "terms sample_q \<noteq> {#}"
  "extractive_generate [sample_q] = sample_answer"
  "strip_invalid_citations sample_answer (Suc 0) = Inr sample_answer"
  "cited_sources sample_answer (Suc 0) = Inr [1]"
  "length sample_q \<le> 2000" "sample_q \<noteq> []"
  by code_simp+

lemma sample_chunk_fields: "chunk_text (upload_chunk t d) = sample_q" "chunk_tenant_id (upload_chunk t d) = t"
  by (simp_all add: upload_chunk_def sample_q_def)

lemma sample_valid: "max_query_length Q = 2000 \<Longrightarrow> validate_query Q sample_q ''a'' = Inr sample_q"
  using sample_question by (simp add: validate_query_def validate_def py_str is_space_def)

lemma sample_retrieve:
  "retrieve (sample_config C) W (rq_caller (ask_request q)) sample_q True (sample_state S)
   = (Inr [(upload_chunk ''a'' ''d1'', 1)], sample_state S)"
proof -
  let ?p = "rq_caller (ask_request q)" and ?M = "mem_run [sample_upload ''a'' ''d1'' (Some [''staff''])]"
  let ?Q = "\<lparr>qp_chunks = [upload_chunk ''a'' ''d1''], top_k = 5, min_score = 15/100, relative_score = 8/10, max_query_length = 2000\<rparr>"
  have "readable_list ?M ?p = [upload_chunk ''a'' ''d1'']" unfolding ask_request_def request.simps by (rule sample_readable)
  then have r: "readable_chunks ?M ?p = Inr [upload_chunk ''a'' ''d1'']" by (auto simp: readable_list_def split: sum.splits)
  have c: "cosine (terms sample_q) (terms sample_q) = 1"
    using cosine_laws[of "terms sample_q" "terms sample_q"] sample_question(3) by simp
  have "evidence ?Q sample_q ''a'' None = Inr [(upload_chunk ''a'' ''d1'', 1)]"
    by (simp add: evidence_def retrieve_lexical_def candidates_def gate_def c sample_chunk_fields sample_valid)
  with r show ?thesis
    by (simp add: retrieve_def sample_state_def sample_config_def mk_query_pipeline_def ask_request_def)
qed

lemma sample_answer_from:
  "\<exists>g S'. answer_from W ExtractiveModel ''a'' q [(upload_chunk ''a'' ''d1'', 1)] [] (sample_state S) = (Inr (sample_answer, [1], g), S')"
  by (simp add: answer_from_def bind_act_def budget_left_def remaining_def sample_state_def mk_token_budget_def generate_def
      extractive_complete_def mk_generation_def sample_chunk_fields sample_question spend_tokens_def count_metric_def lift_res_def ret_def)

lemma sample_answered:
  "\<exists>resp S'. answer (sample_config C) W False (ask_request sample_q) (sample_state S) = (Inr (200, resp), S')
     \<and> jget resp ''grounded'' = JBool True"
proof -
  let ?rq = "ask_request sample_q" and ?C = "sample_config C"
  let ?found = "[(upload_chunk ''a'' ''d1'', 1)]"
  have f: "find_evidence ?C W ExtractiveModel (rq_caller ?rq) ''a'' sample_q [] (sample_state S)
      = (Inr (sample_q, sample_q, ?found), sample_state S)"
    using sample_retrieve[of C W "sample_q" S]
    by (simp add: find_evidence_def catching_def bind_act_def lift_res_def ret_def mk_query_pipeline_def sample_valid)
  obtain g S' where "answer_from W ExtractiveModel ''a'' sample_q ?found [] (sample_state S) = (Inr (sample_answer, [1], g), S')"
    using sample_answer_from by blast
  then have "answer_evidence W ExtractiveModel ''a'' sample_q ?found [] (sample_state S) = (Inr (sample_answer, [1], Some g), S')"
    by (simp add: answer_evidence_def bind_act_def ret_def)
  moreover have "tenant_of ?rq = Inr ''a''" "session_of False (rq_body ?rq) = Inr []" "jget (rq_body ?rq) ''question'' = JStr sample_q"
    "user_provider ?C W (rq_body ?rq) = Inr None" "answerer_of ?C None = ExtractiveModel"
    by (simp_all add: ask_request_def tenant_of_def jget_def session_of_def user_provider_def parse_llm_settings_def answerer_of_def sample_config_def)
  ultimately have "answer ?C W False ?rq (sample_state S) = (Inr (answer_reply ExtractiveModel ?found (sample_answer, [1], Some g) []), S')"
    using f by (simp add: answer_def bind_act_def ret_def lift_res_def)
  then show ?thesis by (simp add: answer_reply_def jget_def)
qed

theorem answers_cite_readable_sources_witness:
  "\<forall>C W S. \<exists>resp S' ans k c m. answer (sample_config C) W False (ask_request sample_q) (sample_state S) = (Inr (200, resp), S')
     \<and> jget resp ''answer'' = JStr ans \<and> cited_sources ans k = Inr c \<and> c \<noteq> []
     \<and> storage_doc (ap_store (sample_state S)) (''a'', m) \<noteq> None"
proof (intro allI)
  fix C W S
  let ?S = "sample_state S"
  obtain resp S' where r: "answer (sample_config C) W False (ask_request sample_q) ?S = (Inr (200, resp), S')" "jget resp ''grounded'' = JBool True"
    using sample_answered by blast
  from answers_cite_readable_sources[OF r(1) sample_storage_ok] obtain ans cites and found :: "scored list" where a: "jget resp ''answer'' = JStr ans"
    "jget resp ''grounded'' = JBool (cites \<noteq> [])" "if cites = [] then ans = ABSTENTION else cited_sources ans (length found) = Inr cites"
    and k: "\<forall>k\<in>set cites. \<exists>m. let c = fst (found ! nat (k - 1)) in
        1 \<le> k \<and> k \<le> int (length found) \<and> chunk_tenant_id c = p_tenant_id (rq_caller (ask_request sample_q))
        \<and> storage_doc (ap_store ?S) (p_tenant_id (rq_caller (ask_request sample_q)), chunk_document_id c) = Some m \<and> dm_status m = Ready
        \<and> acl_admits (set (dm_allowed_groups m)) (fset (p_groups (rq_caller (ask_request sample_q))))"
    by blast
  have "cites \<noteq> []" using a(2) r(2) by simp
  moreover have "p_tenant_id (rq_caller (ask_request sample_q)) = ''a''" by (simp add: ask_request_def)
  ultimately obtain d m where "storage_doc (ap_store ?S) (''a'', d) = Some m" using k unfolding Let_def by (metis list.set_sel(1))
  with a(1,3) r(1) \<open>cites \<noteq> []\<close> show "\<exists>resp S' ans k c m. answer (sample_config C) W False (ask_request sample_q) ?S = (Inr (200, resp), S')
     \<and> jget resp ''answer'' = JStr ans \<and> cited_sources ans k = Inr c \<and> c \<noteq> [] \<and> storage_doc (ap_store ?S) (''a'', m) \<noteq> None"
    by (metis option.distinct(1))
qed

section \<open>The server's model budget\<close>

text \<open>Acts that neither spend the server's tokens nor generate with its gateway, from a state with this budget and gateway.\<close>

abbreviation spares :: "token_budget \<Rightarrow> gw_state \<Rightarrow> 'a act \<Rightarrow> bool" where
  "spares B g \<equiv> stays (\<lambda>S. ap_budget S = B \<and> ap_gateway S = g)"

lemma spares_metric: "spares B g (count_metric a b v l)"
  by (simp add: stays_def count_metric_def)

lemma spares_history: "spares B g (read_history k)" "spares B g (append_history k ts)"
  by (auto simp: stays_def read_history_def append_history_def split: history.split prod.split)

lemma spares_retrieve: "spares B g (retrieve C W p q gated)"
  by (auto simp: stays_def retrieve_def split: storage.split sum.split prod.split)

lemma spares_generate_own: "spares B g (generate W (UserModel G) q sources prior)"
  by (simp add: stays_def generate_def)

lemma spares_find_evidence: "spares B g (find_evidence C W A p t raw prior)"
  unfolding find_evidence_def by (auto intro!: stays_catching stays_bind spares_retrieve stays_basic spares_metric)

lemma spares_remember: "spares B g (remember k q sq ans)"
  unfolding remember_def by (auto intro!: stays_bind spares_history stays_basic spares_metric)

lemma spares_answer_from_own: "spares B g (answer_from W (UserModel G) t q found prior)"
  unfolding answer_from_def Let_def
  by (auto intro!: stays_bind spares_generate_own stays_basic spares_metric simp: stays_def[of _ "\<lambda>S. (Inr (), S)"])

lemma spares_answer_from_exhausted:
  assumes "\<not> budget_left W t (S0\<lparr>ap_budget := B\<rparr>)" "\<And>G. A \<noteq> UserModel G"
  shows "spares B g (answer_from W A t q found prior)"
  using assms by (auto simp: stays_def answer_from_def budget_left_def bind_act_def split: answerer.splits)

lemma spares_answer_evidence:
  assumes "(\<exists>G. A = UserModel G) \<or> (\<exists>n. remaining (w_day W) B t = Some n \<and> n \<le> 0)"
  shows "spares B g (answer_evidence W A t q found prior)"
proof -
  have "spares B g (answer_from W A t q found prior)"
  proof (cases "\<exists>G. A = UserModel G")
    case False
    with assms have "\<not> budget_left W t (S\<lparr>ap_budget := B\<rparr>)" for S by (auto simp: budget_left_def)
    with False show ?thesis using spares_answer_from_exhausted by blast
  qed (auto intro: spares_answer_from_own)
  then show ?thesis unfolding answer_evidence_def by (auto intro!: stays_bind stays_basic spares_metric split: prod.split)
qed

text \<open>C36. The daily budget limits answers: a question asked with the caller's own model, or by a tenant whose budget
  for the day is used up, is charged nothing and has no answer generated by the server's gateway, whatever
  the question and however it ends.\<close>

theorem server_key_is_protected:
  assumes "user_provider C W (rq_body rq) = Inr user"
    "user \<noteq> None \<or> (\<exists>n. remaining (w_day W) (ap_budget S) (p_tenant_id (rq_caller rq)) = Some n \<and> n \<le> 0)"
  shows "ap_budget (snd (answer C W is_chat rq S)) = ap_budget S \<and> ap_gateway (snd (answer C W is_chat rq S)) = ap_gateway S"
proof -
  have e: "spares (ap_budget S) g (answer_evidence W (answerer_of C user) t q found prior)" if "tenant_of rq = Inr t" for t q found prior g
    using assms(2) that by (intro spares_answer_evidence) (auto simp: answerer_of_def dest: tenant_of_Inr)
  note parts = spares_history spares_find_evidence spares_remember stays_basic spares_metric
  have "spares (ap_budget S) (ap_gateway S) (answer C W is_chat rq)"
    unfolding answer_def assms(1) Let_def
    by (auto intro!: stays_lift stays_bind parts e split: json.split prod.split)
  then show ?thesis by (simp add: stays_def)
qed

theorem server_key_is_protected_witness:
  "\<forall>C W S G. ap_gateway (snd (answer (sample_config C\<lparr>cf_provider := Some G\<rparr>) W False (ask_request sample_q)
       (sample_state S\<lparr>ap_budget := \<lparr>limit = 10, used = \<lambda>_. 10\<rparr>\<rparr>))) = ap_gateway S"
proof (intro allI)
  fix C W S G
  let ?C = "sample_config C\<lparr>cf_provider := Some G\<rparr>" and ?S = "sample_state S\<lparr>ap_budget := \<lparr>limit = 10, used = \<lambda>_. 10\<rparr>\<rparr>"
  have "user_provider ?C W (rq_body (ask_request sample_q)) = Inr None"
    by (simp add: ask_request_def jget_def user_provider_def parse_llm_settings_def)
  moreover have "\<exists>n. remaining (w_day W) (ap_budget ?S) (p_tenant_id (rq_caller (ask_request sample_q))) = Some n \<and> n \<le> 0"
    by (simp add: remaining_def)
  ultimately show "ap_gateway (snd (answer ?C W False (ask_request sample_q) ?S)) = ap_gateway S"
    using server_key_is_protected[of ?C W "ask_request sample_q" None ?S False] by (simp add: sample_state_def)
qed

text \<open>The budget does not cover the rewriting of follow-ups: for a conversation with the server's model, the search
  query is what the first available provider makes of the question, in every state of the budget, exhausted
  or not, and before the budget is looked at.\<close>

theorem budget_does_not_cover_rewrites:
  assumes "find_evidence C W (ServerModel G) p tenant raw prior S = (Inr (question, search_query, found), S')" "prior \<noteq> []"
    "first_closed (ap_gateway S) (gw_providers G) = Some q"
  shows "search_query = mp_rewrite q question (trim_history (gw_budget G) prior) \<and> ap_budget S' = ap_budget S"
proof
  show "search_query = mp_rewrite q question (trim_history (gw_budget G) prior)"
    using assms unfolding find_evidence_def act_Inr by (auto simp: act_Inr rewrite_question_def gateway_rewrite_query_def Let_def)
  have "spares (ap_budget S) (ap_gateway S) (find_evidence C W (ServerModel G) p tenant raw prior)" by (rule spares_find_evidence)
  from staysD[OF this, of S] show "ap_budget S' = ap_budget S" by (simp add: assms(1))
qed

text \<open>A provider that rewrites every question to the sample question, and an exhausted budget.\<close>

definition rewriting_gateway :: gateway where
  "rewriting_gateway = \<lparr>gw_providers = [\<lparr>mp_name = ''m'', mp_complete = (\<lambda>_ _ _ _. Inl URLError), mp_rewrite = (\<lambda>_ _. sample_q)\<rparr>],
     gw_budget = \<lparr>max_context_tokens = 10, max_history_tokens = 10\<rparr>, gw_pricing = [], gw_max_attempts = 1, gw_base_delay = 0,
     gw_max_delay = 0, gw_deadline = 1\<rparr>"

theorem budget_does_not_cover_rewrites_witness:
  "\<forall>C W S. \<exists>found S'. find_evidence (sample_config C) W (ServerModel rewriting_gateway) (rq_caller (ask_request sample_q)) ''a'' sample_answer
       [\<lparr>role = ''user'', content = ''x''\<rparr>]
       (sample_state S\<lparr>ap_budget := \<lparr>limit = 1, used = \<lambda>_. 1\<rparr>, ap_gateway := init_gateway rewriting_gateway []\<rparr>)
     = (Inr (sample_answer, sample_q, found), S') \<and> sample_answer \<noteq> sample_q \<and> ap_budget S' = \<lparr>limit = 1, used = \<lambda>_. 1\<rparr>"
proof (intro allI)
  fix C :: app_config and W :: world and S
  let ?S = "sample_state S\<lparr>ap_budget := \<lparr>limit = 1, used = \<lambda>_. 1\<rparr>, ap_gateway := init_gateway rewriting_gateway []\<rparr>"
  let ?p = "rq_caller (ask_request sample_q)" and ?prior = "[\<lparr>role = ''user'', content = ''x''\<rparr>]"
  have v: "validate_query Q sample_answer ''a'' = Inr sample_answer" if "max_query_length Q = 2000" for Q
  proof -
    have "strip sample_answer = sample_answer" "list_ex (\<lambda>p. re_search p None sample_answer) INJECTION_PATTERNS = False"
      "length sample_answer \<le> 2000" "sample_answer \<noteq> []" by code_simp+
    with that show ?thesis by (simp add: validate_query_def validate_def py_str is_space_def)
  qed
  have g: "first_closed (ap_gateway ?S) (gw_providers rewriting_gateway)
      = Some \<lparr>mp_name = ''m'', mp_complete = (\<lambda>_ _ _ _. Inl URLError), mp_rewrite = (\<lambda>_ _. sample_q)\<rparr>"
    by (simp add: rewriting_gateway_def init_gateway_def setdefault_def breaker_of_def mk_breaker_def)
  have "retrieve (sample_config C) W ?p sample_q True ?S = (Inr [(upload_chunk ''a'' ''d1'', 1)], ?S)"
    using sample_retrieve[of C W sample_q S] by (simp add: retrieve_def sample_state_def Let_def)
  then obtain found S' where f: "find_evidence (sample_config C) W (ServerModel rewriting_gateway) ?p ''a'' sample_answer ?prior ?S
      = (Inr (sample_answer, sample_q, found), S')"
    using v g by (simp add: find_evidence_def catching_def bind_act_def lift_res_def reading_def ret_def mk_query_pipeline_def
        rewrite_question_def gateway_rewrite_query_def)
  moreover have "sample_answer \<noteq> sample_q" by code_simp
  ultimately show "\<exists>found S'. find_evidence (sample_config C) W (ServerModel rewriting_gateway) ?p ''a'' sample_answer ?prior ?S
     = (Inr (sample_answer, sample_q, found), S') \<and> sample_answer \<noteq> sample_q \<and> ap_budget S' = \<lparr>limit = 1, used = \<lambda>_. 1\<rparr>"
    using budget_does_not_cover_rewrites[OF f _ g] by auto
qed

end
