(* ===== verification/Api.thy ===== *)
theory Api
  imports Api_Answer
begin

text \<open>
  The application of \<open>api.py\<close>, third part: its construction from the environment, the route table,
  authentication, rate limiting, the body of a request, and \<open>handle\<close>, the boundary every request crosses.
\<close>

section \<open>Construction\<close>

definition LEXICAL_MIN_SCORE :: real where
  "LEXICAL_MIN_SCORE = 15/100"

definition HYBRID_MIN_SCORE :: real where
  "HYBRID_MIN_SCORE = 40/100"

definition RELATIVE_SCORE :: real where
  "RELATIVE_SCORE = 8/10"

text \<open>
  The arguments of \<open>__init__\<close>. \<open>ar_database\<close> stands for \<open>persistence\<close>: the tables it connects to; \<open>Some None\<close> as
  a provider is an \<open>ExtractiveProvider\<close>. Whether the queue's own thread is started is not part of the state.
\<close>

record app_args =
  ar_api_key :: "string option"
  ar_max_body_bytes :: "int option"
  ar_database :: "(pg_store \<times> chat_table \<times> pg_job list) option"
  ar_embedder :: "embedder option"
  ar_tenant_id :: "string option"
  ar_provider :: "gateway option option"
  ar_reranker :: "reranker option"
  ar_keys :: "key_store option"
  ar_min_score :: "real option"
  ar_relative_score :: "real option"
  ar_rate_limiter :: "rate_limiter option"
  ar_token_budget :: "token_budget option"

definition or_else :: "'a option \<Rightarrow> 'a res \<Rightarrow> 'a res" where
  "or_else v d = (case v of Some x \<Rightarrow> Inr x | None \<Rightarrow> d)"

definition app_keys :: "(bytes \<Rightarrow> string) \<Rightarrow> key_store res \<Rightarrow> app_args \<Rightarrow> key_store res" where
  "app_keys sha256 environment_keys ar = or_else (ar_keys ar)
     (if py_truthy (ar_api_key ar)
      then single_key sha256 (the (ar_api_key ar)) (strip (if py_truthy (ar_tenant_id ar) then the (ar_tenant_id ar) else ''default''))
      else environment_keys)"

definition app_min_score :: "environ \<Rightarrow> app_args \<Rightarrow> real res" where
  "app_min_score env ar = or_else (ar_min_score ar)
     (if py_truthy (env ''RAG_MIN_SCORE'') then py_float (the (env ''RAG_MIN_SCORE''))
      else Inr (if ar_database ar \<noteq> None then HYBRID_MIN_SCORE else LEXICAL_MIN_SCORE))"

definition truncate :: "real \<Rightarrow> int" where
  "truncate x = (if x < 0 then - \<lfloor>- x\<rfloor> else \<lfloor>x\<rfloor>)"

definition app_settings :: "(bytes \<Rightarrow> string) \<Rightarrow> environ \<Rightarrow> key_store res \<Rightarrow> app_args \<Rightarrow>
    app_config res" where
  "app_settings sha256 env environment_keys ar =
     bind_res (app_keys sha256 environment_keys ar) (\<lambda>keys.
     bind_res (app_min_score env ar) (\<lambda>ms.
     bind_res (or_else (ar_relative_score ar)
       (case env ''RAG_RELATIVE_SCORE'' of None \<Rightarrow> Inr RELATIVE_SCORE | Some v \<Rightarrow> py_float v)) (\<lambda>relative.
     bind_res (or_else (ar_max_body_bytes ar)
       (bind_res (py_float (getenv env ''RAG_MAX_BODY_MB'' ''25'')) (\<lambda>mb. Inr (truncate (mb * 1000000))))) (\<lambda>max_body.
     Inr \<lparr>cf_keys = keys, cf_min_score = ms, cf_relative_score = relative, cf_max_body_bytes = max_body,
       cf_ingestion = default_pipeline, cf_provider = None, cf_environ = env\<rparr>))))"

text \<open>Without a database there is no embedder and nothing reads the placeholder.\<close>

definition app_embedder :: "environ \<Rightarrow> app_args \<Rightarrow> embedder res" where
  "app_embedder env ar = or_else (ar_embedder ar)
     (if ar_database ar \<noteq> None then embedder_from_environment env
      else Inr \<lparr>em_model_name = MODEL_NAME, em_batch_size = 32, em_threads = None, em_loaded = False\<rparr>)"

definition init_app :: "(bytes \<Rightarrow> string) \<Rightarrow> (openai_provider \<Rightarrow> model_provider) \<Rightarrow> environ \<Rightarrow> key_store res \<Rightarrow> app_args \<Rightarrow>
    (app_config \<times> app_state) res" where
  "init_app sha256 run env environment_keys ar =
     bind_res (app_settings sha256 env environment_keys ar) (\<lambda>C0.
     bind_res (app_embedder env ar) (\<lambda>E.
     bind_res (case ar_provider ar of Some given \<Rightarrow> Inr given | None \<Rightarrow> configured_provider run env) (\<lambda>provider.
     let C = C0\<lparr>cf_provider := provider\<rparr> in
     bind_res (mk_history_store 12) (\<lambda>h.
     bind_res (or_else (ar_rate_limiter ar)
       (bind_res (py_float (getenv env ''RAG_RATE_LIMIT_PER_MINUTE'' ''120'')) (\<lambda>r. Inr (mk_rate_limiter r None)))) (\<lambda>limiter.
     bind_res (or_else (ar_token_budget ar)
       (bind_res (py_int (getenv env ''RAG_TENANT_DAILY_TOKEN_BUDGET'' ''0'')) (\<lambda>n. Inr (mk_token_budget n)))) (\<lambda>b.
     Inr (C, \<lparr>ap_store = (case ar_database ar of Some (P, T, rows) \<Rightarrow> Postgres P | None \<Rightarrow> Memory empty_store),
       ap_history = (case ar_database ar of Some (P, T, rows) \<Rightarrow> PostgresHistory T | None \<Rightarrow> MemoryHistory h),
       ap_jobs = (case ar_database ar of Some (P, T, rows) \<Rightarrow> Durable rows | None \<Rightarrow> InProcess mk_worker),
       ap_embedder = E,
       ap_reranker = (case ar_reranker ar of Some R \<Rightarrow> R | None \<Rightarrow> mk_reranker ''cross-encoder/ms-marco-MiniLM-L-6-v2''),
       ap_limiter = limiter, ap_budget = b, ap_metrics = empty_metrics,
       ap_gateway = (case cf_provider C of Some G \<Rightarrow> init_gateway G [] | None \<Rightarrow> \<lparr>gs_breakers = [], gs_ticks = 0, gs_calls = [], gs_sleeps = []\<rparr>)\<rparr>)))))))"

section \<open>Routes\<close>

datatype endpoint = Live | Ready_Check | Me | Test_Llm | List_Documents | Create_Document | Get_Document | Delete_Document
  | Update_Document | Ask | Chat | Submit_Job | Get_Job

text \<open>\<open>handler.__name__.lstrip("_")\<close>\<close>

fun endpoint_name :: "endpoint \<Rightarrow> string" where
  "endpoint_name Live = ''live''"
| "endpoint_name Ready_Check = ''ready''"
| "endpoint_name Me = ''me''"
| "endpoint_name Test_Llm = ''test_llm''"
| "endpoint_name List_Documents = ''list_documents''"
| "endpoint_name Create_Document = ''create_document''"
| "endpoint_name Get_Document = ''get_document''"
| "endpoint_name Delete_Document = ''delete_document''"
| "endpoint_name Update_Document = ''update_document''"
| "endpoint_name Ask = ''query''"
| "endpoint_name Chat = ''chat''"
| "endpoint_name Submit_Job = ''submit_job''"
| "endpoint_name Get_Job = ''get_job''"

text \<open>A path, or a prefix followed by a named group \<open>[^/]+\<close>.\<close>

datatype pattern = Fixed string | With_Id string string

fun fullmatch :: "pattern \<Rightarrow> string \<Rightarrow> (string \<times> string) list option" where
  "fullmatch (Fixed p) path = (if path = p then Some [] else None)"
| "fullmatch (With_Id stem name) path =
     (let i = drop (length stem) path in
      if take (length stem) path = stem \<and> i \<noteq> [] \<and> CHR ''/'' \<notin> set i then Some [(name, i)] else None)"

type_synonym route = "string \<times> pattern \<times> endpoint \<times> bool"

definition routes :: "route list" where
  "routes =
    [(''GET'', Fixed ''/health/live'', Live, False),
     (''GET'', Fixed ''/health/ready'', Ready_Check, False),
     (''GET'', Fixed ''/v1/me'', Me, True),
     (''POST'', Fixed ''/v1/llm/test'', Test_Llm, True),
     (''GET'', Fixed ''/v1/documents'', List_Documents, True),
     (''POST'', Fixed ''/v1/documents'', Create_Document, True),
     (''GET'', With_Id ''/v1/documents/'' ''document_id'', Get_Document, True),
     (''DELETE'', With_Id ''/v1/documents/'' ''document_id'', Delete_Document, True),
     (''PATCH'', With_Id ''/v1/documents/'' ''document_id'', Update_Document, True),
     (''POST'', Fixed ''/v1/query'', Ask, True),
     (''POST'', Fixed ''/v1/chat'', Chat, True),
     (''POST'', Fixed ''/v1/ingestion/jobs'', Submit_Job, True),
     (''GET'', With_Id ''/v1/ingestion/jobs/'' ''job_id'', Get_Job, True)]"

text \<open>The loop of \<open>_route\<close> up to the first route that matches; \<open>allowed\<close> collects the methods of other routes.\<close>

fun find_route :: "route list \<Rightarrow> string \<Rightarrow> string \<Rightarrow> string list \<Rightarrow> (endpoint \<times> (string \<times> string) list \<times> bool) res" where
  "find_route [] m path allowed =
     (if allowed \<noteq> [] then Inl (api_error 405 ''method not allowed'') else Inl (api_error 404 ''route not found''))"
| "find_route ((route_method, pat, e, requires_auth) # rs) m path allowed =
     (case fullmatch pat path of
        None \<Rightarrow> find_route rs m path allowed
      | Some params \<Rightarrow>
          if route_method \<noteq> m then find_route rs m path (allowed @ [route_method])
          else Inr (e, params, requires_auth))"

definition target :: "world \<Rightarrow> string \<Rightarrow> (string \<times> string) res" where
  "target W path =
     bind_res (urlsplit (w_bracket_ok W) path) (\<lambda>url.
     let route_path = rstrip_char (CHR ''/'') (u_path url) in
     Inr (if route_path = [] then ''/'' else route_path, u_query url))"

definition find_endpoint :: "world \<Rightarrow> string \<Rightarrow> string \<Rightarrow> (endpoint \<times> (string \<times> string) list \<times> bool \<times> string) res" where
  "find_endpoint W m path =
     bind_res (target W path) (\<lambda>(route_path, qs).
     bind_res (find_route routes m route_path []) (\<lambda>(e, params, requires_auth). Inr (e, params, requires_auth, qs)))"

section \<open>Admission of a request\<close>

type_synonym headers = "(string \<times> string) list"

text \<open>\<open>{key.lower(): value for ...}\<close>: the last of several values counts.\<close>

definition header :: "headers \<Rightarrow> string \<Rightarrow> string option" where
  "header hs k = map_of (rev (map (\<lambda>(key, v). (lower key, v)) hs)) k"

definition authenticate_request :: "app_config \<Rightarrow> world \<Rightarrow> headers \<Rightarrow> principal res" where
  "authenticate_request C W hs =
     (case authenticate (w_sha256 W) (cf_keys C) (header hs ''x-api-key'') of
        None \<Rightarrow> Inl (api_error 401 ''invalid or missing API key'')
      | Some p \<Rightarrow> Inr p)"

definition limiter_key :: "principal \<Rightarrow> string" where
  "limiter_key p = p_tenant_id p @ ''/'' @ p_user_id p"

definition too_many_requests :: "real \<Rightarrow> exn" where
  "too_many_requests wait = ApiError 429 ''rate limit exceeded'' [(''retry-after'', show_int (max 1 (round_half_even wait)))]"

definition acquire_slot :: "world \<Rightarrow> principal \<Rightarrow> unit act" where
  "acquire_slot W p = (\<lambda>S.
     case acquire (w_monotonic W) (limiter_key p) (ap_limiter S) of (wait, L) \<Rightarrow>
       if wait > 0
       then (Inl (too_many_requests wait), S\<lparr>ap_limiter := L,
         ap_metrics := inc (ap_metrics S) ''rag_rate_limited_total'' ''Requests rejected by the rate limiter.'' 1 [(''tenant'', p_tenant_id p)]\<rparr>)
       else (Inr (), S\<lparr>ap_limiter := L\<rparr>))"

text \<open>
  The reader reports a \<open>UnicodeDecodeError\<close> as a \<open>UnicodeError\<close> and a \<open>JSONDecodeError\<close> as a \<open>ValueError\<close>; any other
  exception of \<open>json.loads\<close> is an \<open>OtherError\<close> and passes.
\<close>

definition json_body :: "world \<Rightarrow> bytes \<Rightarrow> jobj res" where
  "json_body W body =
     (if list_all is_bytes_space body then Inr []
      else case w_json_loads W body of
        Inr (JObj kvs) \<Rightarrow> Inr kvs
      | Inr _ \<Rightarrow> Inl (api_error 400 ''request body must be a JSON object'')
      | Inl e \<Rightarrow> Inl (if is_value_error e then api_error 400 ''request body must be valid JSON'' else e))"

section \<open>Handlers\<close>

definition live :: "reply act" where
  "live = ret (200, [(''status'', JStr ''ok'')])"

definition ready :: "world \<Rightarrow> reply act" where
  "ready W = (\<lambda>S. case ap_store S of
     Postgres _ \<Rightarrow> if w_database_up W then ret (200, [(''status'', JStr ''ready'')]) S
       else raise (api_error 503 ''database is unavailable'') S
   | Memory _ \<Rightarrow> ret (200, [(''status'', JStr ''ready'')]) S)"

definition model_label :: "world \<Rightarrow> gateway option \<Rightarrow> string" where
  "model_label W provider = (case provider of
     Some G \<Rightarrow> join ('' '' @ w_arrow W @ '' '') (map mp_name (gw_providers G) @ [''extractive''])
   | None \<Rightarrow> ''extractive'')"

definition me :: "app_config \<Rightarrow> world \<Rightarrow> request \<Rightarrow> reply act" where
  "me C W rq = reading (\<lambda>S. let p = rq_caller rq in Inr (200,
     [(''tenant_id'', JStr (p_tenant_id p)), (''user_id'', JStr (p_user_id p)), (''groups'', JList (map JStr (caller_groups p))),
      (''storage'', JStr (case ap_store S of Postgres _ \<Rightarrow> ''postgres'' | Memory _ \<Rightarrow> ''memory'')),
      (''max_file_bytes'', JInt (truncate (of_int (cf_max_body_bytes C) * (74/100)))),
      (''model'', JStr (model_label W (cf_provider C))), (''llm'', JObj (presets_for_ui (cf_environ C)))]))"

text \<open>\<open>request.caller\<close> asserts that the route required authentication.\<close>

definition with_caller :: "principal option \<Rightarrow> (principal \<Rightarrow> 'a act) \<Rightarrow> 'a act" where
  "with_caller who f = (case who of
     Some p \<Rightarrow> f p | None \<Rightarrow> raise (OtherError ''AssertionError: route requires authentication''))"

fun endpoint_handler :: "app_config \<Rightarrow> world \<Rightarrow> endpoint \<Rightarrow> request \<Rightarrow> reply act" where
  "endpoint_handler C W Live rq = live"
| "endpoint_handler C W Ready_Check rq = ready W"
| "endpoint_handler C W Me rq = me C W rq"
| "endpoint_handler C W Test_Llm rq = test_llm C W rq"
| "endpoint_handler C W List_Documents rq = list_documents_handler W rq"
| "endpoint_handler C W Create_Document rq = create_document C W rq"
| "endpoint_handler C W Get_Document rq = get_document_handler W rq"
| "endpoint_handler C W Delete_Document rq = delete_document_handler rq"
| "endpoint_handler C W Update_Document rq = update_document_handler W rq"
| "endpoint_handler C W Ask rq = answer C W False rq"
| "endpoint_handler C W Chat rq = answer C W True rq"
| "endpoint_handler C W Submit_Job rq = submit_job_handler W rq"
| "endpoint_handler C W Get_Job rq = get_job_handler W rq"

text \<open>The two handlers without authentication do not look at the request.\<close>

definition run_handler :: "app_config \<Rightarrow> world \<Rightarrow> endpoint \<Rightarrow> principal option \<Rightarrow> (string \<times> string) list \<Rightarrow> jobj \<Rightarrow> string \<Rightarrow> string \<Rightarrow>
    reply act" where
  "run_handler C W e who params payload request_id qs =
     (if e = Live then live else if e = Ready_Check then ready W
      else with_caller who (\<lambda>p. endpoint_handler C W e
        \<lparr>rq_params = params, rq_body = payload, rq_request_id = request_id, rq_caller = p, rq_query = qs\<rparr>))"

definition request_id_of :: "world \<Rightarrow> headers \<Rightarrow> string" where
  "request_id_of W hs = (let v = header hs ''x-request-id'' in if py_truthy v then the v else w_request_uuid W)"

definition serve :: "app_config \<Rightarrow> world \<Rightarrow> endpoint \<Rightarrow> (string \<times> string) list \<Rightarrow> bool \<Rightarrow> string \<Rightarrow> headers \<Rightarrow> bytes \<Rightarrow> reply act" where
  "serve C W e params requires_auth qs hs body =
     bind_act (lift_res (if requires_auth then bind_res (authenticate_request C W hs) (\<lambda>p. Inr (Some p)) else Inr None)) (\<lambda>who.
     bind_act (case who of Some p \<Rightarrow> acquire_slot W p | None \<Rightarrow> ret ()) (\<lambda>_.
     if int (length body) > cf_max_body_bytes C then raise (api_error 413 ''request body is too large'')
     else
       bind_act (lift_res (json_body W body)) (\<lambda>payload.
       bind_act (run_handler C W e who params payload (request_id_of W hs) qs) (\<lambda>(status, resp).
       ret (status, AList.update ''request_id'' (JStr (request_id_of W hs)) resp)))))"

definition route_request :: "app_config \<Rightarrow> world \<Rightarrow> string \<Rightarrow> string \<Rightarrow> headers \<Rightarrow> bytes \<Rightarrow> reply act" where
  "route_request C W m path hs body =
     bind_act (lift_res (find_endpoint W m path)) (\<lambda>(e, params, requires_auth, qs).
       serve C W e params requires_auth qs hs body)"

text \<open>\<open>context["route"]\<close> when the request ends.\<close>

definition route_label :: "world \<Rightarrow> string \<Rightarrow> string \<Rightarrow> string" where
  "route_label W m path = (case find_endpoint W m path of Inr (e, _) \<Rightarrow> endpoint_name e | Inl _ \<Rightarrow> ''unmatched'')"

text \<open>How \<open>handle\<close> ends: the status it counts and the outcome the caller sees.\<close>

fun settle :: "reply res \<Rightarrow> int \<times> reply res" where
  "settle (Inr (status, resp)) = (status, Inr (status, resp))"
| "settle (Inl (ApiError status m hs)) = (status, Inl (ApiError status m hs))"
| "settle (Inl e) = (500, Inl (api_error 500 ''internal server error''))"

definition REQUESTS_TOTAL :: string where
  "REQUESTS_TOTAL = ''rag_http_requests_total''"

definition record_request :: "world \<Rightarrow> string \<Rightarrow> string \<Rightarrow> int \<Rightarrow> metrics \<Rightarrow> metrics" where
  "record_request W m label status M =
     observe_latency (inc M REQUESTS_TOTAL ''HTTP requests by route, method and status.'' 1
       [(''route'', label), (''method'', m), (''status'', show_int status)]) (w_elapsed W) [(''route'', label)]"

definition handle :: "app_config \<Rightarrow> world \<Rightarrow> string \<Rightarrow> string \<Rightarrow> headers \<Rightarrow> bytes \<Rightarrow> reply act" where
  "handle C W m path hs body = (\<lambda>S.
     case route_request C W m path hs body S of (r, S1) \<Rightarrow>
       case settle r of (status, r') \<Rightarrow>
         (r', S1\<lparr>ap_metrics := record_request W m (route_label W m path) status (ap_metrics S1)\<rparr>))"

section \<open>What happens only at the boundary\<close>

text \<open>The limiter and the request counter: no handler touches them.\<close>

definition boundary :: "app_state \<Rightarrow> rate_limiter \<times> (labels \<times> real) list" where
  "boundary S = (ap_limiter S, dict_get (counters (ap_metrics S)) REQUESTS_TOTAL [])"

abbreviation inner :: "rate_limiter \<times> (labels \<times> real) list \<Rightarrow> 'a act \<Rightarrow> bool" where
  "inner v \<equiv> stays (\<lambda>S. boundary S = v)"

lemma inner_quiet:
  assumes "\<And>S. ap_limiter (snd (m S)) = ap_limiter S" "\<And>S. ap_metrics (snd (m S)) = ap_metrics S"
  shows "inner v m"
  by (simp add: stays_def boundary_def assms)

lemma counters_inc_other: "name \<noteq> n \<Longrightarrow> dict_get (counters (inc M n help_text v l)) name d = dict_get (counters M) name d"
  by (simp add: inc_def Let_def dict_get_def update_conv')

lemma inner_metric: "n \<noteq> REQUESTS_TOTAL \<Longrightarrow> inner v (count_metric n b x l)"
  by (simp add: stays_def boundary_def count_metric_def counters_inc_other)

lemma metric_names: "''rag_generation_tokens_total'' \<noteq> REQUESTS_TOTAL" "''rag_generation_degraded_total'' \<noteq> REQUESTS_TOTAL"
  "''rag_rate_limited_total'' \<noteq> REQUESTS_TOTAL"
  by (simp_all add: REQUESTS_TOTAL_def)

lemma inner_history: "inner v (read_history k)" "inner v (append_history k ts)"
  by (rule inner_quiet; auto simp: read_history_def append_history_def split: history.split prod.split)+

lemma inner_retrieve: "inner v (retrieve C W p q gated)"
  by (rule inner_quiet) (auto simp: retrieve_def split: storage.split sum.split prod.split)

lemma inner_generate: "inner v (generate W A q sources prior)"
  by (rule inner_quiet) (auto simp: generate_def split: answerer.split prod.split)

lemma inner_spend: "inner v (spend_tokens W t n)" "inner v (\<lambda>S. (f S, S))"
  by (rule inner_quiet; simp add: spend_tokens_def)+

lemma inner_answer_from: "inner v (answer_from W A t q found prior)"
  unfolding answer_from_def Let_def
  by (auto intro!: stays_bind inner_generate inner_spend inner_metric metric_names stays_basic split: answerer.split)

lemma inner_answer: "inner v (answer C W is_chat rq)"
proof -
  have "inner v (find_evidence C W A p t raw prior)" for A p t raw prior
    unfolding find_evidence_def by (auto intro!: stays_catching stays_bind inner_retrieve stays_basic)
  moreover have "inner v (answer_evidence W A t q found prior)" for A t q found prior
    unfolding answer_evidence_def by (auto intro!: stays_bind inner_answer_from stays_basic)
  moreover have "inner v (remember k q sq ans)" for k q sq ans
    unfolding remember_def by (auto intro!: stays_bind inner_history stays_basic)
  ultimately show ?thesis
    unfolding answer_def Let_def by (auto intro!: stays_bind inner_history stays_basic split: json.split)
qed

lemma inner_test_llm: "inner v (test_llm C W rq)"
  unfolding test_llm_def by (auto intro!: stays_bind inner_generate stays_basic split: option.split)

lemma inner_handlers: "inner v (endpoint_handler C W e rq)"
proof -
  have b: "blind (\<lambda>S. boundary S = v)" by (simp add: blind_def boundary_def)
  have "inner v live" "inner v (ready W)" "inner v (me C W rq)"
    by (rule inner_quiet; auto simp: live_def ready_def me_def reading_def ret_def raise_def split: storage.split)+
  then show ?thesis
    by (cases e) (simp_all add: inner_answer inner_test_llm stays_create[OF b] stays_document_handlers[OF b])
qed

lemma inner_run_handler: "inner v (run_handler C W e who params payload rid qs)"
  unfolding run_handler_def with_caller_def
  using inner_handlers[of v C W Live] inner_handlers[of v C W Ready_Check]
  by (auto intro: inner_handlers stays_basic split: option.split)

definition after_admission :: "app_config \<Rightarrow> world \<Rightarrow> endpoint \<Rightarrow> principal option \<Rightarrow> (string \<times> string) list \<Rightarrow> string \<Rightarrow> headers \<Rightarrow> bytes \<Rightarrow> reply act" where
  "after_admission C W e who params qs hs body =
     (if int (length body) > cf_max_body_bytes C then raise (api_error 413 ''request body is too large'')
      else
       bind_act (lift_res (json_body W body)) (\<lambda>payload.
       bind_act (run_handler C W e who params payload (request_id_of W hs) qs) (\<lambda>(status, resp).
       ret (status, AList.update ''request_id'' (JStr (request_id_of W hs)) resp))))"

text \<open>The two ways through \<open>_route\<close>.\<close>

lemma serve_open: "serve C W e params False qs hs body = after_admission C W e None params qs hs body"
  by (simp add: serve_def after_admission_def)

lemma serve_authenticated:
  "serve C W e params True qs hs body = (case authenticate_request C W hs of
     Inl x \<Rightarrow> raise x
   | Inr p \<Rightarrow> bind_act (acquire_slot W p) (\<lambda>_. after_admission C W e (Some p) params qs hs body))"
  by (simp add: serve_def after_admission_def bind_res_def split: sum.split)

lemma inner_after_admission: "inner v (after_admission C W e who params qs hs body)"
  unfolding after_admission_def by (auto intro!: stays_bind inner_run_handler stays_basic)

lemma boundary_bind:
  assumes "\<And>v x. inner v (f x)"
  shows "boundary (snd (bind_act m f S)) = boundary (snd (m S))"
proof (cases "m S")
  case (Pair r S')
  with assms[of "boundary S'"] show ?thesis by (cases r) (simp_all add: bind_act_def stays_def)
qed

lemma boundary_acquire:
  "boundary (snd (acquire_slot W p S)) = (snd (acquire (w_monotonic W) (limiter_key p) (ap_limiter S)), snd (boundary S))"
  by (simp add: acquire_slot_def boundary_def counters_inc_other metric_names(3)[symmetric] split: prod.split)

lemma boundary_serve:
  "boundary (snd (serve C W e params auth qs hs body S)) = (case authenticate_request C W hs of
     Inr p \<Rightarrow> if auth then (snd (acquire (w_monotonic W) (limiter_key p) (ap_limiter S)), snd (boundary S)) else boundary S
   | Inl _ \<Rightarrow> boundary S)"
proof -
  have 1: "boundary (snd (serve C W e params False qs hs body S)) = boundary S"
    unfolding serve_open by (rule staysD[OF inner_after_admission]) simp
  have 2: "boundary (snd (serve C W e params True qs hs body S)) = (case authenticate_request C W hs of
     Inr p \<Rightarrow> (snd (acquire (w_monotonic W) (limiter_key p) (ap_limiter S)), snd (boundary S)) | Inl _ \<Rightarrow> boundary S)"
    by (auto simp: serve_authenticated boundary_bind[OF inner_after_admission] boundary_acquire raise_def split: sum.split)
  show ?thesis using 1 2 by (cases auth) (auto split: sum.split)
qed

lemma boundary_route:
  "boundary (snd (route_request C W m path hs body S)) = (case (find_endpoint W m path, authenticate_request C W hs) of
     (Inr (e, params, True, qs), Inr p) \<Rightarrow> (snd (acquire (w_monotonic W) (limiter_key p) (ap_limiter S)), snd (boundary S))
   | _ \<Rightarrow> boundary S)"
  by (auto simp: route_request_def boundary_serve raise_def split: sum.split prod.split bool.split)

text \<open>The status of an outcome, and the requests counted so far under given labels.\<close>

fun outcome_status :: "reply res \<Rightarrow> int" where
  "outcome_status (Inr (status, _)) = status"
| "outcome_status (Inl (ApiError status _ _)) = status"
| "outcome_status (Inl _) = 500"

definition requests_seen :: "app_state \<Rightarrow> labels \<Rightarrow> real" where
  "requests_seen S k = dict_get (snd (boundary S)) k 0"

lemma settle_cases:
  obtains status resp where "r = Inr (status, resp)" "settle r = (status, r)"
    | status msg hs where "r = Inl (ApiError status msg hs)" "settle r = (status, r)"
    | "settle r = (500, Inl (api_error 500 ''internal server error''))"
proof (cases r)
  case (Inl e)
  then show ?thesis using that(2,3) by (cases e) simp_all
next
  case (Inr x)
  then show ?thesis using that(1) by (cases x) simp
qed

lemma route_request_id:
  assumes "route_request C W m path hs body S = (Inr (status, resp), S')"
  shows "jget resp ''request_id'' = JStr (request_id_of W hs)"
  using assms unfolding route_request_def serve_def Let_def
  by (auto simp: act_Inr jget_def update_conv' split: prod.splits if_splits option.splits)

lemma requests_seen_record:
  "requests_seen (S\<lparr>ap_metrics := record_request W m label status (ap_metrics S)\<rparr>) k =
     requests_seen S k + (if k = sort [(''route'', label), (''method'', m), (''status'', show_int status)] then 1 else 0)"
  by (simp add: requests_seen_def boundary_def record_request_def observe_latency_def inc_def Let_def dict_get_def update_conv')

text \<open>C7. Every request ends well and is counted once: \<open>handle\<close> either returns a response that carries the request's
  identifier or raises an \<open>ApiError\<close>, in which an unexpected exception shows only as an internal error with
  status 500; and whatever happened, the request counter grows by one for the route, method and status of
  that outcome and for nothing else.\<close>

theorem requests_end_well_and_are_counted:
  "let (r, S') = handle C W m path hs body S in
     (case r of Inr (status, resp) \<Rightarrow> jget resp ''request_id'' = JStr (request_id_of W hs)
      | Inl e \<Rightarrow> (\<exists>status msg h. e = ApiError status msg h))
     \<and> (case fst (route_request C W m path hs body S) of Inl (ApiError _ _ _) \<Rightarrow> True | Inr _ \<Rightarrow> True
        | Inl _ \<Rightarrow> r = Inl (api_error 500 ''internal server error''))
     \<and> (\<forall>k. requests_seen S' k = requests_seen S k +
          (if k = sort [(''route'', route_label W m path), (''method'', m), (''status'', show_int (outcome_status r))] then 1 else 0))"
proof -
  obtain r0 S1 where 1: "route_request C W m path hs body S = (r0, S1)" by (metis surj_pair)
  obtain status r where 2: "settle r0 = (status, r)" by (metis surj_pair)
  let ?S = "S1\<lparr>ap_metrics := record_request W m (route_label W m path) status (ap_metrics S1)\<rparr>"
  have h: "handle C W m path hs body S = (r, ?S)" by (simp add: handle_def 1 2)
  have "snd (boundary S1) = snd (boundary S)"
    using boundary_route[of C W m path hs body S] by (auto simp: 1 split: sum.splits prod.splits bool.splits)
  then have n: "requests_seen ?S k = requests_seen S k +
      (if k = sort [(''route'', route_label W m path), (''method'', m), (''status'', show_int status)] then 1 else 0)" for k
    unfolding requests_seen_record by (simp add: requests_seen_def)
  have st: "outcome_status r = status"
    and a: "case r of Inr (status, resp) \<Rightarrow> jget resp ''request_id'' = JStr (request_id_of W hs) | Inl e \<Rightarrow> (\<exists>status msg h. e = ApiError status msg h)"
    and b: "case r0 of Inl (ApiError _ _ _) \<Rightarrow> True | Inr _ \<Rightarrow> True | Inl _ \<Rightarrow> r = Inl (api_error 500 ''internal server error'')"
    using 1 2 route_request_id by (cases r0 rule: settle_cases; force simp: api_error_def split: sum.split exn.split)+
  show ?thesis unfolding h by (simp add: 1 st a b n)
qed

section \<open>Callers without a key\<close>

lemma find_route_mem:
  "find_route rs m path allowed = Inr (e, params, auth) \<Longrightarrow> \<exists>meth pat. (meth, pat, e, auth) \<in> set rs"
  by (induction rs m path allowed rule: find_route.induct) (auto split: option.splits if_splits)

lemma open_routes: "(meth, pat, e, auth) \<in> set routes \<Longrightarrow> auth = (e \<notin> {Live, Ready_Check})"
  by (auto simp: routes_def)

lemma find_endpoint_auth: "find_endpoint W m path = Inr (e, params, auth, qs) \<Longrightarrow> auth = (e \<notin> {Live, Ready_Check})"
  by (auto simp: find_endpoint_def dest!: find_route_mem open_routes)

lemma find_route_Inl: "find_route rs m path allowed = Inl x \<Longrightarrow> x \<in> {api_error 405 ''method not allowed'', api_error 404 ''route not found''}"
  by (induction rs m path allowed rule: find_route.induct) (auto split: option.splits if_splits)

lemma health_state:
  assumes "e \<in> {Live, Ready_Check}"
  shows "snd (after_admission C W e None params qs hs body S) = S"
  using assms
  by (auto simp: after_admission_def run_handler_def live_def ready_def bind_act_def ret_def raise_def lift_res_def split: sum.split storage.split)

lemma unauthenticated_route:
  assumes "authenticate (w_sha256 W) (cf_keys C) (header hs ''x-api-key'') = None"
  shows "snd (route_request C W m path hs body S) = S \<and> (case find_endpoint W m path of
         Inr (e, _) \<Rightarrow> e \<in> {Live, Ready_Check} \<or> fst (route_request C W m path hs body S) = Inl (api_error 401 ''invalid or missing API key'')
       | Inl _ \<Rightarrow> fst (route_request C W m path hs body S) \<in> {Inl (api_error 405 ''method not allowed''), Inl (api_error 404 ''route not found'')} \<or> (\<exists>x. fst (route_request C W m path hs body S) = Inl (ValueError x)))"
proof -
  let ?r = "route_request C W m path hs body S"
  have a: "authenticate_request C W hs = Inl (api_error 401 ''invalid or missing API key'')" by (simp add: authenticate_request_def assms)
  show ?thesis
  proof (cases "find_endpoint W m path")
    case (Inl x)
    then have "x \<in> {api_error 405 ''method not allowed'', api_error 404 ''route not found''} \<or> (\<exists>y. x = ValueError y)"
      by (auto simp: find_endpoint_def target_def urlsplit_def Let_def bind_res_def dest!: find_route_Inl split: sum.splits prod.splits if_splits)
    then show ?thesis using Inl by (auto simp: route_request_def raise_def)
  next
    case (Inr x)
    obtain e params auth qs where x: "x = (e, params, auth, qs)" by (cases x)
    show ?thesis
    proof (cases auth)
      case True
      then show ?thesis by (simp add: route_request_def Inr x serve_authenticated a raise_def)
    next
      case False
      then have "e \<in> {Live, Ready_Check}" using find_endpoint_auth[of W m path e params auth qs] Inr x by simp
      with False show ?thesis using health_state[of e C W params qs hs body S] by (auto simp: route_request_def Inr x serve_open)
    qed
  qed
qed

lemma unauthenticated_state:
  assumes "authenticate (w_sha256 W) (cf_keys C) (header hs ''x-api-key'') = None"
  shows "snd (handle C W m path hs body S) = S\<lparr>ap_metrics := ap_metrics (snd (handle C W m path hs body S))\<rparr>"
  using unauthenticated_route[OF assms, of m path body S] by (auto simp: handle_def split: prod.splits)

text \<open>C6. Without a valid key nothing happens: every route except the two health checks answers 401, and no request
  changes anything but the metrics, so neither documents, conversations, jobs, budgets nor the buckets of the
  rate limiter can be touched from outside.\<close>

theorem unauthenticated_requests_change_nothing:
  assumes "authenticate (w_sha256 W) (cf_keys C) (header hs ''x-api-key'') = None"
  shows "snd (handle C W m path hs body S) = S\<lparr>ap_metrics := ap_metrics (snd (handle C W m path hs body S))\<rparr>
    \<and> (case find_endpoint W m path of
         Inr (e, _) \<Rightarrow> e \<in> {Live, Ready_Check} \<or> fst (handle C W m path hs body S) = Inl (api_error 401 ''invalid or missing API key'')
       | Inl _ \<Rightarrow> outcome_status (fst (handle C W m path hs body S)) \<in> {404, 405, 500})"
proof -
  let ?r = "route_request C W m path hs body S"
  note unauthenticated_route[OF assms, of m path body S]
  then show ?thesis
    by (cases ?r; cases "fst ?r") (auto simp: handle_def api_error_def split: prod.splits sum.splits)
qed

lemma sample_route: "find_endpoint W ''GET'' ''/v1/documents'' = Inr (List_Documents, [], True, [])"
  by (simp add: find_endpoint_def target_def urlsplit_def partition_at_def rstrip_char_def routes_def)

theorem unauthenticated_requests_change_nothing_witness:
  "\<forall>C W S. fst (handle C W ''GET'' ''/v1/documents'' [] [] S) = Inl (api_error 401 ''invalid or missing API key'')"
proof (intro allI)
  fix C :: app_config and W :: world and S
  have "authenticate (w_sha256 W) (cf_keys C) (header [] ''x-api-key'') = None" by (simp add: header_def authenticate_def)
  from unauthenticated_requests_change_nothing[OF this, of "''GET''" "''/v1/documents''" "[]" S]
  show "fst (handle C W ''GET'' ''/v1/documents'' [] [] S) = Inl (api_error 401 ''invalid or missing API key'')"
    by (simp add: sample_route)
qed

section \<open>Tenants are isolated\<close>

type_synonym call = "world \<times> string \<times> string \<times> headers \<times> bytes"

text \<open>A run of requests, one after the other, and the tenant a request acts for.\<close>

fun after_call :: "app_config \<Rightarrow> call \<Rightarrow> app_state \<Rightarrow> app_state" where
  "after_call C (W, m, path, hs, body) S = snd (handle C W m path hs body S)"

fun after_calls :: "app_config \<Rightarrow> call list \<Rightarrow> app_state \<Rightarrow> app_state" where
  "after_calls C [] S = S"
| "after_calls C (c # cs) S = after_calls C cs (after_call C c S)"

fun call_tenant :: "app_config \<Rightarrow> call \<Rightarrow> string option" where
  "call_tenant C (W, m, path, hs, body) =
     map_option p_tenant_id (authenticate (w_sha256 W) (cf_keys C) (header hs ''x-api-key''))"

text \<open>\<open>uuid4\<close> gives every submitted job an identifier of its own.\<close>

fun new_ids :: "app_config \<Rightarrow> call list \<Rightarrow> app_state \<Rightarrow> bool" where
  "new_ids C [] S = True"
| "new_ids C (c # cs) S = (fresh_job S (w_uuid (fst c) 0) \<and> new_ids C cs (after_call C c S))"

definition keys_ok :: "key_store \<Rightarrow> bool" where
  "keys_ok ks = list_all (\<lambda>(d, p). strip (p_tenant_id p) = p_tenant_id p) ks"

lemma from_entries_keys_ok:
  assumes "from_entries rep (JList js) = Inr ks"
  shows "keys_ok ks"
proof -
  have ks: "add_entries rep [] js = Inr ks"
    using assms by (auto simp: from_entries_def mk_key_store_def split: if_splits)
  have "strip (p_tenant_id p) = p_tenant_id p" if "(d, p) \<in> set ks" for d p
  proof -
    obtain e where "entry_grants rep e d p" using add_entries_Inr[OF ks] \<open>(d, p) \<in> set ks\<close> by auto
    then show ?thesis by (simp add: entry_grants_def entry_field_def)
  qed
  then show ?thesis by (auto simp: keys_ok_def list_all_iff)
qed

lemma endpoint_touches:
  assumes "strip (p_tenant_id (rq_caller rq)) = p_tenant_id (rq_caller rq)" "fresh_job S (w_uuid W 0)"
  shows "touches_only (p_tenant_id (rq_caller rq)) S (snd (endpoint_handler C W e rq S))"
proof (cases e)
  case Submit_Job
  then show ?thesis using submit_job_touches[OF assms(2)] by simp
qed (use assms(1) acts_for_create acts_for_document_handlers acts_for_answer acts_for_test_llm in
  \<open>auto simp: acts_for_def live_def ready_def me_def ret_def raise_def reading_def split: storage.split\<close>)

lemma health_run: "e \<in> {Live, Ready_Check} \<Longrightarrow> snd (run_handler C W e who params payload rid qs S) = S"
  by (auto simp: run_handler_def live_def ready_def ret_def raise_def split: storage.split)

lemma after_admission_touches:
  assumes "strip (p_tenant_id p) = p_tenant_id p" "fresh_job S (w_uuid W 0)"
  shows "touches_only (p_tenant_id p) S (snd (after_admission C W e (Some p) params qs hs body S))"
proof -
  have run: "touches_only (p_tenant_id p) S (snd (run_handler C W e (Some p) params payload rid qs S))" for payload rid
  proof (cases "e \<in> {Live, Ready_Check}")
    case False
    let ?rq = "\<lparr>rq_params = params, rq_body = payload, rq_request_id = rid, rq_caller = p, rq_query = qs\<rparr>"
    from False show ?thesis using endpoint_touches[of ?rq S W C e] assms by (simp add: run_handler_def with_caller_def)
  qed (simp add: health_run)
  have "snd (bind_act m (\<lambda>(status, resp). ret (f status resp)) S) = snd (m S)" for m :: "reply act" and f :: "int \<Rightarrow> jobj \<Rightarrow> reply"
    by (simp add: bind_act_def ret_def split: prod.split sum.split)
  with run show ?thesis
    by (cases "json_body W body") (simp_all add: after_admission_def raise_def)
qed

lemma handle_touches:
  assumes "authenticate (w_sha256 W) (cf_keys C) (header hs ''x-api-key'') = Some p" "keys_ok (cf_keys C)" "fresh_job S (w_uuid W 0)"
  shows "touches_only (p_tenant_id p) S (snd (handle C W m path hs body S))"
proof -
  have a: "authenticate_request C W hs = Inr p" by (simp add: authenticate_request_def assms(1))
  have s: "strip (p_tenant_id p) = p_tenant_id p"
    using assms(1,2) by (auto simp: authenticate_def keys_ok_def list_all_iff dest!: map_of_SomeD split: option.splits if_splits)
  have slot: "touches_only (p_tenant_id p) S (snd (acquire_slot W p S)) \<and> fresh_job (snd (acquire_slot W p S)) (w_uuid W 0)"
    using assms(3) by (auto simp: acquire_slot_def fresh_job_def intro!: touches_only_same split: prod.split)
  have "touches_only (p_tenant_id p) S (snd (route_request C W m path hs body S))"
  proof (cases "find_endpoint W m path")
    case (Inr x)
    obtain e params auth qs where x: "x = (e, params, auth, qs)" by (cases x)
    show ?thesis
    proof (cases auth)
      case True
      have "touches_only (p_tenant_id p) S (snd (bind_act (acquire_slot W p) (\<lambda>_. after_admission C W e (Some p) params qs hs body) S))"
      proof (cases "acquire_slot W p S")
        case (Pair r S1)
        with slot have 1: "touches_only (p_tenant_id p) S S1" "fresh_job S1 (w_uuid W 0)" by simp_all
        then show ?thesis
          using Pair touches_only_trans[OF 1(1) after_admission_touches[OF s 1(2)]] by (cases r) (simp_all add: bind_act_def)
      qed
      then show ?thesis using True by (simp add: route_request_def Inr x serve_authenticated a)
    next
      case False
      then have "e \<in> {Live, Ready_Check}" using find_endpoint_auth[of W m path e params auth qs] Inr x by simp
      with False show ?thesis using health_state[of e C W params qs hs body S] by (auto simp: route_request_def Inr x serve_open)
    qed
  qed (simp add: route_request_def raise_def)
  then have "touches_only (p_tenant_id p) S (snd (route_request C W m path hs body S))" .
  then show ?thesis
    by (rule touches_only_trans) (auto simp: handle_def intro!: touches_only_same split: prod.split)
qed

text \<open>All that a tenant can see: its documents and chunks, its conversations and its jobs.\<close>

definition same_for :: "string \<Rightarrow> app_state \<Rightarrow> app_state \<Rightarrow> bool" where
  "same_for t S S' = (storage_view (ap_store S') t = storage_view (ap_store S) t
     \<and> history_view (ap_history S') t = history_view (ap_history S) t \<and> jobs_view (ap_jobs S') t = jobs_view (ap_jobs S) t)"

lemma touches_only_same_for:
  assumes "touches_only t S S'" "storage_ok (ap_store S)"
  shows "storage_ok (ap_store S')" and "t' \<noteq> t \<Longrightarrow> same_for t' S S'"
proof -
  obtain xs where xs: "list_all (op_for t) xs" "ap_store S' = foldl store_step (ap_store S) xs"
    using assms(1) unfolding touches_only_def by blast
  then have ok: "list_all op_ok xs" "list_all (\<lambda>x. op_tenant x = t) xs" by (simp_all add: op_for_def list_all_iff)
  show "storage_ok (ap_store S')" using store.inv_run[OF assms(2) ok(1)] xs(2) by simp
  assume "t' \<noteq> t"
  then have "list_all (\<lambda>x. op_tenant x \<noteq> t') xs" using ok(2) by (auto simp: list_all_iff)
  with store.view_run[OF assms(2) ok(1)] \<open>t' \<noteq> t\<close> assms(1) xs(2) show "same_for t' S S'"
    by (simp add: same_for_def touches_only_def)
qed

lemma after_call_same_for:
  assumes "keys_ok (cf_keys C)" "storage_ok (ap_store S)" "fresh_job S (w_uuid (fst c) 0)"
  shows "storage_ok (ap_store (after_call C c S))" and "call_tenant C c \<noteq> Some t \<Longrightarrow> same_for t S (after_call C c S)"
proof -
  obtain W m path hs body where c: "c = (W, m, path, hs, body)" by (cases c)
  let ?S = "after_call C c S"
  have "storage_ok (ap_store ?S) \<and> (call_tenant C c \<noteq> Some t \<longrightarrow> same_for t S ?S)"
  proof (cases "authenticate (w_sha256 W) (cf_keys C) (header hs ''x-api-key'')")
    case None
    obtain M where "?S = S\<lparr>ap_metrics := M\<rparr>" using unauthenticated_state[OF None, of m path body S] by (simp add: c)
    then have "touches_only t' S ?S" for t' by (simp add: touches_only_same)
    then show ?thesis using touches_only_same_for[OF _ assms(2), of _ ?S] by (metis list.distinct(1))
  next
    case (Some p)
    from handle_touches[OF Some assms(1), of S m path body] assms(3)
    have "touches_only (p_tenant_id p) S ?S" by (simp add: c)
    from touches_only_same_for[OF this assms(2)] Some show ?thesis by (auto simp: c)
  qed
  then show "storage_ok (ap_store ?S)" "call_tenant C c \<noteq> Some t \<Longrightarrow> same_for t S ?S" by simp_all
qed

lemma after_calls_same_for:
  assumes "keys_ok (cf_keys C)" "storage_ok (ap_store S)" "new_ids C calls S" "\<forall>c\<in>set calls. call_tenant C c \<noteq> Some t"
  shows "same_for t S (after_calls C calls S)"
  using assms(2-4)
proof (induction calls arbitrary: S)
  case Nil
  then show ?case by (simp add: same_for_def)
next
  case (Cons c calls)
  then have "same_for t S (after_call C c S)" "storage_ok (ap_store (after_call C c S))" using after_call_same_for[OF assms(1)] by simp_all
  with Cons show ?case by (simp add: same_for_def)
qed

text \<open>C1. Tenants are isolated end to end: whatever requests arrive that do not carry a key of a tenant, valid or not,
  well-formed or not, and whatever their handlers, parsers and models do, every member of that tenant lists
  and fetches the same documents, retrieves from the same chunks, and finds the same conversations and the
  same jobs as before.\<close>

theorem tenants_are_isolated:
  assumes "keys_ok (cf_keys C)" "storage_ok (ap_store S)" "new_ids C calls S" "\<forall>c\<in>set calls. call_tenant C c \<noteq> Some (p_tenant_id p)"
  shows "let S' = after_calls C calls S; t = p_tenant_id p; g = caller_groups p in
    or_default [] (store_list_documents (ap_store S') t g b) = or_default [] (store_list_documents (ap_store S) t g b)
    \<and> or_default None (store_get_document (ap_store S') t d g) = or_default None (store_get_document (ap_store S) t d g)
    \<and> storage_readable (ap_store S') p = storage_readable (ap_store S) p
    \<and> history_view (ap_history S') t = history_view (ap_history S) t \<and> jobs_view (ap_jobs S') t = jobs_view (ap_jobs S) t"
proof -
  have "same_for (p_tenant_id p) S (after_calls C calls S)" using after_calls_same_for[OF assms] .
  then show ?thesis unfolding same_for_def Let_def by (metis store.list_view store.get_view store.readable_view)
qed

text \<open>Tenant b deletes a document by the name that tenant a's document has.\<close>

definition foreign_delete :: "world \<Rightarrow> call" where
  "foreign_delete W = (W\<lparr>w_sha256 := \<lambda>_. ''d''\<rparr>, ''DELETE'', ''/v1/documents/d1'', [(''X-API-Key'', ''secret'')], [])"

definition two_tenants :: "app_config \<Rightarrow> app_config" where
  "two_tenants C = C\<lparr>cf_keys := [(''d'', \<lparr>p_tenant_id = ''b'', p_user_id = ''v'', p_groups = {|''staff''|}\<rparr>)]\<rparr>"

lemma two_tenants_caller: "call_tenant (two_tenants C) (foreign_delete W) = Some ''b''"
proof -
  have "lower ''X-API-Key'' = ''x-api-key''" by code_simp
  then show ?thesis by (simp add: foreign_delete_def two_tenants_def header_def authenticate_def hash_key_def)
qed

theorem tenants_are_isolated_witness:
  "\<forall>C W S. call_tenant (two_tenants C) (foreign_delete W) = Some ''b''
     \<and> storage_readable (ap_store (after_calls (two_tenants C) [foreign_delete W] (sample_state S\<lparr>ap_jobs := Durable []\<rparr>)))
         (rq_caller (ask_request sample_q)) = [upload_chunk ''a'' ''d1'']"
proof (intro allI conjI)
  fix C :: app_config and W :: world and S
  let ?C = "two_tenants C" and ?S = "sample_state S\<lparr>ap_jobs := Durable []\<rparr>" and ?p = "rq_caller (ask_request sample_q)"
  show t: "call_tenant ?C (foreign_delete W) = Some ''b''" by (rule two_tenants_caller)
  have "keys_ok (cf_keys ?C)" by (simp add: keys_ok_def two_tenants_def py_str is_space_def)
  moreover have "storage_ok (ap_store ?S)" using sample_storage_ok[of S] by (simp add: sample_state_def)
  moreover have "new_ids ?C [foreign_delete W] ?S" by (simp add: fresh_job_def row_ids_def)
  moreover have "\<forall>c\<in>set [foreign_delete W]. call_tenant ?C c \<noteq> Some (p_tenant_id ?p)" using t by (simp add: ask_request_def)
  ultimately have "storage_readable (ap_store (after_calls ?C [foreign_delete W] ?S)) ?p = storage_readable (ap_store ?S) ?p"
    using tenants_are_isolated[of ?C ?S "[foreign_delete W]" ?p] unfolding Let_def by blast
  moreover have "storage_readable (ap_store ?S) ?p = [upload_chunk ''a'' ''d1'']"
    using sample_readable by (simp add: sample_state_def ask_request_def)
  ultimately show "storage_readable (ap_store (after_calls ?C [foreign_delete W] ?S)) ?p = [upload_chunk ''a'' ''d1'']" by simp
qed

section \<open>The rate limit of the API\<close>

fun call_outcome :: "app_config \<Rightarrow> call \<Rightarrow> app_state \<Rightarrow> reply res" where
  "call_outcome C (W, m, path, hs, body) S = fst (handle C W m path hs body S)"

fun turned_away :: "reply res \<Rightarrow> bool" where
  "turned_away (Inl (ApiError status msg _)) = (status = 429 \<and> msg = ''rate limit exceeded'')"
| "turned_away _ = False"

text \<open>The caller whose bucket a request draws on, if any.\<close>

fun limited :: "app_config \<Rightarrow> call \<Rightarrow> principal option" where
  "limited C (W, m, path, hs, body) = (case (find_endpoint W m path, authenticate_request C W hs) of
     (Inr (e, params, True, qs), Inr p) \<Rightarrow> Some p | _ \<Rightarrow> None)"

fun asks :: "app_config \<Rightarrow> call list \<Rightarrow> (real \<times> string) list" where
  "asks C [] = []"
| "asks C (c # cs) = (case limited C c of Some p \<Rightarrow> [(w_monotonic (fst c), limiter_key p)] | None \<Rightarrow> []) @ asks C cs"

fun served :: "app_config \<Rightarrow> string \<Rightarrow> call list \<Rightarrow> app_state \<Rightarrow> nat" where
  "served C key [] S = 0"
| "served C key (c # cs) S =
     (if map_option limiter_key (limited C c) = Some key \<and> \<not> turned_away (call_outcome C c S) then 1 else 0)
     + served C key cs (after_call C c S)"

lemma after_call_limiter:
  "ap_limiter (after_call C c S) = (case limited C c of
     Some p \<Rightarrow> snd (acquire (w_monotonic (fst c)) (limiter_key p) (ap_limiter S)) | None \<Rightarrow> ap_limiter S)"
proof -
  obtain W m path hs body where c: "c = (W, m, path, hs, body)" by (cases c)
  have "ap_limiter (snd (handle C W m path hs body S)) = fst (boundary (snd (route_request C W m path hs body S)))"
    by (simp add: handle_def boundary_def split: prod.split)
  then show ?thesis unfolding boundary_route by (auto simp: c boundary_def split: sum.split prod.split bool.split)
qed

lemma refused_is_turned_away:
  assumes "limited C c = Some p" "fst (acquire (w_monotonic (fst c)) (limiter_key p) (ap_limiter S)) > 0"
  shows "call_outcome C c S = Inl (too_many_requests (fst (acquire (w_monotonic (fst c)) (limiter_key p) (ap_limiter S))))"
proof -
  obtain W m path hs body where c: "c = (W, m, path, hs, body)" by (cases c)
  obtain e params qs where e: "find_endpoint W m path = Inr (e, params, True, qs)" "authenticate_request C W hs = Inr p"
    using assms(1) by (auto simp: c split: sum.splits prod.splits bool.splits)
  obtain w L where a: "acquire (w_monotonic W) (limiter_key p) (ap_limiter S) = (w, L)" by (metis surj_pair)
  then have "w > 0" using assms(2) by (simp add: c)
  with a e show ?thesis
    by (simp add: c handle_def route_request_def serve_authenticated bind_act_def lift_res_def acquire_slot_def too_many_requests_def)
qed

lemma acquire_wait: "rate L > 0 \<Longrightarrow> fst (acquire now k L) \<noteq> 0 \<Longrightarrow> fst (acquire now k L) > 0"
  by (auto simp: acquire_eq split: if_splits)

lemma served_grants:
  assumes "rate (ap_limiter S) > 0"
  shows "served C key calls S \<le> grants key (asks C calls) (ap_limiter S)"
  using assms
proof (induction calls arbitrary: S)
  case (Cons c calls)
  show ?case
  proof (cases "limited C c")
    case None
    then show ?thesis using Cons.IH[of "after_call C c S"] Cons.prems by (simp add: after_call_limiter)
  next
    case (Some p)
    obtain w L where a: "acquire (w_monotonic (fst c)) (limiter_key p) (ap_limiter S) = (w, L)" by (metis surj_pair)
    have L: "ap_limiter (after_call C c S) = L" "rate L > 0" using Some a acquire_keeps[OF a] Cons.prems by (simp_all add: after_call_limiter)
    have "turned_away (call_outcome C c S)" if "w \<noteq> 0"
      using refused_is_turned_away[OF Some, of S] acquire_wait[OF Cons.prems, of "w_monotonic (fst c)" "limiter_key p"] a that
      by (simp add: too_many_requests_def)
    moreover have "served C key calls (after_call C c S) \<le> grants key (asks C calls) L" using Cons.IH[of "after_call C c S"] L by simp
    ultimately show ?thesis using Some a by auto
  qed
qed simp

lemma asks_times:
  "sorted_wrt (\<le>) (map (w_monotonic \<circ> fst) calls) \<Longrightarrow> sorted_wrt (\<le>) (map fst (asks C calls))"
  "r \<in> set (asks C calls) \<Longrightarrow> \<exists>c\<in>set calls. fst r = w_monotonic (fst c)"
proof -
  show mem: "r \<in> set (asks C calls) \<Longrightarrow> \<exists>c\<in>set calls. fst r = w_monotonic (fst c)" for r calls
    by (induction calls) (auto split: option.splits)
  show "sorted_wrt (\<le>) (map (w_monotonic \<circ> fst) calls) \<Longrightarrow> sorted_wrt (\<le>) (map fst (asks C calls))"
    by (induction calls) (fastforce dest: mem split: option.split)+
qed

text \<open>C28. The rate limit holds for the API as a whole: in any run of requests, by any callers and to any routes, the
  requests that share a caller's bucket and are not turned away number at most the burst capacity plus the
  sustained rate times the length of the window. Handlers, parsers and failures do not give tokens back.\<close>

theorem api_rate_is_bounded:
  assumes "limiter_ok t0 (ap_limiter S)" "sorted_wrt (\<le>) (map (w_monotonic \<circ> fst) calls)"
    "\<forall>c\<in>set calls. t0 \<le> w_monotonic (fst c) \<and> w_monotonic (fst c) \<le> t1" "t0 \<le> t1"
  shows "real (served C key calls S) \<le> capacity (ap_limiter S) + rate (ap_limiter S) * (t1 - t0)"
proof -
  have "rate (ap_limiter S) > 0" using assms(1) by (simp add: limiter_ok_def)
  from served_grants[OF this] have "real (served C key calls S) \<le> real (grants key (asks C calls) (ap_limiter S))" by simp
  also have "\<dots> \<le> available (ap_limiter S) key t0 + rate (ap_limiter S) * (t1 - t0)"
    using assms(3) asks_times(2) by (intro grants_available[OF assms(1) asks_times(1)[OF assms(2)] _ assms(4)]) fastforce
  also have "\<dots> \<le> capacity (ap_limiter S) + rate (ap_limiter S) * (t1 - t0)" using available_bounds(2)[OF assms(1)] by simp
  finally show ?thesis .
qed

theorem api_rate_is_bounded_witness:
  "\<forall>C W S. served C ''b/v'' (replicate 3 (foreign_delete (W\<lparr>w_monotonic := 0\<rparr>))) (S\<lparr>ap_limiter := mk_rate_limiter 60 (Some 1)\<rparr>) \<le> 1"
proof (intro allI)
  fix C :: app_config and W :: world and S :: app_state
  let ?S = "S\<lparr>ap_limiter := mk_rate_limiter 60 (Some 1)\<rparr>" and ?cs = "replicate 3 (foreign_delete (W\<lparr>w_monotonic := 0\<rparr>))"
  have "limiter_ok 0 (ap_limiter ?S)" by (simp add: limiter_ok_def mk_rate_limiter_def)
  from api_rate_is_bounded[OF this, of ?cs 0 C "''b/v''"] show "served C ''b/v'' ?cs ?S \<le> 1"
    by (simp add: mk_rate_limiter_def foreign_delete_def eval_nat_numeral)
qed

section \<open>Two flaws of the limit\<close>

text \<open>The wait a refused caller is told is rounded to the nearest second and may be too short: with 20 requests a
  minute and a burst of one, a caller refused 1.6 seconds after a request has to wait 1.4 seconds, is told
  \<open>retry-after: 1\<close>, and is refused again when it obeys.\<close>

theorem retry_after_header_is_early:
  "let L1 = snd (acquire 0 k (mk_rate_limiter 20 (Some 1))); (wait, L2) = acquire (8/5) k L1 in
     wait > 0 \<and> too_many_requests wait = ApiError 429 ''rate limit exceeded'' [(''retry-after'', ''1'')]
     \<and> fst (acquire (8/5 + 1) k L2) > 0"
proof -
  have "round_half_even (7/5) = 1" by (simp add: round_half_even_def Let_def)
  moreover have "show_int 1 = ''1''" by code_simp
  ultimately show ?thesis by (simp add: acquire_def mk_rate_limiter_def too_many_requests_def Let_def)
qed

text \<open>Bucket names join tenant and user with a slash, which both may contain: callers of different tenants can
  share a bucket.\<close>

lemma limiter_buckets_collide:
  "limiter_key \<lparr>p_tenant_id = ''a/b'', p_user_id = ''c'', p_groups = {||}\<rparr> = limiter_key \<lparr>p_tenant_id = ''a'', p_user_id = ''b/c'', p_groups = {||}\<rparr>"
  by (simp add: limiter_key_def)

end
