(* ===== verification/Background.thy ===== *)
theory Background
  imports Api_Documents
begin

text \<open>
  The queue and the application together: a background worker whose handler is the application's own
  \<open>_ingest_document\<close>, for either queue. An upload submitted as a job leaves the store as the same upload made directly would.
\<close>

section \<open>A round of the worker\<close>

text \<open>
  \<open>PostgresJobQueue.run_once\<close> and one item of \<open>IngestionWorker._run\<close>, with \<open>_ingest_document\<close> as the handler. The result tells
  whether there was a job.
\<close>

definition durable_round :: "app_config \<Rightarrow> world \<Rightarrow> string list \<Rightarrow> real \<Rightarrow> real \<Rightarrow> pg_job list \<Rightarrow> bool act" where
  "durable_round C W locked claimed_at finished_at rows = (\<lambda>S. case claim_ingestion_job locked claimed_at rows of
     (None, _) \<Rightarrow> (Inr False, S)
   | (Some c, rows1) \<Rightarrow>
       (case ingest_document C W (cl_payload c) (S\<lparr>ap_jobs := Durable rows1\<rparr>) of (r, S1) \<Rightarrow>
        case finish_claim rows1 finished_at c r of
          Inl e \<Rightarrow> (Inl e, S1)
        | Inr rows2 \<Rightarrow> (Inr True, S1\<lparr>ap_jobs := Durable rows2\<rparr>)))"

definition in_process_round :: "app_config \<Rightarrow> world \<Rightarrow> real \<Rightarrow> real \<Rightarrow> worker \<Rightarrow> bool act" where
  "in_process_round C W started_at finished_at V = (\<lambda>S. case iw_queue V of
     Some (i, payload) # _ \<Rightarrow>
       let V1 = thread_step started_at (Inr []) (thread_step started_at (Inr []) V) in
       if iw_thread V1 \<noteq> Handling i then (Inr False, S\<lparr>ap_jobs := InProcess V1\<rparr>)
       else (case ingest_document C W payload (S\<lparr>ap_jobs := InProcess V1\<rparr>) of (r, S1) \<Rightarrow>
             (Inr True, S1\<lparr>ap_jobs := InProcess (thread_step finished_at r V1)\<rparr>))
   | _ \<Rightarrow> (Inr False, S\<lparr>ap_jobs := InProcess (thread_step started_at (Inr []) V)\<rparr>))"

definition worker_round :: "app_config \<Rightarrow> world \<Rightarrow> real \<Rightarrow> real \<Rightarrow> bool act" where
  "worker_round C W started_at finished_at = (\<lambda>S. case ap_jobs S of
     Durable rows \<Rightarrow> durable_round C W [] started_at finished_at rows S
   | InProcess V \<Rightarrow> in_process_round C W started_at finished_at V S)"

text \<open>A pass of \<open>PostgresJobQueue._run\<close>: how long it waits afterwards.\<close>

definition poll :: "real \<Rightarrow> app_config \<Rightarrow> world \<Rightarrow> real \<Rightarrow> real \<Rightarrow> app_state \<Rightarrow> real \<times> app_state" where
  "poll poll_interval C W started_at finished_at S = (case worker_round C W started_at finished_at S of
     (Inl e, S') \<Rightarrow> (poll_interval, S')
   | (Inr busy, S') \<Rightarrow> (if busy then 0 else poll_interval, S'))"

section \<open>Ingesting does not look at the queue\<close>

definition ignores_jobs :: "'a act \<Rightarrow> bool" where
  "ignores_jobs m \<longleftrightarrow> (\<forall>S q. m (S\<lparr>ap_jobs := q\<rparr>) = (fst (m S), (snd (m S))\<lparr>ap_jobs := q\<rparr>))"

lemma ignores_jobsD: "ignores_jobs m \<Longrightarrow> m (S\<lparr>ap_jobs := q\<rparr>) = (fst (m S), (snd (m S))\<lparr>ap_jobs := q\<rparr>)"
  by (simp add: ignores_jobs_def)

lemma ignores_jobs_basic: "ignores_jobs (ret x)" "ignores_jobs (raise e)" "ignores_jobs (lift_res r)"
  by (simp_all add: ignores_jobs_def ret_def raise_def lift_res_def)

lemma ignores_jobs_bind:
  assumes "ignores_jobs m" "\<And>x. ignores_jobs (f x)"
  shows "ignores_jobs (bind_act m f)"
  unfolding ignores_jobs_def
proof (intro allI)
  fix S :: app_state and q
  show "bind_act m f (S\<lparr>ap_jobs := q\<rparr>) = (fst (bind_act m f S), (snd (bind_act m f S))\<lparr>ap_jobs := q\<rparr>)"
    by (cases "m S"; cases "fst (m S)") (simp_all add: bind_act_def ignores_jobsD[OF assms(1)] ignores_jobsD[OF assms(2)])
qed

lemma ignores_jobs_reading: "(\<And>S q. f (S\<lparr>ap_jobs := q\<rparr>) = f S) \<Longrightarrow> ignores_jobs (reading f)"
  by (simp add: ignores_jobs_def reading_def)

lemma ignores_jobs_upd_store: "ignores_jobs (upd_store f)"
  by (simp add: ignores_jobs_def upd_store_def split: prod.split)

lemma ignores_jobs_persist: "ignores_jobs (persist_embedded W r allowed g ct src)"
proof -
  have "upd_store f (S\<lparr>ap_jobs := q, ap_embedder := E\<rparr>) = (fst (upd_store f (S\<lparr>ap_embedder := E\<rparr>)), (snd (upd_store f (S\<lparr>ap_embedder := E\<rparr>)))\<lparr>ap_jobs := q\<rparr>)"
    for f :: "storage \<Rightarrow> persist_result res \<times> storage" and S :: app_state and q E by (simp add: upd_store_def split: prod.split)
  then show ?thesis
    by (auto simp: ignores_jobs_def persist_embedded_def split: storage.split sum.split prod.split)
qed

lemmas ignores_jobs_intros = ignores_jobs_basic ignores_jobs_bind ignores_jobs_reading ignores_jobs_upd_store ignores_jobs_persist

lemma ignores_jobs_unchanged: "ignores_jobs (unchanged W job m)"
  unfolding unchanged_def by (intro ignores_jobs_intros) (auto intro!: ignores_jobs_intros)

lemma ignores_jobs_ingest_new: "ignores_jobs (ingest_new C W job data src)"
  unfolding ingest_new_def by (intro ignores_jobs_intros) (auto intro!: ignores_jobs_intros)

lemma ignores_jobs_ingest: "ignores_jobs (ingest_document C W job)"
  unfolding ingest_document_def
  by (intro ignores_jobs_intros) (auto intro!: ignores_jobs_intros ignores_jobs_unchanged ignores_jobs_ingest_new split: option.split)

section \<open>A job on an idle queue\<close>

text \<open>No other job is due.\<close>

definition queue_idle :: "real \<Rightarrow> jobs \<Rightarrow> bool" where
  "queue_idle now q = (case q of
     Durable rows \<Rightarrow> list_all (\<lambda>r. \<not> claimable now r) rows
   | InProcess V \<Rightarrow> iw_thread V = Waiting \<and> iw_queue V = [])"

text \<open>What a job says about the outcome \<open>r\<close> of its handler.\<close>

definition reports :: "jobj res \<Rightarrow> ingestion_job \<Rightarrow> bool" where
  "reports r J = (case r of
     Inr result \<Rightarrow> ij_status J = Completed \<and> ij_result J = Some result \<and> ij_error J = None
   | Inl e \<Rightarrow> ij_result J = None \<and> (if is_value_error e then ij_status J = Failed \<and> ij_error J = Some (exn_str e)
       else ij_error J = Some ''retrying after an internal error'' \<or> ij_error J = Some ''internal error during ingestion''))"

definition finished_row :: "real \<Rightarrow> claim \<Rightarrow> jobj res \<Rightarrow> pg_job \<Rightarrow> pg_job" where
  "finished_row now c r = (case r of
     Inr result \<Rightarrow> finish_row now Completed None (Some result) 0
   | Inl e \<Rightarrow> if is_value_error e then finish_row now Failed (Some (exn_str e)) None 0
       else if cl_attempts c < cl_max_attempts c then finish_row now Queued (Some ''retrying after an internal error'') None (2 ^ cl_attempts c)
       else finish_row now Failed (Some ''internal error during ingestion'') None 0)"

lemma finish_claim_eq:
  "finish_claim rows now c r = bind_res (set_tenant (cl_tenant_id c)) (\<lambda>_.
     Inr (update_row (\<lambda>x. own_row (cl_tenant_id c) (ij_tenant_id (pj_job x)) \<and> ij_id (pj_job x) = cl_job_id c) (finished_row now c r) rows))"
  by (simp add: finish_claim_def finished_row_def finish_job_def split: sum.split)

lemma finished_row_reports: "reports r (pj_job (finished_row now c r x))"
  by (simp add: reports_def finished_row_def finish_row_def split: sum.split)

lemma finished_row_key: "ij_id (pj_job (finished_row now c r x)) = ij_id (pj_job x)" "ij_tenant_id (pj_job (finished_row now c r x)) = ij_tenant_id (pj_job x)"
  by (simp_all add: finished_row_def finish_row_def split: sum.split)

lemma update_row_none: "list_all (\<lambda>r. \<not> P r) rows \<Longrightarrow> update_row P f rows = rows"
  by (induction rows) (simp_all add: update_row_def)

lemma update_row_append: "update_row P f (rows @ rows') = update_row P f rows @ update_row P f rows'"
  by (simp add: update_row_def)

lemma durable_job:
  assumes "pg_submit rows now i tenant job = Inr (J0, rows1)" "list_all (\<lambda>r. \<not> claimable t1 r) rows" "now \<le> t1"
    and "ingest_document C W job S = (r, T)" "is_uuid i" "uuid_in i = Some i"
  shows "\<exists>rows2 J. durable_round C W [] t1 t2 rows1 (S\<lparr>ap_jobs := Durable rows1\<rparr>) = (Inr True, T\<lparr>ap_jobs := Durable rows2\<rparr>)
    \<and> pg_get_job uuid_in rows2 tenant i = Inr (Some J) \<and> reports r J"
proof -
  define x where "x = \<lparr>pj_job = new_job now i tenant, pj_payload = job, pj_attempts = 0, pj_max_attempts = 3, pj_run_after = now, pj_locked_at = None\<rparr>"
  have sub: "set_tenant tenant = Inr tenant" "list_all (\<lambda>r. ij_id (pj_job r) \<noteq> i) rows" "rows1 = rows @ [x]"
    using assms(1) by (auto simp: pg_submit_def x_def list_all_iff list_ex_iff split: if_splits)
  have tenant: "strip tenant = tenant" "tenant \<noteq> []" using sub(1) by (auto simp: set_tenant_def split: if_splits)
  define y where "y = mark_running t1 x"
  have x: "claimable t1 x" "ij_id (pj_job x) = i" "ij_id (pj_job y) = i" "ij_tenant_id (pj_job y) = tenant" "pj_payload y = job"
    using assms(3) by (simp_all add: claimable_def x_def y_def new_job_def mark_running_def)
  have "filter (\<lambda>r. claimable t1 r \<and> ij_id (pj_job r) \<notin> set []) rows1 = [x]"
    using assms(2) x(1) by (simp add: sub(3) filter_empty_conv list_all_iff)
  then have claim: "claim_ingestion_job [] t1 rows1 = (Some (claim_of y), rows @ [y])"
    using update_row_none[of "\<lambda>r. ij_id (pj_job r) = i" rows] sub(2,3) x(2)
    by (simp add: claim_ingestion_job_def update_row_append y_def) (simp add: update_row_def)
  let ?z = "finished_row t2 (claim_of y) r y"
  have "list_all (\<lambda>q. \<not> (own_row tenant (ij_tenant_id (pj_job q)) \<and> ij_id (pj_job q) = i)) rows" using sub(2) by (simp add: list_all_iff)
  then have fin: "finish_claim (rows @ [y]) t2 (claim_of y) r = Inr (rows @ [?z])"
    using update_row_none x tenant sub(1) by (simp add: finish_claim_eq update_row_append claim_of_def) (simp add: update_row_def own_row_def)
  have ing: "ingest_document C W job (S\<lparr>ap_jobs := q\<rparr>) = (r, T\<lparr>ap_jobs := q\<rparr>)" for q
    using ignores_jobsD[OF ignores_jobs_ingest, of C W job q S] assms(4) by simp
  have "durable_round C W [] t1 t2 rows1 (S\<lparr>ap_jobs := Durable rows1\<rparr>) = (Inr True, T\<lparr>ap_jobs := Durable (rows @ [?z])\<rparr>)"
    using fin ing x(5) by (simp add: durable_round_def claim) (simp add: claim_of_def)
  moreover have "List.find (\<lambda>q. own_row tenant (ij_tenant_id (pj_job q)) \<and> ij_id (pj_job q) = i) rows = None"
    using sub(2) by (auto simp: find_None_iff list_all_iff)
  then have "pg_get_job uuid_in (rows @ [?z]) tenant i = Inr (Some (pj_job ?z))"
    using assms(5,6) sub(1) x tenant by (simp add: pg_get_job_def find_append finished_row_key own_row_def)
  ultimately show ?thesis using finished_row_reports by blast
qed

lemma in_process_job:
  assumes "submit_job V now i tenant job = (J0, V1)" "iw_thread V = Waiting" "iw_queue V = []" "ingest_document C W job S = (r, T)"
  shows "\<exists>V2 J. in_process_round C W t1 t2 (put_item (i, job) V1) (S\<lparr>ap_jobs := InProcess (put_item (i, job) V1)\<rparr>) = (Inr True, T\<lparr>ap_jobs := InProcess V2\<rparr>)
    \<and> get_job V2 tenant i = Some J \<and> reports r J"
proof -
  let ?V = "put_item (i, job) V1"
  have V: "iw_queue ?V = [Some (i, job)]" "iw_thread ?V = Waiting" "map_of (iw_jobs ?V) i = Some (new_job now i tenant)"
    using assms(1-3) by (auto simp: submit_job_def put_item_def update_conv')
  let ?running = "(new_job now i tenant)\<lparr>ij_updated_at := t1, ij_status := Running\<rparr>"
  define V2 where "V2 = thread_step t1 (Inr []) (thread_step t1 (Inr []) ?V)"
  have V2: "iw_thread V2 = Handling i" "map_of (iw_jobs V2) i = Some ?running"
    using V by (simp_all add: V2_def thread_step_def update_job_def update_conv')
  define J where "J = outcome r (?running\<lparr>ij_updated_at := t2\<rparr>)"
  have V3: "map_of (iw_jobs (thread_step t2 r V2)) i = Some J"
    using V2 by (simp add: thread_step_def update_job_def update_conv' J_def)
  have "ij_tenant_id J = tenant" "reports r J" by (simp_all add: J_def outcome_def reports_def new_job_def split: sum.split)
  moreover have "ingest_document C W job (S\<lparr>ap_jobs := q\<rparr>) = (r, T\<lparr>ap_jobs := q\<rparr>)" for q
    using ignores_jobsD[OF ignores_jobs_ingest, of C W job q S] assms(4) by simp
  ultimately show ?thesis using V(1) V2(1) V3
    by (intro exI[of _ "thread_step t2 r V2"] exI[of _ J]) (simp add: in_process_round_def V2_def[symmetric] get_job_def)
qed

lemma job_str_tenant: "document_job W rq = Inr job \<Longrightarrow> job_str job ''tenant_id'' = Inr (p_tenant_id (rq_caller rq))"
  by (drule document_job_tenant) (simp add: job_str_def)


definition job_world :: "world \<Rightarrow> world" where
  "job_world W = W\<lparr>w_uuid := (\<lambda>_. ''00000000-0000-4000-8000-000000000001''), w_uuid_in := Some, w_time := 5\<rparr>"

lemma sample_uuid: "is_uuid ''00000000-0000-4000-8000-000000000001''"
  by code_simp


section \<open>The type of a job\<close>

definition stripped :: "string \<Rightarrow> bool" where
  "stripped s \<longleftrightarrow> s \<noteq> [] \<and> strip s = s"

definition job_typed :: "world \<Rightarrow> principal \<Rightarrow> jobj \<Rightarrow> bool" where
  "job_typed W p job \<longleftrightarrow>
     job_str job ''tenant_id'' = Inr (p_tenant_id p)
     \<and> (\<exists>filename. job_str job ''filename'' = Inr filename \<and> stripped filename)
     \<and> (\<exists>encoded data. job_str job ''content_base64'' = Inr encoded \<and> b64_decode encoded = Inr data)
     \<and> (jget job ''content_type'' = JNull \<or> jstr (jget job ''content_type'') \<noteq> None)
     \<and> (\<exists>allowed. job_allowed job = Inr allowed \<and> (case allowed of None \<Rightarrow> True | Some gs \<Rightarrow> sorted gs \<and> distinct gs \<and> list_all stripped gs))
     \<and> job_groups job = caller_groups p
     \<and> (\<forall>source. job_source W job = Inr source \<longrightarrow> source_system_ok (src_system source) \<and> stripped (src_id source) \<and> length (src_id source) \<le> 512)"

lemma source_fields_Inr:
  assumes "source_fields W payload filename = Inr source"
  shows "\<exists>system i. source_system_ok system \<and> strip i \<noteq> [] \<and> length i \<le> 512
    \<and> (jget payload ''source_modified_at'' = JNull \<or> w_fromisoformat W (json_str (w_repr W) (jget payload ''source_modified_at'')) \<noteq> None)
    \<and> source = [(''source_system'', JStr system), (''source_id'', JStr (strip i)), (''source_version'', jget payload ''source_version''),
        (''source_modified_at'', jget payload ''source_modified_at'')]"
proof -
  obtain system where s: "jget_or payload ''source_system'' (JStr ''upload'') = JStr system" "source_system_ok system"
    using assms by (auto simp: source_fields_def split: if_splits json.splits)
  obtain i where i: "jget_or payload ''source_id'' (JStr filename) = JStr i" "strip i \<noteq> []" "length i \<le> 512"
    using assms by (auto simp: source_fields_def s split: if_splits json.splits)
  show ?thesis using assms by (intro exI[of _ system] exI[of _ i]) (auto simp: source_fields_def s i split: if_splits)
qed

lemma upload_content_Inr: "upload_content payload = Inr encoded \<Longrightarrow> \<exists>data. b64_decode encoded = Inr data"
  by (auto simp: upload_content_def b64_roundtrip split: json.splits sum.splits)

lemma document_job_Inr:
  assumes "document_job W rq = Inr job"
  shows "\<exists>filename encoded ct allowed source. strip filename \<noteq> [] \<and> upload_content (rq_body rq) = Inr encoded
    \<and> (ct = JNull \<or> jstr ct \<noteq> None) \<and> (allowed = JNull \<or> (\<exists>gs. normalize_groups (jget (rq_body rq) ''allowed_groups'') = Inr gs \<and> allowed = JList (map JStr gs)))
    \<and> source_fields W (rq_body rq) (strip filename) = Inr source
    \<and> job = [(''tenant_id'', JStr (p_tenant_id (rq_caller rq))), (''filename'', JStr (strip filename)), (''content_base64'', JStr encoded),
        (''content_type'', ct), (''allowed_groups'', allowed)] @ source @ [(''groups'', JList (map JStr (caller_groups (rq_caller rq))))]"
proof -
  obtain filename where f: "jget (rq_body rq) ''filename'' = JStr filename" "strip filename \<noteq> []"
    using assms by (auto simp: document_job_def split: json.splits if_splits)
  have ct: "jget (rq_body rq) ''content_type'' = JNull \<or> jstr (jget (rq_body rq) ''content_type'') \<noteq> None"
    using assms f by (cases "jget (rq_body rq) ''content_type''") (auto simp: document_job_def)
  show ?thesis using assms f ct
    by - (rule exI[of _ filename], auto simp: document_job_def dest!: tenant_of_Inr split: if_splits)
qed



end
