(* ===== verification/Db_Pool.thy ===== *)
theory Db_Pool
  imports Rag_Prelude
begin

text \<open>
  The connection pool of \<open>PostgresPersistence\<close> (\<open>persistence.py\<close>): \<open>_connect\<close> opens it at the first use, with a second check
  under a lock, and \<open>close\<close> gives it up. Request threads and the worker thread run \<open>_connect\<close> at the same time; every read
  or write of \<open>self._pool\<close> and every operation on the lock is one step. What a pool does is left to psycopg.
\<close>

section \<open>State and steps\<close>

definition mk_persistence :: "string \<Rightarrow> int \<Rightarrow> int \<Rightarrow> (string \<times> int \<times> int) res" where
  "mk_persistence dsn min_size max_size =
     (if strip dsn = [] then Inl (ValueError ''dsn is required'') else Inr (dsn, min_size, max_size))"

text \<open>Where a thread is in \<open>_connect\<close>: at the first check, waiting for the lock, at the second check, opening the pool, about
  to release the lock, about to borrow a connection, with a connection of pool \<open>p\<close>, failed to open the pool, or at an
  \<open>AttributeError\<close> because the pool was gone.\<close>

datatype connector = FirstCheck | AwaitLock | SecondCheck | Opening | Releasing | Borrowing | Connected nat | OpenFailed | NoPool

record pool_state =
  ps_pool :: "nat option"
  ps_lock :: "nat option"
  ps_opened :: nat
  ps_threads :: "connector list"

definition fresh_pool :: "nat \<Rightarrow> pool_state" where
  "fresh_pool n = \<lparr>ps_pool = None, ps_lock = None, ps_opened = 0, ps_threads = replicate n FirstCheck\<rparr>"

definition goto :: "nat \<Rightarrow> connector \<Rightarrow> pool_state \<Rightarrow> pool_state" where
  "goto i c S = S\<lparr>ps_threads := (ps_threads S)[i := c]\<rparr>"

text \<open>The next step of thread \<open>i\<close>, \<open>None\<close> when it has to wait or is at its end; \<open>ok\<close> tells whether opening the pool succeeds.\<close>

definition connect_step :: "bool \<Rightarrow> nat \<Rightarrow> pool_state \<Rightarrow> pool_state option" where
  "connect_step ok i S = (case ps_threads S ! i of
     FirstCheck \<Rightarrow> Some (goto i (if ps_pool S = None then AwaitLock else Borrowing) S)
   | AwaitLock \<Rightarrow> if ps_lock S = None then Some (goto i SecondCheck (S\<lparr>ps_lock := Some i\<rparr>)) else None
   | SecondCheck \<Rightarrow> Some (goto i (if ps_pool S = None then Opening else Releasing) S)
   | Opening \<Rightarrow>
       if ok then Some (goto i Releasing (S\<lparr>ps_pool := Some (ps_opened S), ps_opened := ps_opened S + 1\<rparr>))
       else Some (goto i OpenFailed (S\<lparr>ps_lock := None\<rparr>))
   | Releasing \<Rightarrow> Some (goto i Borrowing (S\<lparr>ps_lock := None\<rparr>))
   | Borrowing \<Rightarrow> Some (goto i (case ps_pool S of None \<Rightarrow> NoPool | Some p \<Rightarrow> Connected p) S)
   | Connected p \<Rightarrow> Some (goto i FirstCheck S)
   | OpenFailed \<Rightarrow> Some (goto i FirstCheck S)
   | NoPool \<Rightarrow> None)"

definition close_pool :: "pool_state \<Rightarrow> pool_state" where
  "close_pool S = S\<lparr>ps_pool := None\<rparr>"

inductive pool_step :: "pool_state \<Rightarrow> pool_state \<Rightarrow> bool" where
  connect: "i < length (ps_threads S) \<Longrightarrow> connect_step ok i S = Some S' \<Longrightarrow> pool_step S S'"

section \<open>One pool\<close>

definition in_section :: "connector \<Rightarrow> bool" where
  "in_section c \<longleftrightarrow> c \<in> {SecondCheck, Opening, Releasing}"

fun thread_ok :: "pool_state \<Rightarrow> connector \<Rightarrow> bool" where
  "thread_ok S Opening \<longleftrightarrow> ps_pool S = None"
| "thread_ok S Releasing \<longleftrightarrow> ps_pool S \<noteq> None"
| "thread_ok S Borrowing \<longleftrightarrow> ps_pool S \<noteq> None"
| "thread_ok S (Connected p) \<longleftrightarrow> ps_pool S = Some p"
| "thread_ok S NoPool \<longleftrightarrow> False"
| "thread_ok S _ \<longleftrightarrow> True"

definition pool_ok :: "pool_state \<Rightarrow> bool" where
  "pool_ok S \<longleftrightarrow> ps_opened S = (if ps_pool S = None then 0 else 1)
     \<and> (\<forall>i<length (ps_threads S). thread_ok S (ps_threads S ! i) \<and> (in_section (ps_threads S ! i) \<longleftrightarrow> ps_lock S = Some i))
     \<and> (\<forall>i. ps_lock S = Some i \<longrightarrow> i < length (ps_threads S))"

lemma goto_simps [simp]:
  "ps_pool (goto i c S) = ps_pool S" "ps_lock (goto i c S) = ps_lock S" "ps_opened (goto i c S) = ps_opened S"
  "ps_threads (goto i c S) = (ps_threads S)[i := c]"
  by (simp_all add: goto_def)

lemma thread_ok_cong: "ps_pool S' = ps_pool S \<Longrightarrow> thread_ok S' c = thread_ok S c"
  by (cases c) simp_all

text \<open>Of two threads, only one is between taking and releasing the lock.\<close>

lemma pool_ok_exclusive: "pool_ok S \<Longrightarrow> i < length (ps_threads S) \<Longrightarrow> j < length (ps_threads S) \<Longrightarrow>
    in_section (ps_threads S ! i) \<Longrightarrow> in_section (ps_threads S ! j) \<Longrightarrow> i = j"
  by (auto simp: pool_ok_def)

text \<open>A step of thread \<open>i\<close> that leaves the pool as it is.\<close>

lemma pool_ok_move:
  assumes "pool_ok S" "i < length (ps_threads S)" "ps_pool S' = ps_pool S" "ps_opened S' = ps_opened S" "ps_threads S' = (ps_threads S)[i := c]"
    and "thread_ok S c" "in_section c \<longleftrightarrow> ps_lock S' = Some i" "\<And>j. j \<noteq> i \<Longrightarrow> ps_lock S' = Some j \<longleftrightarrow> ps_lock S = Some j"
  shows "pool_ok S'"
  unfolding pool_ok_def
proof (intro conjI allI impI)
  show "ps_opened S' = (if ps_pool S' = None then 0 else 1)" using assms(1,3,4) by (simp add: pool_ok_def)
  fix j
  have "thread_ok S (ps_threads S ! j)" "in_section (ps_threads S ! j) \<longleftrightarrow> ps_lock S = Some j" if "j < length (ps_threads S)"
    using assms(1) that by (auto simp: pool_ok_def)
  then show "thread_ok S' (ps_threads S' ! j)" "in_section (ps_threads S' ! j) \<longleftrightarrow> ps_lock S' = Some j" if "j < length (ps_threads S')"
    using that assms(5-7) assms(8)[of j] thread_ok_cong[OF assms(3)] by (cases "j = i"; simp)+
  assume "ps_lock S' = Some j"
  then show "j < length (ps_threads S')" using assms(1,2,5) assms(8)[of j] by (cases "j = i") (auto simp: pool_ok_def)
qed

text \<open>The step that opens the pool.\<close>

lemma pool_ok_open:
  assumes "pool_ok S" "i < length (ps_threads S)" "ps_threads S ! i = Opening" "connect_step True i S = Some S'"
  shows "pool_ok S'"
proof -
  have others: "thread_ok S (ps_threads S ! j)" "in_section (ps_threads S ! j) \<longleftrightarrow> ps_lock S = Some j" if "j < length (ps_threads S)" for j
    using assms(1) that by (auto simp: pool_ok_def)
  have none: "ps_pool S = None" "ps_lock S = Some i" using others[OF assms(2)] assms(3) by (auto simp: in_section_def)
  have S': "S' = goto i Releasing (S\<lparr>ps_pool := Some 0, ps_opened := 1\<rparr>)"
    using assms(1,3,4) none by (simp add: connect_step_def pool_ok_def)
  have "thread_ok S' (ps_threads S ! j)" if "j < length (ps_threads S)" "j \<noteq> i" for j
    using others[OF that(1)] none that(2) by (cases "ps_threads S ! j") (auto simp: in_section_def S')
  then show ?thesis using others none assms(2) by (auto simp: pool_ok_def S' nth_list_update in_section_def)
qed

lemma pool_ok_step:
  assumes "pool_ok S" "pool_step S S'"
  shows "pool_ok S'"
  using assms(2)
proof cases
  case (connect i ok)
  have i: "thread_ok S (ps_threads S ! i)" "in_section (ps_threads S ! i) \<longleftrightarrow> ps_lock S = Some i"
    using assms(1) connect(1) by (auto simp: pool_ok_def)
  note move = pool_ok_move[OF assms(1) connect(1)]
  show ?thesis
  proof (cases "ps_threads S ! i")
    case FirstCheck
    with connect i show ?thesis by (intro move[of S' "if ps_pool S = None then AwaitLock else Borrowing"]) (auto simp: connect_step_def in_section_def)
  next
    case AwaitLock
    with connect i show ?thesis by (intro move[of S' SecondCheck]) (auto simp: connect_step_def in_section_def split: if_splits)
  next
    case SecondCheck
    with connect i show ?thesis by (intro move[of S' "if ps_pool S = None then Opening else Releasing"]) (auto simp: connect_step_def in_section_def)
  next
    case Opening
    with connect i pool_ok_open[OF assms(1) connect(1)] show ?thesis
      by (cases ok) (simp, intro move[of S' OpenFailed], auto simp: connect_step_def in_section_def)
  next
    case Releasing
    with connect i show ?thesis by (intro move[of S' Borrowing]) (auto simp: connect_step_def in_section_def)
  next
    case Borrowing
    with connect i show ?thesis by (intro move[of S' "Connected (the (ps_pool S))"]) (auto simp: connect_step_def in_section_def)
  next
    case (Connected p)
    with connect i show ?thesis by (intro move[of S' FirstCheck]) (auto simp: connect_step_def in_section_def)
  next
    case OpenFailed
    with connect i show ?thesis by (intro move[of S' FirstCheck]) (auto simp: connect_step_def in_section_def)
  qed (use i in simp)
qed

text \<open>C26. Opening the pool lazily is safe under every interleaving of any number of threads: at most one pool is ever
  opened, all threads that got a connection got it from that pool, none reads a missing pool, and some
  thread can always take a step: the lock never deadlocks.\<close>

theorem one_pool:
  assumes "pool_step\<^sup>*\<^sup>* (fresh_pool n) S" "0 < n"
  shows "ps_opened S \<le> 1 \<and> (\<forall>p. Connected p \<in> set (ps_threads S) \<longrightarrow> ps_pool S = Some p) \<and> NoPool \<notin> set (ps_threads S)
    \<and> (\<exists>S'. pool_step S S')"
proof -
  have "pool_ok Y" if "pool_step\<^sup>*\<^sup>* X Y" "pool_ok X" for X Y using that by (induction rule: rtranclp_induct) (auto intro: pool_ok_step)
  moreover have "pool_ok (fresh_pool n)" by (simp add: pool_ok_def fresh_pool_def in_section_def)
  ultimately have ok: "pool_ok S" using assms(1) by blast
  have len: "length (ps_threads S) = n" using assms(1)
    by (induction rule: rtranclp_induct) (auto simp: fresh_pool_def connect_step_def elim!: pool_step.cases split: connector.splits if_splits)
  let ?i = "case ps_lock S of None \<Rightarrow> 0 | Some i \<Rightarrow> i"
  have i: "?i < length (ps_threads S)" using ok len assms(2) by (auto simp: pool_ok_def split: option.split)
  then have "thread_ok S (ps_threads S ! ?i)" "in_section (ps_threads S ! ?i) \<longleftrightarrow> ps_lock S = Some ?i" using ok by (auto simp: pool_ok_def)
  then have "connect_step True ?i S \<noteq> None"
    by (cases "ps_threads S ! ?i") (auto simp: connect_step_def in_section_def split: option.splits)
  then have "\<exists>S'. pool_step S S'" using i by (blast intro: connect)
  with ok show ?thesis by (fastforce simp: pool_ok_def in_set_conv_nth split: if_splits)
qed

text \<open>Two threads start together; the second waits for the lock and finds the pool of the first.\<close>

definition schedule :: "nat list \<Rightarrow> pool_state \<Rightarrow> pool_state" where
  "schedule is S = fold (\<lambda>i S. case connect_step True i S of Some S' \<Rightarrow> S' | None \<Rightarrow> S) is S"

lemma schedule_steps: "list_all (\<lambda>i. i < length (ps_threads S)) is \<Longrightarrow> pool_step\<^sup>*\<^sup>* S (schedule is S)"
proof (induction "is" arbitrary: S)
  case (Cons i "is")
  show ?case
  proof (cases "connect_step True i S")
    case None
    with Cons show ?thesis by (simp add: schedule_def)
  next
    case (Some S')
    have "length (ps_threads S') = length (ps_threads S)" using Some by (auto simp: connect_step_def split: connector.splits if_splits)
    with Cons Some have "pool_step\<^sup>*\<^sup>* S' (schedule is S')" by simp
    moreover have "pool_step S S'" using Some Cons.prems by (auto intro: connect)
    ultimately show ?thesis using Some by (simp add: schedule_def)
  qed
qed (simp add: schedule_def)

theorem one_pool_witness:
  "ps_opened (schedule [0, 1, 0, 1, 0, 0, 0, 1, 1, 1, 0, 1] (fresh_pool 2)) \<le> 1
   \<and> ps_threads (schedule [0, 1, 0, 1, 0, 0, 0, 1, 1, 1, 0, 1] (fresh_pool 2)) = [Connected 0, Connected 0]"
proof -
  let ?S = "schedule [0, 1, 0, 1, 0, 0, 0, 1, 1, 1, 0, 1] (fresh_pool 2)"
  have "pool_step\<^sup>*\<^sup>* (fresh_pool 2) ?S" by (rule schedule_steps) (simp add: fresh_pool_def)
  from one_pool[OF this] have "ps_opened ?S \<le> 1" by simp
  moreover have "ps_threads ?S = [Connected 0, Connected 0]" by code_simp
  ultimately show ?thesis by simp
qed

section \<open>Closing\<close>

text \<open>\<open>close\<close> does not take the lock: a thread that has passed the first check finds no pool when it wants to borrow.\<close>

lemma close_while_borrowing:
  "i < length (ps_threads S) \<Longrightarrow> ps_threads S ! i = Borrowing \<Longrightarrow>
    \<exists>S'. connect_step ok i (close_pool S) = Some S' \<and> ps_threads S' ! i = NoPool"
  by (simp add: connect_step_def close_pool_def)

end
