(* ===== verification/Http.thy ===== *)
theory Http
  imports Api Db_Pool
begin

text \<open>
  The HTTP server of \<open>api.py\<close>: how \<open>RequestHandler\<close> turns requests into calls of \<open>handle\<close> and outcomes into
  responses, the CORS preflight, the metrics endpoint and the static files. The JSON printer, the socket and
  the file system are parameters; threads and signals are the subject of theory Server; sockets are not modelled.
\<close>

record http_config =
  ht_cors_origins :: "string list"
  ht_metrics_token :: "string option"

record response =
  rs_status :: int
  rs_headers :: headers
  rs_body :: bytes

text \<open>The settings of \<open>run\<close>.\<close>

definition http_settings :: "environ \<Rightarrow> http_config" where
  "http_settings env = \<lparr>ht_cors_origins = filter (\<lambda>s. s \<noteq> []) (map strip (split_on (CHR '','') (getenv env ''RAG_CORS_ORIGINS'' []))),
     ht_metrics_token = (if py_truthy (env ''RAG_METRICS_TOKEN'') then env ''RAG_METRICS_TOKEN'' else None)\<rparr>"

record run_config =
  rn_host :: string
  rn_port :: int
  rn_database :: "(string \<times> int \<times> int) option"
  rn_http :: http_config

definition run_settings :: "environ \<Rightarrow> run_config res" where
  "run_settings env =
     bind_res (py_int (getenv env ''PORT'' ''8000'')) (\<lambda>port.
     bind_res (if py_truthy (env ''DATABASE_URL'')
       then bind_res (py_int (getenv env ''RAG_DB_POOL_MAX'' ''10'')) (\<lambda>n.
         bind_res (mk_persistence (the (env ''DATABASE_URL'')) 1 n) (\<lambda>db. Inr (Some db)))
       else Inr None) (\<lambda>db.
     Inr \<lparr>rn_host = getenv env ''RAG_HOST'' ''127.0.0.1'', rn_port = port, rn_database = db, rn_http = http_settings env\<rparr>))"

text \<open>\<open>self.headers.get\<close> finds the first header of a name in any case, and so does \<open>dict(self.headers)\<close>.\<close>

definition header_get :: "headers \<Rightarrow> string \<Rightarrow> string option" where
  "header_get hs k = map_of (map (\<lambda>(key, v). (lower key, v)) hs) (lower k)"

definition header_dict :: "headers \<Rightarrow> headers" where
  "header_dict hs = map (\<lambda>(key, v). (key, case header_get hs key of Some x \<Rightarrow> x | None \<Rightarrow> v)) hs"

definition common_headers :: "http_config \<Rightarrow> headers \<Rightarrow> headers" where
  "common_headers H hs =
     [(''x-content-type-options'', ''nosniff''), (''cache-control'', ''no-store''), (''referrer-policy'', ''no-referrer'')] @
     (case header_get hs ''origin'' of
        Some origin \<Rightarrow> if origin \<noteq> [] \<and> origin \<in> set (ht_cors_origins H)
          then [(''access-control-allow-origin'', origin), (''vary'', ''origin''),
            (''access-control-expose-headers'', ''x-request-id, retry-after'')]
          else []
      | None \<Rightarrow> [])"

definition respond :: "(jobj \<Rightarrow> bytes) \<Rightarrow> http_config \<Rightarrow> headers \<Rightarrow> int \<Rightarrow> jobj \<Rightarrow> headers \<Rightarrow> response" where
  "respond dumps H hs status payload extra =
     (let encoded = dumps payload in
      \<lparr>rs_status = status,
       rs_headers = [(''content-type'', ''application/json''), (''content-length'', show_nat (length encoded))] @
         (case map_of payload ''request_id'' of Some (JStr i) \<Rightarrow> [(''x-request-id'', i)] | _ \<Rightarrow> []) @ extra @ common_headers H hs,
       rs_body = encoded\<rparr>)"

section \<open>Dispatch\<close>

definition internal_error :: "int \<times> jobj \<times> headers" where
  "internal_error = (500, [(''detail'', JStr ''internal server error'')], [])"

text \<open>The body announced by \<open>content-length\<close>; reading it may fail or fall short.\<close>

definition read_body :: "app_config \<Rightarrow> (int \<Rightarrow> bytes res) \<Rightarrow> headers \<Rightarrow> bytes res" where
  "read_body C rfile hs =
     (case py_int (case header_get hs ''content-length'' of Some v \<Rightarrow> v | None \<Rightarrow> ''0'') of
        Inl e \<Rightarrow> Inl (if is_value_error e then api_error 400 ''invalid content-length'' else e)
      | Inr len \<Rightarrow>
          if len < 0 then Inl (api_error 400 ''invalid content-length'')
          else if len > cf_max_body_bytes C then Inl (api_error 413 ''request body is too large'')
          else rfile len)"

text \<open>An error of \<open>read_body\<close> has no request identifier; one raised by \<open>handle\<close> has.\<close>

fun error_parts :: "string option \<Rightarrow> exn \<Rightarrow> int \<times> jobj \<times> headers" where
  "error_parts rid (ApiError status msg extra) =
     (status, (''detail'', JStr msg) # (if py_truthy rid then [(''request_id'', JStr (the rid))] else []), extra)"
| "error_parts rid e = internal_error"

definition dispatch :: "(jobj \<Rightarrow> bytes) \<Rightarrow> http_config \<Rightarrow> app_config \<Rightarrow> world \<Rightarrow> (int \<Rightarrow> bytes res) \<Rightarrow> string \<Rightarrow> string \<Rightarrow> headers \<Rightarrow>
    app_state \<Rightarrow> response \<times> app_state" where
  "dispatch dumps H C W rfile command path hs S =
     (case read_body C rfile hs of
        Inl e \<Rightarrow> (case error_parts None e of (status, payload, extra) \<Rightarrow> (respond dumps H hs status payload extra, S))
      | Inr body \<Rightarrow>
          (case handle C W command path (header_dict hs) body S of
             (Inr (status, payload), S') \<Rightarrow> (respond dumps H hs status payload [], S')
           | (Inl e, S') \<Rightarrow>
               (case error_parts (Some (request_id_of W (header_dict hs))) e of
                  (status, payload, extra) \<Rightarrow> (respond dumps H hs status payload extra, S'))))"

section \<open>Preflight, metrics and static files\<close>

definition do_OPTIONS :: "http_config \<Rightarrow> headers \<Rightarrow> response" where
  "do_OPTIONS H hs = \<lparr>rs_status = 204,
     rs_headers = (if (case header_get hs ''origin'' of Some origin \<Rightarrow> origin \<in> set (ht_cors_origins H) | None \<Rightarrow> False)
         then [(''access-control-allow-methods'', ''GET, POST, PATCH, DELETE, OPTIONS''),
           (''access-control-allow-headers'', ''content-type, x-api-key, x-request-id''), (''access-control-max-age'', ''600'')]
         else []) @ common_headers H hs @ [(''content-length'', ''0'')],
     rs_body = []\<rparr>"

text \<open>\<open>hmac.compare_digest\<close> of two strings: it takes ASCII strings only.\<close>

definition compare_digest :: "string \<Rightarrow> string \<Rightarrow> bool res" where
  "compare_digest a b =
     (if list_ex (\<lambda>c. ord c \<ge> (128 :: nat)) (a @ b)
      then Inl (OtherError ''TypeError: comparing strings with non-ASCII characters is not supported'') else Inr (a = b))"

definition metrics_endpoint :: "(jobj \<Rightarrow> bytes) \<Rightarrow> (real \<Rightarrow> string) \<Rightarrow> (real \<Rightarrow> string) \<Rightarrow> http_config \<Rightarrow> headers \<Rightarrow> app_state \<Rightarrow> response res" where
  "metrics_endpoint dumps fmt_g fmt_6f H hs S =
     bind_res (if py_truthy (ht_metrics_token H)
       then compare_digest (case header_get hs ''authorization'' of Some v \<Rightarrow> v | None \<Rightarrow> []) (''Bearer '' @ the (ht_metrics_token H))
       else Inr True) (\<lambda>permitted.
     if \<not> permitted then Inr (respond dumps H hs 401 [(''detail'', JStr ''metrics token required'')] [])
     else
       let encoded = utf8_encode (render fmt_g fmt_6f (ap_metrics S)) in
       Inr \<lparr>rs_status = 200,
         rs_headers = [(''content-type'', ''text/plain; version=0.0.4''), (''content-length'', show_nat (length encoded))] @ common_headers H hs,
         rs_body = encoded\<rparr>)"

definition STATIC_TYPES :: "(string \<times> string) list" where
  "STATIC_TYPES = [(''.html'', ''text/html; charset=utf-8''), (''.css'', ''text/css; charset=utf-8''),
     (''.js'', ''text/javascript; charset=utf-8''), (''.svg'', ''image/svg+xml'')]"

text \<open>
  The file system: \<open>fs_resolve\<close> gives the components of \<open>(WEB_ROOT / name).resolve()\<close>, which follows links and
  may raise; \<open>WEB_ROOT\<close> is resolved too.
\<close>

record file_system =
  fs_web_root :: "string list"
  fs_resolve :: "string \<Rightarrow> string list res"
  fs_is_file :: "string list \<Rightarrow> bool"
  fs_read :: "string list \<Rightarrow> bytes res"

definition removeprefix :: "string \<Rightarrow> string \<Rightarrow> string" where
  "removeprefix pre s = (if take (length pre) s = pre then drop (length pre) s else s)"

definition CONTENT_POLICY :: string where
  "CONTENT_POLICY = ''default-src '' @ [CHR 0x27] @ ''self'' @ [CHR 0x27] @ ''; img-src '' @ [CHR 0x27] @ ''self'' @ [CHR 0x27]
     @ '' data:; frame-ancestors '' @ [CHR 0x27] @ ''none'' @ [CHR 0x27] @ ''; base-uri '' @ [CHR 0x27] @ ''none'' @ [CHR 0x27]"

definition static_file :: "(jobj \<Rightarrow> bytes) \<Rightarrow> file_system \<Rightarrow> http_config \<Rightarrow> headers \<Rightarrow> string \<Rightarrow> response res" where
  "static_file dumps F H hs path =
     (let name = (if path = ''/'' then ''index.html'' else removeprefix ''/static/'' path) in
      bind_res (fs_resolve F name) (\<lambda>file.
      let content_type = (if file = [] then None else map_of STATIC_TYPES (path_suffix (last file))) in
      case content_type of
        None \<Rightarrow> Inr (respond dumps H hs 404 [(''detail'', JStr ''not found'')] [])
      | Some ct \<Rightarrow>
          if butlast file \<noteq> fs_web_root F \<or> \<not> fs_is_file F file
          then Inr (respond dumps H hs 404 [(''detail'', JStr ''not found'')] [])
          else
            bind_res (fs_read F file) (\<lambda>encoded.
            Inr \<lparr>rs_status = 200,
              rs_headers = [(''content-type'', ct), (''content-length'', show_nat (length encoded)),
                (''content-security-policy'', CONTENT_POLICY)] @ common_headers H hs,
              rs_body = encoded\<rparr>)))"

text \<open>An exception here is not answered: the server drops the connection.\<close>

definition do_GET :: "(jobj \<Rightarrow> bytes) \<Rightarrow> (real \<Rightarrow> string) \<Rightarrow> (real \<Rightarrow> string) \<Rightarrow> file_system \<Rightarrow> http_config \<Rightarrow> app_config \<Rightarrow> world \<Rightarrow>
    (int \<Rightarrow> bytes res) \<Rightarrow> string \<Rightarrow> headers \<Rightarrow> app_state \<Rightarrow> response res \<times> app_state" where
  "do_GET dumps fmt_g fmt_6f F H C W rfile raw hs S =
     (case urlsplit (w_bracket_ok W) raw of
        Inl e \<Rightarrow> (Inl e, S)
      | Inr url \<Rightarrow>
          let path = u_path url in
          if path = ''/metrics'' then (metrics_endpoint dumps fmt_g fmt_6f H hs S, S)
          else if path = ''/'' \<or> take 8 path = ''/static/'' then (static_file dumps F H hs path, S)
          else (case dispatch dumps H C W rfile ''GET'' raw hs S of (r, S') \<Rightarrow> (Inr r, S')))"

section \<open>What the server gives away\<close>

text \<open>Only the web directory is served: whatever path is asked for and wherever links lead, a response with status
  200 to a request for a static file holds the content of a regular file that lies directly in the web
  directory and has one of the known suffixes, under that suffix's content type; and asking changes nothing.\<close>

theorem static_files_stay_in_web_root:
  assumes "static_file dumps F H hs path = Inr r" "rs_status r = 200"
  shows "\<exists>found name. fs_resolve F name = Inr found \<and> butlast found = fs_web_root F \<and> fs_is_file F found \<and> fs_read F found = Inr (rs_body r)
    \<and> (\<exists>ct. map_of STATIC_TYPES (path_suffix (last found)) = Some ct \<and> map_of (rs_headers r) ''content-type'' = Some ct)"
proof -
  have n: "rs_status (respond dumps H hs 404 p x) \<noteq> 200" for p x by (simp add: respond_def Let_def)
  obtain found ct where f: "fs_resolve F (if path = ''/'' then ''index.html'' else removeprefix ''/static/'' path) = Inr found"
    "map_of STATIC_TYPES (path_suffix (last found)) = Some ct" "butlast found = fs_web_root F" "fs_is_file F found"
    "fs_read F found = Inr (rs_body r)" "map_of (rs_headers r) ''content-type'' = Some ct"
    using assms n by (auto simp: static_file_def Let_def split: option.splits if_splits)
  then show ?thesis by blast
qed

theorem static_files_stay_in_web_root_witness:
  "let F = \<lparr>fs_web_root = [''web''], fs_resolve = (\<lambda>name. Inr [''web'', name]), fs_is_file = (\<lambda>f. f = [''web'', ''index.html'']), fs_read = (\<lambda>_. Inr ''hi'')\<rparr>;
       H = \<lparr>ht_cors_origins = [], ht_metrics_token = None\<rparr> in
   \<exists>r found. static_file (\<lambda>_. []) F H [] ''/'' = Inr r \<and> rs_status r = 200 \<and> fs_read F found = Inr (rs_body r) \<and> butlast found = [''web'']"
proof -
  let ?F = "\<lparr>fs_web_root = [''web''], fs_resolve = (\<lambda>name. Inr [''web'', name]), fs_is_file = (\<lambda>f. f = [''web'', ''index.html'']), fs_read = (\<lambda>_. Inr ''hi'')\<rparr>"
  let ?H = "\<lparr>ht_cors_origins = [], ht_metrics_token = None\<rparr>"
  have "path_suffix ''index.html'' = ''.html''" by code_simp
  then obtain r where r: "static_file (\<lambda>_. []) ?F ?H [] ''/'' = Inr r" "rs_status r = 200"
    by (simp add: static_file_def STATIC_TYPES_def)
  obtain found where "butlast found = [''web'']" "fs_read ?F found = Inr (rs_body r)"
    using static_files_stay_in_web_root[OF r] by (elim exE conjE) (simp only: file_system.simps)
  with r show ?thesis by (auto simp: Let_def)
qed

text \<open>A body longer than the limit is refused before it is read, and the state is as before.\<close>

lemma oversized_body_is_not_read:
  assumes "header_get hs ''content-length'' = Some v" "py_int v = Inr len" "len > cf_max_body_bytes C" "cf_max_body_bytes C \<ge> 0"
  shows "dispatch dumps H C W rfile command path hs S = (respond dumps H hs 413 [(''detail'', JStr ''request body is too large'')] [], S)"
  using assms by (simp add: dispatch_def read_body_def api_error_def py_truthy_def)

text \<open>With a metrics token configured, an \<open>Authorization\<close> header with a character outside ASCII is not refused with
  401: the comparison raises, \<open>do_GET\<close> does not catch it and the client gets no response at all.\<close>

theorem metrics_token_comparison_raises:
  assumes "ht_metrics_token H = Some token" "token \<noteq> []" "header_get hs ''authorization'' = Some v" "c \<in> set v" "ord c \<ge> (128 :: nat)"
    and "urlsplit (w_bracket_ok W) raw = Inr url" "u_path url = ''/metrics''"
  shows "do_GET dumps fmt_g fmt_6f F H C W rfile raw hs S =
    (Inl (OtherError ''TypeError: comparing strings with non-ASCII characters is not supported''), S)"
proof -
  have "compare_digest v (''Bearer '' @ token) = Inl (OtherError ''TypeError: comparing strings with non-ASCII characters is not supported'')"
    using assms(4,5) by (auto simp: compare_digest_def list_ex_iff)
  with assms(1-3,6,7) show ?thesis by (simp add: do_GET_def metrics_endpoint_def py_truthy_def)
qed

theorem metrics_token_comparison_raises_witness:
  "\<forall>F C W rfile S. fst (do_GET (\<lambda>_. []) (\<lambda>_. []) (\<lambda>_. []) F \<lparr>ht_cors_origins = [], ht_metrics_token = Some ''t''\<rparr> C W rfile ''/metrics''
      [(''authorization'', [CHR 0xE9])] S) = Inl (OtherError ''TypeError: comparing strings with non-ASCII characters is not supported'')"
proof (intro allI)
  fix F C S and W :: world and rfile
  let ?H = "\<lparr>ht_cors_origins = [], ht_metrics_token = Some ''t''\<rparr>" and ?hs = "[(''authorization'', [CHR 0xE9])]"
  have "header_get ?hs ''authorization'' = Some [CHR 0xE9]" by (simp add: header_get_def)
  moreover have "ord (CHR 0xE9) \<ge> (128 :: nat)" by code_simp
  moreover have "urlsplit (w_bracket_ok W) ''/metrics'' = Inr \<lparr>u_scheme = [], u_netloc = [], u_path = ''/metrics'', u_query = []\<rparr>"
    by (simp add: urlsplit_def partition_at_def)
  ultimately show "fst (do_GET (\<lambda>_. []) (\<lambda>_. []) (\<lambda>_. []) F ?H C W rfile ''/metrics'' ?hs S) =
      Inl (OtherError ''TypeError: comparing strings with non-ASCII characters is not supported'')"
    using metrics_token_comparison_raises[of ?H "''t''" ?hs "[CHR 0xE9]" "CHR 0xE9"] by simp
qed

end
