(* ===== verification/Server.thy ===== *)
theory Server
  imports Rag_Prelude
begin

text \<open>
  The server process (\<open>run\<close>, \<open>GracefulHTTPServer\<close> and \<open>RagApiApplication.close\<close> in \<open>api.py\<close>, \<open>stop\<close> of both workers in
  \<open>workers.py\<close>): a step machine of the main thread, the threads that handle requests, the threads that a signal
  starts and the ingestion worker. What \<open>socketserver\<close> and \<open>threading\<close> do is modelled as far as the code uses them:
  \<open>serve_forever\<close> leaves its loop when \<open>shutdown\<close> has set a flag, \<open>server_close\<close> joins the request threads because of
  \<open>daemon_threads = False\<close> and \<open>block_on_close = True\<close>, \<open>join(timeout=5)\<close> may give up.
\<close>

section \<open>State\<close>

text \<open>Where the main thread is: before \<open>serve_forever\<close>, in its loop, in \<open>server_close\<close>, in \<open>application.close\<close>, at its end.\<close>

datatype main_thread = Starting | Serving | Closing_Socket | Joining_Requests | Stopping_Worker | Joining_Worker
  | Closing_Pool | Exited

datatype worker_state = Working | Asked | Stopped

record server_state =
  sv_main :: main_thread
  sv_shutdown_request :: bool
  sv_stoppers :: nat
  sv_signalled :: bool
  sv_listening :: bool
  sv_accepted :: "nat list"
  sv_finished :: "nat list"
  sv_worker :: worker_state
  sv_gave_up :: bool
  sv_pool_open :: bool

text \<open>The state in which \<open>run\<close> has installed the signal handlers.\<close>

definition booted :: server_state where
  "booted = \<lparr>sv_main = Starting, sv_shutdown_request = False, sv_stoppers = 0, sv_signalled = False, sv_listening = True,
     sv_accepted = [], sv_finished = [], sv_worker = Working, sv_gave_up = False, sv_pool_open = True\<rparr>"

definition in_flight :: "server_state \<Rightarrow> nat set" where
  "in_flight S = set (sv_accepted S) - set (sv_finished S)"

section \<open>Steps\<close>

datatype server_event =
    Signal
  | Shutdown_Thread
  | Accept nat
  | Finish nat
  | Main
  | Worker_Ends
  | Join_Times_Out

text \<open>\<open>stop\<close>: the handler runs on the main thread, so it leaves \<open>server.shutdown\<close> to a thread of its own.\<close>

definition stop_signal :: "server_state \<Rightarrow> server_state" where
  "stop_signal S = S\<lparr>sv_stoppers := sv_stoppers S + 1, sv_signalled := True\<rparr>"

text \<open>\<open>worker.stop\<close>: a sentinel in the queue or an event asks the thread to end after the job it is working on.\<close>

definition ask_worker :: "worker_state \<Rightarrow> worker_state" where
  "ask_worker w = (if w = Working then Asked else w)"

text \<open>\<open>application.close\<close>: the worker first, then the connections.\<close>

definition close_step :: "server_state \<Rightarrow> server_state option" where
  "close_step S = (case sv_main S of
     Stopping_Worker \<Rightarrow> Some (S\<lparr>sv_main := Joining_Worker, sv_worker := ask_worker (sv_worker S)\<rparr>)
   | Joining_Worker \<Rightarrow> if sv_worker S = Stopped then Some (S\<lparr>sv_main := Closing_Pool\<rparr>) else None
   | Closing_Pool \<Rightarrow> Some (S\<lparr>sv_main := Exited, sv_pool_open := False\<rparr>)
   | _ \<Rightarrow> None)"

text \<open>The next step of the main thread, \<open>None\<close> while it has to wait.\<close>

definition main_step :: "server_state \<Rightarrow> server_state option" where
  "main_step S = (case sv_main S of
     Starting \<Rightarrow> Some (S\<lparr>sv_main := Serving\<rparr>)
   | Serving \<Rightarrow> if sv_shutdown_request S then Some (S\<lparr>sv_main := Closing_Socket, sv_shutdown_request := False\<rparr>) else None
   | Closing_Socket \<Rightarrow> Some (S\<lparr>sv_main := Joining_Requests, sv_listening := False\<rparr>)
   | Joining_Requests \<Rightarrow> if in_flight S = {} then Some (S\<lparr>sv_main := Stopping_Worker\<rparr>) else None
   | _ \<Rightarrow> close_step S)"

text \<open>The step at each place.\<close>

lemma main_step_at:
  "sv_main S = Starting \<Longrightarrow> main_step S = Some (S\<lparr>sv_main := Serving\<rparr>)"
  "sv_main S = Serving \<Longrightarrow> main_step S = (if sv_shutdown_request S then Some (S\<lparr>sv_main := Closing_Socket, sv_shutdown_request := False\<rparr>) else None)"
  "sv_main S = Closing_Socket \<Longrightarrow> main_step S = Some (S\<lparr>sv_main := Joining_Requests, sv_listening := False\<rparr>)"
  "sv_main S = Joining_Requests \<Longrightarrow> main_step S = (if in_flight S = {} then Some (S\<lparr>sv_main := Stopping_Worker\<rparr>) else None)"
  "sv_main S = Stopping_Worker \<Longrightarrow> main_step S = Some (S\<lparr>sv_main := Joining_Worker, sv_worker := ask_worker (sv_worker S)\<rparr>)"
  "sv_main S = Joining_Worker \<Longrightarrow> main_step S = (if sv_worker S = Stopped then Some (S\<lparr>sv_main := Closing_Pool\<rparr>) else None)"
  "sv_main S = Closing_Pool \<Longrightarrow> main_step S = Some (S\<lparr>sv_main := Exited, sv_pool_open := False\<rparr>)"
  "sv_main S = Exited \<Longrightarrow> main_step S = None"
  by (simp_all add: main_step_def close_step_def)

fun server_step :: "server_state \<Rightarrow> server_event \<Rightarrow> server_state option" where
  "server_step S Signal = (if sv_main S = Exited then None else Some (stop_signal S))"
| "server_step S Shutdown_Thread = (if sv_stoppers S = 0 \<or> sv_main S = Exited then None
     else Some (S\<lparr>sv_stoppers := sv_stoppers S - 1, sv_shutdown_request := True\<rparr>))"
| "server_step S (Accept r) = (if sv_main S = Serving \<and> \<not> sv_shutdown_request S \<and> r \<notin> set (sv_accepted S)
     then Some (S\<lparr>sv_accepted := r # sv_accepted S\<rparr>) else None)"
| "server_step S (Finish r) = (if r \<in> in_flight S then Some (S\<lparr>sv_finished := r # sv_finished S\<rparr>) else None)"
| "server_step S Main = main_step S"
| "server_step S Worker_Ends = (if sv_worker S = Asked then Some (S\<lparr>sv_worker := Stopped\<rparr>) else None)"
| "server_step S Join_Times_Out = (if sv_main S = Joining_Worker \<and> sv_worker S \<noteq> Stopped
     then Some (S\<lparr>sv_main := Closing_Pool, sv_gave_up := True\<rparr>) else None)"

fun server_run :: "server_state \<Rightarrow> server_event list \<Rightarrow> server_state option" where
  "server_run S [] = Some S"
| "server_run S (e # es) = (case server_step S e of None \<Rightarrow> None | Some S' \<Rightarrow> server_run S' es)"

section \<open>The invariant\<close>

text \<open>The order in which the main thread passes its places.\<close>

fun place :: "main_thread \<Rightarrow> nat" where
  "place Starting = 0"
| "place Serving = 1"
| "place Closing_Socket = 2"
| "place Joining_Requests = 3"
| "place Stopping_Worker = 4"
| "place Joining_Worker = 5"
| "place Closing_Pool = 6"
| "place Exited = 7"

definition server_ok :: "server_state \<Rightarrow> bool" where
  "server_ok S = ((sv_listening S \<longleftrightarrow> place (sv_main S) \<le> 2)
     \<and> (place (sv_main S) > 3 \<longrightarrow> in_flight S = {})
     \<and> (sv_worker S \<noteq> Working \<longleftrightarrow> place (sv_main S) > 4)
     \<and> (place (sv_main S) > 5 \<longrightarrow> sv_worker S = Stopped \<or> sv_gave_up S)
     \<and> (sv_pool_open S \<longleftrightarrow> sv_main S \<noteq> Exited)
     \<and> set (sv_finished S) \<subseteq> set (sv_accepted S)
     \<and> (sv_signalled S \<and> sv_main S \<in> {Starting, Serving} \<longrightarrow> sv_shutdown_request S \<or> sv_stoppers S > 0)
     \<and> (\<not> sv_signalled S \<longrightarrow> sv_main S \<in> {Starting, Serving} \<and> sv_stoppers S = 0 \<and> \<not> sv_shutdown_request S))"

lemma booted_ok: "server_ok booted"
  by (simp add: server_ok_def booted_def  in_flight_def)

lemma server_ok_main_step:
  assumes "server_ok S" "main_step S = Some S'"
  shows "server_ok S'"
  using assms by (cases "sv_main S") (auto simp: server_ok_def main_step_at in_flight_def ask_worker_def split: if_splits)

lemma server_ok_accept:
  assumes "server_ok S" "sv_main S = Serving"
  shows "server_ok (S\<lparr>sv_accepted := r # sv_accepted S\<rparr>)"
  using assms by (simp add: server_ok_def) blast

lemma server_ok_finish:
  assumes "server_ok S" "r \<in> in_flight S"
  shows "server_ok (S\<lparr>sv_finished := r # sv_finished S\<rparr>)"
  using assms by (cases "sv_main S") (auto simp: server_ok_def in_flight_def)

lemma server_ok_signal: "server_ok S \<Longrightarrow> sv_main S \<noteq> Exited \<Longrightarrow> server_ok (stop_signal S)"
  by (cases "sv_main S") (simp_all add: server_ok_def in_flight_def stop_signal_def)

lemma server_ok_shutdown:
  "server_ok S \<Longrightarrow> sv_stoppers S \<noteq> 0 \<Longrightarrow> server_ok (S\<lparr>sv_stoppers := sv_stoppers S - 1, sv_shutdown_request := True\<rparr>)"
  by (cases "sv_main S") (simp_all add: server_ok_def in_flight_def)

lemma server_ok_worker:
  "server_ok S \<Longrightarrow> sv_worker S = Asked \<Longrightarrow> server_ok (S\<lparr>sv_worker := Stopped\<rparr>)"
  "server_ok S \<Longrightarrow> sv_main S = Joining_Worker \<Longrightarrow> server_ok (S\<lparr>sv_main := Closing_Pool, sv_gave_up := True\<rparr>)"
  by (cases "sv_main S"; simp add: server_ok_def in_flight_def)+

lemma server_ok_step:
  assumes "server_ok S" "server_step S e = Some S'"
  shows "server_ok S'"
  using assms(2) server_ok_main_step[OF assms(1)] server_ok_accept[OF assms(1)] server_ok_finish[OF assms(1)]
    server_ok_signal[OF assms(1)] server_ok_shutdown[OF assms(1)] server_ok_worker[OF assms(1)]
  by (cases e) (simp_all split: if_split_asm, blast+)

lemma server_ok_run: "server_ok S \<Longrightarrow> server_run S es = Some S' \<Longrightarrow> server_ok S'"
  by (induction es arbitrary: S) (auto split: option.splits dest: server_ok_step)

section \<open>Requests are drained before anything is released\<close>

text \<open>C13. A shutdown is graceful: in every run of the server, whatever signals arrive and however threads interleave, the
  worker is asked to stop only when the socket is closed and every accepted request is finished, and the database
  connections are released only when, besides, the worker has stopped or the five seconds for it are over. The process
  exits only after a signal.\<close>

theorem shutdown_is_graceful:
  assumes "server_run booted es = Some S"
  shows "(sv_worker S \<noteq> Working \<longrightarrow> \<not> sv_listening S \<and> set (sv_accepted S) \<subseteq> set (sv_finished S))
    \<and> (\<not> sv_pool_open S \<longrightarrow> \<not> sv_listening S \<and> set (sv_accepted S) \<subseteq> set (sv_finished S) \<and> (sv_worker S = Stopped \<or> sv_gave_up S))
    \<and> (sv_main S = Exited \<longrightarrow> sv_signalled S)"
  using server_ok_run[OF booted_ok assms] by (cases "sv_main S") (auto simp: server_ok_def in_flight_def)

definition sample_run :: "server_event list" where
  "sample_run = [Main, Accept 1, Signal, Shutdown_Thread, Main, Main, Finish 1, Main, Main, Worker_Ends, Main, Main]"

lemma sample_run_exits: "\<exists>S. server_run booted sample_run = Some S \<and> sv_main S = Exited \<and> \<not> sv_pool_open S \<and> sv_accepted S = [1]"
  by (simp add: sample_run_def booted_def main_step_at ask_worker_def stop_signal_def in_flight_def)

theorem shutdown_is_graceful_witness:
  "\<exists>S. server_run booted sample_run = Some S \<and> sv_main S = Exited \<and> sv_signalled S \<and> \<not> sv_listening S
    \<and> set [1] \<subseteq> set (sv_finished S)"
proof -
  obtain S where S: "server_run booted sample_run = Some S" "sv_main S = Exited" "\<not> sv_pool_open S" "sv_accepted S = [1]"
    using sample_run_exits by blast
  from shutdown_is_graceful[OF S(1)] S show ?thesis by auto
qed

section \<open>A shutdown ends\<close>

text \<open>From the moment a shutdown thread has set the flag, no request is accepted any more.\<close>

definition draining :: "server_state \<Rightarrow> bool" where
  "draining S = (place (sv_main S) > 1 \<or> sv_shutdown_request S)"

definition work_left :: "server_state \<Rightarrow> nat" where
  "work_left S = 3 * (7 - place (sv_main S)) + card (in_flight S) + sv_stoppers S + (if sv_worker S = Stopped then 0 else 1)"

lemma draining_step: "draining S \<Longrightarrow> server_step S e = Some S' \<Longrightarrow> draining S'"
  by (cases e; cases "sv_main S") (auto simp: draining_def main_step_at ask_worker_def stop_signal_def split: if_splits)

lemma work_decreases:
  assumes "draining S" "server_step S e = Some S'" "e \<noteq> Signal"
  shows "work_left S' < work_left S"
proof (cases e)
  case (Finish r)
  then have S': "S' = S\<lparr>sv_finished := r # sv_finished S\<rparr>" "r \<in> in_flight S" using assms(2) by (auto split: if_splits)
  have "in_flight S' = in_flight S - {r}" by (auto simp: in_flight_def S'(1))
  moreover have "finite (in_flight S)" by (simp add: in_flight_def)
  ultimately have "card (in_flight S') < card (in_flight S)" using card_Diff1_less[OF _ S'(2)] by simp
  then show ?thesis by (simp add: work_left_def S'(1))
next
  case Main
  then show ?thesis using assms(2)
    by (cases "sv_main S") (auto simp: work_left_def main_step_at ask_worker_def in_flight_def split: if_splits)
qed (use assms in \<open>auto simp: work_left_def draining_def in_flight_def split: if_splits\<close>)

lemma not_stuck:
  assumes "server_ok S" "draining S" "sv_main S \<noteq> Exited"
  shows "\<exists>e. e \<noteq> Signal \<and> server_step S e \<noteq> None"
proof (cases "server_step S Main")
  case None
  then consider "sv_main S = Joining_Requests" "in_flight S \<noteq> {}" | "sv_main S = Joining_Worker" "sv_worker S \<noteq> Stopped"
    using assms(2,3) by (cases "sv_main S") (auto simp: main_step_at draining_def split: if_splits)
  then show ?thesis
  proof cases
    case 1
    then obtain r where "r \<in> in_flight S" by blast
    then show ?thesis by (intro exI[of _ "Finish r"]) simp
  next
    case 2
    then show ?thesis by (intro exI[of _ Join_Times_Out]) simp
  qed
qed auto

lemma drain_run:
  assumes "server_run S rest = Some S'" "draining S" "Signal \<notin> set rest"
  shows "draining S' \<and> length rest + work_left S' \<le> work_left S"
  using assms
proof (induction rest arbitrary: S)
  case (Cons e rest)
  then obtain S1 where S1: "server_step S e = Some S1" "server_run S1 rest = Some S'" by (auto split: option.splits)
  have "work_left S1 < work_left S" using work_decreases[OF Cons.prems(2) S1(1)] Cons.prems(3) by auto
  moreover have "draining S' \<and> length rest + work_left S' \<le> work_left S1"
    using Cons.IH[OF S1(2) draining_step[OF Cons.prems(2) S1(1)]] Cons.prems(3) by auto
  ultimately show ?case by simp
qed simp

text \<open>C14. A shutdown ends: after a signal a shutdown thread can run, and once it has, no request is accepted any more,
  every way to go on without further signals takes at most as many steps as there is work left, and where no
  step is possible any more the process has exited. So no deadlock and no endless run is possible as long as
  requests finish, which the timeout of their sockets makes them do.\<close>

theorem shutdown_ends:
  assumes "server_run booted es = Some S" "sv_signalled S"
  shows "(draining S \<or> (\<exists>S1. server_step S Shutdown_Thread = Some S1 \<and> draining S1))
    \<and> (draining S \<and> server_run S rest = Some S' \<and> Signal \<notin> set rest \<longrightarrow>
        length rest \<le> work_left S \<and> (sv_main S' = Exited \<or> (\<exists>e. e \<noteq> Signal \<and> server_step S' e \<noteq> None)))"
proof -
  have ok: "server_ok S" using server_ok_run[OF booted_ok assms(1)] .
  have "draining S \<or> (\<exists>S1. server_step S Shutdown_Thread = Some S1 \<and> draining S1)"
    using ok assms(2) by (cases "sv_main S") (auto simp: server_ok_def draining_def)
  moreover have "length rest \<le> work_left S \<and> (sv_main S' = Exited \<or> (\<exists>e. e \<noteq> Signal \<and> server_step S' e \<noteq> None))"
    if r: "draining S" "server_run S rest = Some S'" "Signal \<notin> set rest"
    using drain_run[OF r(2,1,3)] not_stuck[OF server_ok_run[OF ok r(2)]] by auto
  ultimately show ?thesis by blast
qed

theorem shutdown_ends_witness:
  "\<exists>S S'. server_run booted (take 4 sample_run) = Some S \<and> server_run S (drop 4 sample_run) = Some S'
     \<and> length (drop 4 sample_run) \<le> work_left S"
proof -
  obtain S S' where S: "server_run booted (take 4 sample_run) = Some S" "draining S" "sv_signalled S"
    "server_run S (drop 4 sample_run) = Some S'"
    by (simp add: sample_run_def booted_def main_step_at ask_worker_def stop_signal_def in_flight_def draining_def)
  moreover have "Signal \<notin> set (drop 4 sample_run)" by (simp add: sample_run_def)
  ultimately show ?thesis using shutdown_ends[OF S(1,3), of "drop 4 sample_run" S'] by blast
qed

end
