(* ===== verification/Logging.thy ===== *)
theory Logging
  imports Py_Codec
begin

text \<open>
  The log lines (\<open>JsonFormatter\<close> and \<open>configure_logging\<close> in \<open>observability.py\<close>, the request line of \<open>handle\<close> in \<open>api.py\<close>):
  which entries a line has and how \<open>json.dumps\<close> prints them. The text of a float and the ISO timestamp are
  parameters. A log line is one line of printable ASCII, whatever text of a client it quotes.
\<close>

section \<open>\<open>json.dumps\<close>\<close>

definition hex_digit :: "nat \<Rightarrow> char" where
  "hex_digit n = (if n < 10 then char_of (48 + n) else char_of (87 + n))"

text \<open>A character inside a JSON string, with \<open>ensure_ascii\<close>: everything outside the printable ASCII range is escaped.\<close>

definition json_char :: "char \<Rightarrow> string" where
  "json_char c = (let n = ord c in
     if n = 34 then [CHR 0x5C, CHR 0x22] else if n = 92 then [CHR 0x5C, CHR 0x5C]
     else if n = 10 then CHR 0x5C # ''n'' else if n = 13 then CHR 0x5C # ''r'' else if n = 9 then CHR 0x5C # ''t''
     else if n = 8 then CHR 0x5C # ''b'' else if n = 12 then CHR 0x5C # ''f''
     else if 32 \<le> n \<and> n \<le> 126 then [c]
     else CHR 0x5C # ''u00'' @ [hex_digit (n div 16), hex_digit (n mod 16)])"

definition json_string :: "string \<Rightarrow> string" where
  "json_string s = CHR 0x22 # concat (map json_char s) @ [CHR 0x22]"

fun dumps :: "(real \<Rightarrow> string) \<Rightarrow> json \<Rightarrow> string" where
  "dumps fl JNull = ''null''"
| "dumps fl (JBool b) = (if b then ''true'' else ''false'')"
| "dumps fl (JInt i) = show_int i"
| "dumps fl (JFloat x) = fl x"
| "dumps fl (JStr s) = json_string s"
| "dumps fl (JList xs) = ''['' @ join '', '' (map (dumps fl) xs) @ '']''"
| "dumps fl (JObj kvs) = ''{'' @ join '', '' (map (\<lambda>kv. json_string (fst kv) @ '': '' @ dumps fl (snd kv)) kvs) @ ''}''"

section \<open>The formatter\<close>

text \<open>The attributes of every \<open>LogRecord\<close>; anything else in \<open>vars(record)\<close> came with \<open>extra=\<close>.\<close>

definition STANDARD_ATTRS :: "string list" where
  "STANDARD_ATTRS = [''name'', ''msg'', ''args'', ''levelname'', ''levelno'', ''pathname'', ''filename'', ''module'', ''exc_info'',
     ''exc_text'', ''stack_info'', ''lineno'', ''funcName'', ''created'', ''msecs'', ''relativeCreated'', ''thread'', ''threadName'',
     ''processName'', ''process'', ''taskName'', ''message'', ''asctime'']"

record log_record =
  lr_time :: string
  lr_level :: string
  lr_logger :: string
  lr_message :: string
  lr_vars :: jobj
  lr_exception :: "string option"

definition log_entry :: "log_record \<Rightarrow> jobj" where
  "log_entry r =
     (let e = [(''time'', JStr (lr_time r)), (''level'', JStr (lr_level r)), (''logger'', JStr (lr_logger r)), (''message'', JStr (lr_message r))];
          e = foldl (\<lambda>e (k, v). AList.update k v e) e (filter (\<lambda>(k, _). k \<notin> set STANDARD_ATTRS) (lr_vars r)) in
      case lr_exception r of None \<Rightarrow> e | Some x \<Rightarrow> AList.update ''exception'' (JStr x) e)"

definition format_record :: "(real \<Rightarrow> string) \<Rightarrow> log_record \<Rightarrow> string" where
  "format_record fl r = dumps fl (JObj (log_entry r))"

text \<open>What \<open>handle\<close> passes as \<open>extra=\<close> of the line it writes for every request.\<close>

definition opt_json :: "string option \<Rightarrow> json" where
  "opt_json s = (case s of None \<Rightarrow> JNull | Some x \<Rightarrow> JStr x)"

definition request_line :: "string \<Rightarrow> string \<Rightarrow> string \<Rightarrow> int \<Rightarrow> string option \<Rightarrow> real \<Rightarrow> (string \<times> string) option \<Rightarrow> jobj" where
  "request_line request_id http_method route status detail duration caller =
     [(''request_id'', JStr request_id), (''method'', JStr http_method), (''route'', JStr route), (''status'', JInt status),
      (''detail'', opt_json detail), (''duration_ms'', JFloat duration),
      (''tenant_id'', opt_json (map_option fst caller)), (''user_id'', opt_json (map_option snd caller))]"

section \<open>One printable line\<close>

definition printable :: "string \<Rightarrow> bool" where
  "printable s = list_all (\<lambda>c. 32 \<le> ord c \<and> ord c \<le> (126 :: nat)) s"

lemma printable_simps [simp]:
  "printable []" "printable (c # s) \<longleftrightarrow> 32 \<le> ord c \<and> ord c \<le> (126 :: nat) \<and> printable s"
  "printable (s @ t) \<longleftrightarrow> printable s \<and> printable t"
  by (auto simp: printable_def)

lemma printable_hex: "n < 16 \<Longrightarrow> 32 \<le> ord (hex_digit n) \<and> ord (hex_digit n) \<le> (126 :: nat)"
  by (auto simp: hex_digit_def)

lemma printable_json_char: "printable (json_char c)"
proof -
  have "ord c div 16 < (16 :: nat)" using ord_less_256[of c] by linarith
  with printable_hex show ?thesis by (simp add: json_char_def Let_def)
qed

lemma printable_json_string: "printable (json_string s)"
proof -
  have "printable (concat (map json_char s))" by (induction s) (simp_all add: printable_json_char)
  then show ?thesis by (simp add: json_string_def)
qed

lemma printable_show_nat: "printable (show_nat n)"
proof (induction n rule: show_nat.induct)
  case (1 n)
  have "n mod 10 \<le> 78" using mod_less_divisor[of 10 n] by linarith
  with 1 show ?case by (subst show_nat.simps) simp
qed

lemma printable_join: "printable sep \<Longrightarrow> (\<And>s. s \<in> set ss \<Longrightarrow> printable s) \<Longrightarrow> printable (join sep ss)"
  by (induction sep ss rule: join.induct) auto

lemma printable_dumps:
  assumes "\<And>x. printable (fl x)"
  shows "printable (dumps fl v)"
proof (induction v)
  case (JInt i)
  then show ?case by (simp add: show_int_def printable_show_nat)
next
  case (JList xs)
  then show ?case by (auto intro!: printable_join)
next
  case (JObj kvs)
  then have "printable (dumps fl (snd kv))" if "kv \<in> set kvs" for kv using that by (metis snds.intros surjective_pairing prod_set_simps(2) singletonI)
  then show ?case by (auto intro!: printable_join simp: printable_json_string)
qed (simp_all add: assms printable_json_string)

text \<open>An extra field changes no other field.\<close>

lemma map_of_updates: "k \<notin> fst ` set kvs \<Longrightarrow> map_of (foldl (\<lambda>e (k, v). AList.update k v e) e kvs) k = map_of e k"
  by (induction kvs arbitrary: e) (auto simp: update_conv)

lemma entry_keeps:
  assumes "k \<notin> fst ` set (lr_vars r)" "k \<noteq> ''exception''"
  shows "map_of (log_entry r) k = map_of [(''time'', JStr (lr_time r)), (''level'', JStr (lr_level r)), (''logger'', JStr (lr_logger r)),
    (''message'', JStr (lr_message r))] k"
proof -
  have "k \<notin> fst ` set (filter (\<lambda>(k, _). k \<notin> set STANDARD_ATTRS) (lr_vars r))" using assms(1) by auto
  note keep = map_of_updates[OF this]
  show ?thesis
    by (cases "lr_exception r") (simp_all only: log_entry_def Let_def option.case update_conv fun_upd_other[OF assms(2)] keep)
qed

text \<open>C37. The log cannot be forged: a record is printed as one line of printable ASCII, whatever a client put into a
  path, a message, a field or the text of an exception, and the line of a request has the time, the level, the
  logger and the message of its record, none of which a field of the request replaces.\<close>

theorem log_cannot_be_forged:
  assumes "\<And>x. printable (fl x)"
  shows "(\<forall>r. \<forall>c\<in>set (format_record fl r). 32 \<le> ord c \<and> ord c \<le> (126 :: nat))
    \<and> (\<forall>r. lr_vars r = request_line request_id http_method route status detail duration caller \<longrightarrow>
      map_of (log_entry r) ''time'' = Some (JStr (lr_time r)) \<and> map_of (log_entry r) ''level'' = Some (JStr (lr_level r))
      \<and> map_of (log_entry r) ''logger'' = Some (JStr (lr_logger r)) \<and> map_of (log_entry r) ''message'' = Some (JStr (lr_message r)))"
proof (intro conjI allI impI)
  fix r :: log_record
  have "printable (format_record fl r)" unfolding format_record_def by (rule printable_dumps) (rule assms)
  then show "\<forall>c\<in>set (format_record fl r). 32 \<le> ord c \<and> ord c \<le> (126 :: nat)" by (simp add: printable_def list_all_iff)
  assume v: "lr_vars r = request_line request_id http_method route status detail duration caller"
  show "map_of (log_entry r) ''time'' = Some (JStr (lr_time r))" "map_of (log_entry r) ''level'' = Some (JStr (lr_level r))"
    "map_of (log_entry r) ''logger'' = Some (JStr (lr_logger r))" "map_of (log_entry r) ''message'' = Some (JStr (lr_message r))"
    by (subst entry_keeps; simp add: v request_line_def)+
qed

definition sample_record :: log_record where
  "sample_record = \<lparr>lr_time = ''t'', lr_level = ''INFO'', lr_logger = ''rag.api'', lr_message = CHR 0x0A # ''x'',
     lr_vars = request_line ''r'' ''GET'' ''live'' 200 None 0 None, lr_exception = None\<rparr>"

theorem log_cannot_be_forged_witness:
  "list_all (\<lambda>c. 32 \<le> ord c \<and> ord c \<le> (126 :: nat)) (format_record (\<lambda>_. ''0.5'') sample_record)
   \<and> map_of (log_entry sample_record) ''level'' = Some (JStr ''INFO'')"
proof -
  have "\<And>x. printable ((\<lambda>_ :: real. ''0.5'') x)" by simp
  from log_cannot_be_forged[OF this, of "''r''" "''GET''" "''live''" 200 None 0 None]
  show ?thesis by (auto simp: sample_record_def list_all_iff)
qed

end
