(* ===== verification/Evals.thy ===== *)
theory Evals
  imports Api "HOL-Library.Sublist" "HOL-Library.Log_Nat"
begin

text \<open>
  The evaluator (\<open>evals/evaluate.py\<close>): the retrieval metrics, the calibration of the evidence gate, the loop that
  drives the application with a golden dataset, and the check of a report against thresholds. A dataset is a
  JSON value; a field of another type than the dataset format has is a \<open>TypeError\<close>. Each use of the application
  has its own \<open>world\<close>. The command line and the files are parameters.
\<close>

section \<open>Metrics\<close>

definition discount :: "nat \<Rightarrow> real" where
  "discount rank = 1 / log 2 (real rank + 2)"

definition ndcg :: "nat list \<Rightarrow> nat \<Rightarrow> nat \<Rightarrow> real" where
  "ndcg relevance cutoff relevant_count =
     (let dcg = (\<Sum>(rank, score)\<leftarrow>enumerate 0 (take cutoff relevance). real score / log 2 (real rank + 2));
          ideal = (\<Sum>rank\<leftarrow>[0..<min relevant_count cutoff]. 1 / log 2 (real rank + 2)) in
      if ideal \<noteq> 0 then dcg / ideal else 0)"

text \<open>\<open>xs[i]\<close>, a negative index counts from the end.\<close>

definition py_index :: "'a list \<Rightarrow> int \<Rightarrow> 'a res" where
  "py_index xs i =
     (let j = (if i < 0 then i + int (length xs) else i) in
      if 0 \<le> j \<and> j < int (length xs) then Inr (xs ! nat j) else Inl (OtherError ''IndexError: list index out of range''))"

definition percentile :: "real list \<Rightarrow> real \<Rightarrow> real res" where
  "percentile xs fraction =
     (let ordered = sort xs; n = int (length ordered) in
      py_index ordered (min (n - 1) (round_half_even (fraction * of_int (n - 1)))))"

definition answered_share :: "real list \<Rightarrow> real \<Rightarrow> real" where
  "answered_share scores threshold = real (length (filter (\<lambda>s. s \<ge> threshold) scores)) / real (max (length scores) 1)"

definition abstained_share :: "real list \<Rightarrow> real \<Rightarrow> real" where
  "abstained_share scores threshold = real (length (filter (\<lambda>s. s < threshold) scores)) / real (max (length scores) 1)"

definition balanced :: "real list \<Rightarrow> real list \<Rightarrow> real \<Rightarrow> real" where
  "balanced answerable unanswerable threshold = (answered_share answerable threshold + abstained_share unanswerable threshold) / 2"

definition keep_better :: "(real \<Rightarrow> real) \<Rightarrow> real \<times> real \<Rightarrow> real \<Rightarrow> real \<times> real" where
  "keep_better f best threshold = (if f threshold > snd best then (threshold, f threshold) else best)"

definition best_threshold :: "real list \<Rightarrow> real list \<Rightarrow> real" where
  "best_threshold answerable unanswerable =
     fst (foldl (keep_better (balanced answerable unanswerable)) (0, -1) (sort (remdups (0 # answerable @ unanswerable))))"

text \<open>\<open>statistics.fmean(xs) if xs else 0.0\<close>\<close>

definition mean_or_0 :: "real list \<Rightarrow> real" where
  "mean_or_0 xs = (if xs = [] then 0 else sum_list xs / real (length xs))"

section \<open>The report\<close>

record report =
  rp_backend :: string
  rp_dataset :: json
  rp_queries :: nat
  rp_answerable :: nat
  rp_unanswerable :: nat
  rp_recall_at_1 :: real
  rp_recall_at_3 :: real
  rp_recall_at_5 :: real
  rp_mrr :: real
  rp_ndcg_at_5 :: real
  rp_paraphrase_recall_at_5 :: real
  rp_answer_rate :: real
  rp_abstention_accuracy :: real
  rp_citation_precision :: real
  rp_expected_term_recall :: real
  rp_min_score :: real
  rp_suggested_min_score :: real
  rp_latency_p50_ms :: real
  rp_latency_p95_ms :: real

definition report_dict :: "report \<Rightarrow> jobj" where
  "report_dict R =
     [(''backend'', JStr (rp_backend R)), (''dataset'', rp_dataset R), (''queries'', JInt (int (rp_queries R))),
      (''answerable'', JInt (int (rp_answerable R))), (''unanswerable'', JInt (int (rp_unanswerable R)))] @
     map (\<lambda>(k, x). (k, JFloat (round4 x)))
      [(''recall_at_1'', rp_recall_at_1 R), (''recall_at_3'', rp_recall_at_3 R), (''recall_at_5'', rp_recall_at_5 R),
       (''mrr'', rp_mrr R), (''ndcg_at_5'', rp_ndcg_at_5 R), (''paraphrase_recall_at_5'', rp_paraphrase_recall_at_5 R),
       (''answer_rate'', rp_answer_rate R), (''abstention_accuracy'', rp_abstention_accuracy R),
       (''citation_precision'', rp_citation_precision R), (''expected_term_recall'', rp_expected_term_recall R),
       (''min_score'', rp_min_score R), (''suggested_min_score'', rp_suggested_min_score R),
       (''latency_p50_ms'', rp_latency_p50_ms R), (''latency_p95_ms'', rp_latency_p95_ms R)]"

section \<open>Reading a dataset\<close>

fun as_str :: "json \<Rightarrow> string res" where
  "as_str (JStr s) = Inr s"
| "as_str _ = Inl (OtherError ''TypeError'')"

fun as_list :: "json \<Rightarrow> json list res" where
  "as_list (JList xs) = Inr xs"
| "as_list _ = Inl (OtherError ''TypeError'')"

definition as_strings :: "json \<Rightarrow> string list res" where
  "as_strings j = bind_res (as_list j) (map_res as_str)"

text \<open>\<open>json.load(handle)\<close> gives \<open>v\<close>.\<close>

definition load_dataset :: "json res \<Rightarrow> jobj res" where
  "load_dataset v = bind_res v (\<lambda>j. case j of
     JObj d \<Rightarrow> if jtruthy (jget d ''documents'') \<and> jtruthy (jget d ''queries'') then Inr d
       else Inl (ValueError ''dataset must contain non-empty documents and queries'')
   | _ \<Rightarrow> Inl (ValueError ''dataset must contain non-empty documents and queries''))"

definition relevant_sources :: "json \<Rightarrow> string list res" where
  "relevant_sources item = bind_res (jsub_key item ''relevant_sources'') as_strings"

section \<open>Driving the application\<close>

definition EVAL_KEY :: string where
  "EVAL_KEY = ''eval-key''"

record eval_env =
  ev_world :: "nat \<Rightarrow> world"
  ev_latency :: "nat \<Rightarrow> real"
  ev_dumps :: "json \<Rightarrow> bytes"

definition post :: "eval_env \<Rightarrow> nat \<Rightarrow> app_config \<Rightarrow> string \<Rightarrow> jobj \<Rightarrow> jobj act" where
  "post E i C path payload =
     bind_act (handle C (ev_world E i) ''POST'' path [(''x-api-key'', EVAL_KEY)] (ev_dumps E (JObj payload))) (\<lambda>(status, body).
     if status \<ge> 400
     then raise (RuntimeError (path @ '' returned '' @ show_int status @ '': '' @ w_repr (ev_world E i) (JObj body)))
     else ret body)"

definition add_new :: "string list \<Rightarrow> string \<Rightarrow> string list" where
  "add_new sources s = (if s \<in> set sources then sources else sources @ [s])"

definition ranked_sources :: "scored list \<Rightarrow> string list" where
  "ranked_sources ranked = foldl add_new [] (map (chunk_source \<circ> fst) ranked)"

fun first_hit :: "nat \<Rightarrow> nat list \<Rightarrow> nat option" where
  "first_hit rank [] = None"
| "first_hit rank (hit # hits) = (if hit \<noteq> 0 then Some rank else first_hit (rank + 1) hits)"

definition any_hit :: "nat list \<Rightarrow> bool" where
  "any_hit hits = list_ex (\<lambda>h. h \<noteq> 0) hits"

record tally =
  tl_recall_1 :: nat
  tl_recall_3 :: nat
  tl_recall_5 :: nat
  tl_ranks :: "real list"
  tl_ndcgs :: "real list"
  tl_paraphrase :: "real list"
  tl_answered :: nat
  tl_abstained :: nat
  tl_precisions :: "real list"
  tl_terms :: "real list"
  tl_top_answerable :: "real list"
  tl_top_unanswerable :: "real list"
  tl_latencies :: "real list"

definition no_tally :: tally where
  "no_tally = \<lparr>tl_recall_1 = 0, tl_recall_3 = 0, tl_recall_5 = 0, tl_ranks = [], tl_ndcgs = [], tl_paraphrase = [], tl_answered = 0,
     tl_abstained = 0, tl_precisions = [], tl_terms = [], tl_top_answerable = [], tl_top_unanswerable = [], tl_latencies = []\<rparr>"

definition hit_list :: "string list \<Rightarrow> scored list \<Rightarrow> nat list" where
  "hit_list expected ranked = map (\<lambda>s. if s \<in> set expected then 1 else 0) (ranked_sources ranked)"

definition count_if :: "bool \<Rightarrow> nat" where
  "count_if b = (if b then 1 else 0)"

text \<open>The retrieval part of an answerable question.\<close>

definition tally_ranking :: "string list \<Rightarrow> scored list \<Rightarrow> bool \<Rightarrow> tally \<Rightarrow> tally" where
  "tally_ranking expected ranked paraphrase T =
     (let relevance = hit_list expected ranked in
      T\<lparr>tl_recall_1 := tl_recall_1 T + count_if (any_hit (take 1 relevance)),
        tl_recall_3 := tl_recall_3 T + count_if (any_hit (take 3 relevance)),
        tl_recall_5 := tl_recall_5 T + count_if (any_hit (take 5 relevance)),
        tl_ranks := tl_ranks T @ [case first_hit 1 relevance of Some rank \<Rightarrow> 1 / real rank | None \<Rightarrow> 0],
        tl_ndcgs := tl_ndcgs T @ [ndcg relevance 5 (length (remdups expected))],
        tl_paraphrase := tl_paraphrase T @ (if paraphrase then [real (count_if (any_hit (take 5 relevance)))] else [])\<rparr>)"

definition share :: "('a \<Rightarrow> bool) \<Rightarrow> 'a list \<Rightarrow> real res" where
  "share P xs = (if xs = [] then Inl (OtherError ''ZeroDivisionError: division by zero'')
     else Inr (real (length (filter P xs)) / real (length xs)))"

text \<open>The answer part of an answerable question: precision of its citations, recall of the expected terms.\<close>

definition tally_citations :: "string list \<Rightarrow> json \<Rightarrow> tally \<Rightarrow> tally res" where
  "tally_citations expected body T =
     bind_res (jsub_key body ''grounded'') (\<lambda>grounded.
     if \<not> jtruthy grounded then Inr T
     else
       bind_res (bind_res (jsub_key body ''citations'') as_list) (\<lambda>cs.
       bind_res (map_res (\<lambda>c. bind_res (jsub_key c ''source'') as_str) cs) (\<lambda>cited.
       bind_res (share (\<lambda>s. s \<in> set expected) cited) (\<lambda>precision.
       Inr (T\<lparr>tl_answered := tl_answered T + 1, tl_precisions := tl_precisions T @ [precision]\<rparr>)))))"

definition tally_terms :: "string list \<Rightarrow> json \<Rightarrow> tally \<Rightarrow> tally res" where
  "tally_terms expected_terms body T =
     (if expected_terms = [] then Inr T
      else
        bind_res (bind_res (jsub_key body ''answer'') as_str) (\<lambda>a.
        bind_res (share (\<lambda>t. sublist (lower t) (lower a)) expected_terms) (\<lambda>r.
        Inr (T\<lparr>tl_terms := tl_terms T @ [r]\<rparr>))))"

definition optional_strings :: "json \<Rightarrow> string \<Rightarrow> string list res" where
  "optional_strings item k = (case item of
     JObj d \<Rightarrow> as_strings (jget_or d k (JList [])) | _ \<Rightarrow> Inl (OtherError ''AttributeError''))"

definition tally_item :: "json \<Rightarrow> string list \<Rightarrow> scored list \<Rightarrow> jobj \<Rightarrow> real \<Rightarrow> tally \<Rightarrow> tally res" where
  "tally_item item expected ranked body latency T0 =
     (let top_score = (case ranked of [] \<Rightarrow> 0 | (c, s) # _ \<Rightarrow> s);
          T = T0\<lparr>tl_latencies := tl_latencies T0 @ [latency]\<rparr> in
      if expected = []
      then
        bind_res (jsub_key (JObj body) ''grounded'') (\<lambda>grounded.
        Inr (T\<lparr>tl_top_unanswerable := tl_top_unanswerable T @ [top_score], tl_abstained := tl_abstained T + count_if (\<not> jtruthy grounded)\<rparr>))
      else
        bind_res (optional_strings item ''tags'') (\<lambda>tags.
        bind_res (tally_citations expected (JObj body)
          (tally_ranking expected ranked (''paraphrase'' \<in> set tags) (T\<lparr>tl_top_answerable := tl_top_answerable T @ [top_score]\<rparr>))) (\<lambda>T2.
        bind_res (optional_strings item ''expected_terms'') (\<lambda>expected_terms.
        tally_terms expected_terms (JObj body) T2))))"

definition score_item :: "eval_env \<Rightarrow> nat \<Rightarrow> app_config \<Rightarrow> principal \<Rightarrow> json \<Rightarrow> tally \<Rightarrow> tally act" where
  "score_item E i C p item T =
     bind_act (lift_res (relevant_sources item)) (\<lambda>expected.
     bind_act (lift_res (bind_res (jsub_key item ''question'') as_str)) (\<lambda>question.
     bind_act (retrieve C (ev_world E i) p question False) (\<lambda>ranked.
     bind_act (post E i C ''/v1/query'' [(''question'', JStr question)]) (\<lambda>body.
     lift_res (tally_item item expected ranked body (ev_latency E i * 1000) T)))))"

fun score_items :: "eval_env \<Rightarrow> nat \<Rightarrow> app_config \<Rightarrow> principal \<Rightarrow> json list \<Rightarrow> tally \<Rightarrow> tally act" where
  "score_items E i C p [] T = ret T"
| "score_items E i C p (item # items) T = bind_act (score_item E i C p item T) (score_items E (i + 1) C p items)"

definition make_report :: "app_config \<Rightarrow> string \<Rightarrow> json \<Rightarrow> nat \<Rightarrow> nat \<Rightarrow> nat \<Rightarrow> tally \<Rightarrow> report res" where
  "make_report C backend dataset_name queries answerable unanswerable T =
     (let n = real (max answerable 1) in
      bind_res (percentile (tl_latencies T) (5/10)) (\<lambda>p50.
      bind_res (percentile (tl_latencies T) (95/100)) (\<lambda>p95.
      Inr \<lparr>rp_backend = backend, rp_dataset = dataset_name, rp_queries = queries, rp_answerable = answerable,
        rp_unanswerable = unanswerable, rp_recall_at_1 = real (tl_recall_1 T) / n, rp_recall_at_3 = real (tl_recall_3 T) / n,
        rp_recall_at_5 = real (tl_recall_5 T) / n, rp_mrr = sum_list (tl_ranks T) / n, rp_ndcg_at_5 = sum_list (tl_ndcgs T) / n,
        rp_paraphrase_recall_at_5 = mean_or_0 (tl_paraphrase T), rp_answer_rate = real (tl_answered T) / n,
        rp_abstention_accuracy = real (tl_abstained T) / real (max unanswerable 1), rp_citation_precision = mean_or_0 (tl_precisions T),
        rp_expected_term_recall = mean_or_0 (tl_terms T), rp_min_score = cf_min_score C,
        rp_suggested_min_score = best_threshold (tl_top_answerable T) (tl_top_unanswerable T),
        rp_latency_p50_ms = p50, rp_latency_p95_ms = p95\<rparr>)))"

definition score :: "eval_env \<Rightarrow> nat \<Rightarrow> app_config \<Rightarrow> principal \<Rightarrow> jobj \<Rightarrow> string \<Rightarrow> string \<Rightarrow> report act" where
  "score E i C p dataset backend dataset_name =
     bind_act (lift_res (bind_res (jsub_key (JObj dataset) ''queries'') as_list)) (\<lambda>queries.
     bind_act (lift_res (map_res relevant_sources queries)) (\<lambda>expected.
     let answerable = length (filter (\<lambda>s. s \<noteq> []) expected); unanswerable = length (filter (\<lambda>s. s = []) expected) in
     bind_act (score_items E i C p queries no_tally) (\<lambda>T.
     lift_res (make_report C backend (if dataset_name \<noteq> [] then JStr dataset_name else jget_or dataset ''version'' (JStr []))
       (length queries) answerable unanswerable T))))"

section \<open>Evaluating\<close>

text \<open>\<open>connect dsn\<close> are the tables behind a database URL.\<close>

record eval_setup =
  es_sha256 :: "bytes \<Rightarrow> string"
  es_run :: "openai_provider \<Rightarrow> model_provider"
  es_environ :: environ
  es_connect :: "string \<Rightarrow> pg_store \<times> chat_table \<times> pg_job list"
  es_repr :: "json \<Rightarrow> string"

definition eval_args :: "key_store \<Rightarrow> gateway option \<Rightarrow> (pg_store \<times> chat_table \<times> pg_job list) option \<Rightarrow> app_args" where
  "eval_args keys provider database = \<lparr>ar_api_key = None, ar_max_body_bytes = None, ar_database = database, ar_embedder = None,
     ar_tenant_id = None, ar_provider = Some provider, ar_reranker = None, ar_keys = Some keys, ar_min_score = None,
     ar_relative_score = None, ar_rate_limiter = None, ar_token_budget = None\<rparr>"

definition build_app :: "eval_setup \<Rightarrow> string \<Rightarrow> string \<Rightarrow> gateway option \<Rightarrow> string option \<Rightarrow> (app_config \<times> app_state) res" where
  "build_app U backend tenant provider dsn =
     bind_res (single_key (es_sha256 U) EVAL_KEY tenant) (\<lambda>keys.
     let start = (\<lambda>database. init_app (es_sha256 U) (es_run U) (es_environ U) (Inl (RuntimeError [])) (eval_args keys provider database)) in
     if backend = ''memory'' then start None
     else if backend = ''postgres'' then
       (if \<not> py_truthy dsn then Inl (ValueError ''the postgres backend needs RAG_EVAL_DSN'')
        else start (Some (es_connect U (the dsn))))
     else Inl (ValueError (''unknown backend '' @ es_repr U (JStr backend))))"

text \<open>\<open>{"filename": document["source"], **document}\<close>\<close>

definition document_payload :: "json \<Rightarrow> jobj res" where
  "document_payload document = bind_res (jsub_key document ''source'') (\<lambda>source. case document of
     JObj d \<Rightarrow> Inr (AList.updates (map fst d) (map snd d) [(''filename'', source)])
   | _ \<Rightarrow> Inl (OtherError ''TypeError''))"

fun upload_all :: "eval_env \<Rightarrow> nat \<Rightarrow> app_config \<Rightarrow> json list \<Rightarrow> unit act" where
  "upload_all E i C [] = ret ()"
| "upload_all E i C (d # ds) =
     bind_act (lift_res (document_payload d)) (\<lambda>payload.
     bind_act (post E i C ''/v1/documents'' payload) (\<lambda>_. upload_all E (i + 1) C ds))"

definition finally_act :: "'a act \<Rightarrow> unit act \<Rightarrow> 'a act" where
  "finally_act m c = (\<lambda>S. case m S of (r, S1) \<Rightarrow> (case c S1 of (Inl e, S2) \<Rightarrow> (Inl e, S2) | (Inr _, S2) \<Rightarrow> (r, S2)))"

fun delete_all :: "string \<Rightarrow> doc_meta list \<Rightarrow> unit act" where
  "delete_all tenant [] = ret ()"
| "delete_all tenant (m # ms) =
     bind_act (upd_store (store_delete_document tenant (dm_document_id m) [])) (\<lambda>_. delete_all tenant ms)"

definition stop_jobs :: "unit act" where
  "stop_jobs = (\<lambda>S. (Inr (), S\<lparr>ap_jobs := (case ap_jobs S of InProcess V \<Rightarrow> InProcess (stop_worker V) | Durable rows \<Rightarrow> Durable rows)\<rparr>))"

definition cleanup :: "string \<Rightarrow> unit act" where
  "cleanup tenant = bind_act (\<lambda>S. case ap_store S of
       Memory _ \<Rightarrow> (Inr (), S)
     | Postgres _ \<Rightarrow> bind_act (reading (\<lambda>S. store_list_documents (ap_store S) tenant [] False)) (delete_all tenant) S) (\<lambda>_. stop_jobs)"

definition evaluate_app :: "eval_env \<Rightarrow> app_config \<Rightarrow> string \<Rightarrow> jobj \<Rightarrow> string \<Rightarrow> string \<Rightarrow> report act" where
  "evaluate_app E C tenant dataset backend dataset_name =
     finally_act
       (bind_act (lift_res (bind_res (jsub_key (JObj dataset) ''documents'') as_list)) (\<lambda>documents.
        bind_act (upload_all E 0 C documents) (\<lambda>_.
        score E (length documents) C \<lparr>p_tenant_id = tenant, p_user_id = ''api'', p_groups = {||}\<rparr> dataset backend dataset_name)))
       (cleanup tenant)"

definition evaluate :: "eval_setup \<Rightarrow> eval_env \<Rightarrow> string \<Rightarrow> jobj \<Rightarrow> string \<Rightarrow> gateway option \<Rightarrow> string option \<Rightarrow> string \<Rightarrow> report res" where
  "evaluate U E uuid_hex dataset backend provider dsn dataset_name =
     (let tenant = ''eval-'' @ take 12 uuid_hex in
      bind_res (build_app U backend tenant provider dsn) (\<lambda>(C, S). fst (evaluate_app E C tenant dataset backend dataset_name S)))"

section \<open>Checking a report\<close>

fun as_number :: "json \<Rightarrow> real res" where
  "as_number (JInt i) = Inr (of_int i)"
| "as_number (JFloat x) = Inr x"
| "as_number (JBool b) = Inr (if b then 1 else 0)"
| "as_number _ = Inl (OtherError ''TypeError'')"

definition violation :: "(json \<Rightarrow> string) \<Rightarrow> jobj \<Rightarrow> bool \<Rightarrow> string \<times> json \<Rightarrow> string list res" where
  "violation rep values is_min = (\<lambda>(metric, bound).
     bind_res (jsub_key (JObj values) metric) (\<lambda>v.
     bind_res (as_number v) (\<lambda>x.
     bind_res (as_number bound) (\<lambda>b.
     Inr (if is_min \<and> x < b then [metric @ '' = '' @ json_str rep v @ '' is below the minimum '' @ json_str rep bound]
       else if \<not> is_min \<and> x > b then [metric @ '' = '' @ json_str rep v @ '' is above the maximum '' @ json_str rep bound]
       else [])))))"

definition limits_of :: "jobj \<Rightarrow> string \<Rightarrow> (string \<times> json) list res" where
  "limits_of limits k = (case jget_or limits k (JObj []) of JObj d \<Rightarrow> Inr d | _ \<Rightarrow> Inl (OtherError ''AttributeError''))"

definition check_report :: "(json \<Rightarrow> string) \<Rightarrow> report \<Rightarrow> jobj \<Rightarrow> string list res" where
  "check_report rep R thresholds =
     bind_res (case jget_or thresholds (rp_backend R) (JObj []) of JObj d \<Rightarrow> Inr d | _ \<Rightarrow> Inl (OtherError ''AttributeError'')) (\<lambda>limits.
     bind_res (bind_res (limits_of limits ''min'') (map_res (violation rep (report_dict R) True))) (\<lambda>below.
     bind_res (bind_res (limits_of limits ''max'') (map_res (violation rep (report_dict R) False))) (\<lambda>above.
     Inr (concat (below @ above)))))"

text \<open>\<open>main\<close> after the arguments are parsed: the report and the exit status, 1 on a regression.\<close>

definition eval_main :: "eval_setup \<Rightarrow> eval_env \<Rightarrow> string \<Rightarrow> json res \<Rightarrow> string \<Rightarrow> string \<Rightarrow> bool \<Rightarrow> jobj res option \<Rightarrow> (report \<times> int) res" where
  "eval_main U E uuid_hex dataset_file dataset_name backend configured thresholds =
     bind_res (if configured then configured_provider (es_run U) (es_environ U) else Inr None) (\<lambda>provider.
     bind_res (load_dataset dataset_file) (\<lambda>dataset.
     bind_res (evaluate U E uuid_hex dataset backend provider (es_environ U ''RAG_EVAL_DSN'') dataset_name) (\<lambda>R.
     case thresholds of
       None \<Rightarrow> Inr (R, 0)
     | Some t \<Rightarrow> bind_res t (\<lambda>limits. bind_res (check_report (es_repr U) R limits) (\<lambda>failures.
         Inr (R, if failures \<noteq> [] then 1 else 0))))))"

section \<open>The suggested threshold\<close>

lemma foldl_keep_better:
  assumes "foldl (keep_better f) (b, v) xs = (t, w)"
  shows "w \<ge> v \<and> (\<forall>x\<in>set xs. f x \<le> w) \<and> (t = b \<and> w = v \<or> t \<in> set xs \<and> w = f t)"
  using assms
proof (induction xs arbitrary: b v)
  case (Cons x xs)
  show ?case
  proof (cases "f x > v")
    case True
    then have "keep_better f (b, v) x = (x, f x)" by (simp add: keep_better_def)
    with Cons.prems have "foldl (keep_better f) (x, f x) xs = (t, w)" by simp
    from Cons.IH[OF this] True show ?thesis by auto
  next
    case False
    then have "keep_better f (b, v) x = (b, v)" by (simp add: keep_better_def)
    with Cons.prems have "foldl (keep_better f) (b, v) xs = (t, w)" by simp
    from Cons.IH[OF this] False show ?thesis by auto
  qed
qed simp

lemma shares_range:
  "0 \<le> answered_share xs t \<and> answered_share xs t \<le> 1" "0 \<le> abstained_share xs t \<and> abstained_share xs t \<le> 1"
proof -
  have "length (filter P xs) \<le> max (length xs) 1" for P using length_filter_le[of P xs] by linarith
  then show "0 \<le> answered_share xs t \<and> answered_share xs t \<le> 1" "0 \<le> abstained_share xs t \<and> abstained_share xs t \<le> 1"
    by (simp_all add: answered_share_def abstained_share_def divide_le_eq_1)
qed

lemma best_threshold_mem:
  assumes "t = best_threshold as us"
  shows "t \<in> set (0 # as @ us)" and "\<And>x. x \<in> set (0 # as @ us) \<Longrightarrow> balanced as us x \<le> balanced as us t"
proof -
  obtain w where f: "foldl (keep_better (balanced as us)) (0, -1) (sort (remdups (0 # as @ us))) = (t, w)"
    using assms unfolding best_threshold_def by (metis prod.collapse)
  have set: "set (sort (remdups (0 # as @ us))) = set (0 # as @ us)" by auto
  note best = foldl_keep_better[OF f, unfolded set]
  have "balanced as us 0 \<ge> 0" using shares_range by (simp add: balanced_def)
  moreover have "balanced as us 0 \<le> w" using best by simp
  ultimately have "w \<noteq> -1" by linarith
  with best show "t \<in> set (0 # as @ us)" "\<And>x. x \<in> set (0 # as @ us) \<Longrightarrow> balanced as us x \<le> balanced as us t" by blast+
qed

text \<open>Between two candidates the balanced accuracy does not change.\<close>

lemma balanced_next_candidate:
  assumes "k \<in> set (0 # as @ us)" "\<theta> \<le> k"
  shows "\<exists>k\<in>set (0 # as @ us). balanced as us \<theta> = balanced as us k"
proof -
  let ?K = "{k \<in> set (0 # as @ us). \<theta> \<le> k}"
  let ?m = "Min ?K"
  have m: "?m \<in> ?K" using assms by (intro Min_in) auto
  have eq: "s \<ge> \<theta> \<longleftrightarrow> s \<ge> ?m" if "s \<in> set (0 # as @ us)" for s
  proof
    assume "s \<ge> \<theta>"
    with that have "s \<in> ?K" by simp
    then show "s \<ge> ?m" by (intro Min_le) auto
  qed (use m in auto)
  have "filter (\<lambda>s. s \<ge> \<theta>) as = filter (\<lambda>s. s \<ge> ?m) as" "filter (\<lambda>s. s < \<theta>) us = filter (\<lambda>s. s < ?m) us"
    using eq by (auto intro!: filter_cong simp: not_le[symmetric])
  then have "balanced as us \<theta> = balanced as us ?m" by (simp add: balanced_def answered_share_def abstained_share_def)
  with m show ?thesis by blast
qed

text \<open>C29. The suggested threshold is the best there is: it is 0 or one of the observed scores, and no threshold whatever,
  observed or not, separates the answerable from the unanswerable questions with a higher balanced accuracy.\<close>

theorem best_threshold_optimal:
  assumes "as \<noteq> []" "\<forall>s\<in>set (as @ us). 0 \<le> s"
  shows "best_threshold as us \<in> set (0 # as @ us) \<and> balanced as us \<theta> \<le> balanced as us (best_threshold as us)"
proof (cases "\<exists>k\<in>set (0 # as @ us). \<theta> \<le> k")
  case True
  then show ?thesis using balanced_next_candidate best_threshold_mem[OF refl] by metis
next
  case False
  have "filter (\<lambda>s. s \<ge> \<theta>) as = []" "filter (\<lambda>s. s \<ge> 0) as = as" using False assms(2) by (auto simp: filter_empty_conv filter_id_conv)
  moreover have "max (length as) 1 = length as" using assms(1) by (cases as) auto
  ultimately have "answered_share as \<theta> = 0" "answered_share as 0 = 1" using assms(1) by (simp_all add: answered_share_def)
  then have "balanced as us \<theta> \<le> balanced as us 0" using shares_range by (simp add: balanced_def add_increasing2)
  also have "\<dots> \<le> balanced as us (best_threshold as us)" using best_threshold_mem(2)[OF refl] by simp
  finally show ?thesis using best_threshold_mem(1)[OF refl] by blast
qed

theorem best_threshold_optimal_witness:
  "best_threshold [8/10, 3/10] [2/10, 4/10] \<in> {0, 8/10, 3/10, 2/10, 4/10}
   \<and> balanced [8/10, 3/10] [2/10, 4/10] (1/2) \<le> balanced [8/10, 3/10] [2/10, 4/10] (best_threshold [8/10, 3/10] [2/10, 4/10])"
  using best_threshold_optimal[of "[8/10, 3/10]" "[2/10, 4/10]" "1/2"] by simp

section \<open>nDCG\<close>

lemma discount_pos: "discount n > 0"
  by (simp add: discount_def)

lemma discount_antimono: "m \<le> n \<Longrightarrow> discount n \<le> discount m"
  unfolding discount_def by (intro divide_left_mono mult_pos_pos) (auto intro: log_le_cancel_iff[THEN iffD2])

lemma sum_hits_le: "list_all (\<lambda>h. h \<le> (1 :: nat)) hits \<Longrightarrow> sum_list hits \<le> length hits"
  by (induction hits) auto

text \<open>Hits weigh most when they come first.\<close>

lemma gain_le_ideal:
  assumes "list_all (\<lambda>h. h \<le> 1) hits"
  shows "(\<Sum>(rank, h)\<leftarrow>enumerate 0 hits. real h * discount rank) \<le> (\<Sum>rank\<leftarrow>[0..<sum_list hits]. discount rank)"
  using assms
proof (induction hits rule: rev_induct)
  case (snoc h hits)
  have n: "sum_list hits \<le> length hits" using snoc.prems by (intro sum_hits_le) simp
  have "h = 0 \<or> h = 1" using snoc.prems by auto
  then show ?case
  proof
    assume "h = 1"
    with snoc discount_antimono[OF n] show ?case by (simp add: enumerate_append_eq)
  qed (use snoc in \<open>simp add: enumerate_append_eq\<close>)
qed simp

lemma gain_nonneg: "0 \<le> (\<Sum>(rank, h)\<leftarrow>enumerate n hits. real h * discount rank)"
  by (induction hits arbitrary: n) (auto simp: discount_pos less_imp_le)

lemma ideal_mono: "m \<le> n \<Longrightarrow> (\<Sum>rank\<leftarrow>[0..<m]. discount rank) \<le> (\<Sum>rank\<leftarrow>[0..<n]. discount rank)"
proof (induction n rule: dec_induct)
  case (step n)
  then show ?case using discount_pos[of n] by simp
qed simp

lemma ndcg_range:
  assumes "list_all (\<lambda>h. h \<le> 1) hits" "sum_list hits \<le> relevant"
  shows "0 \<le> ndcg hits cutoff relevant \<and> ndcg hits cutoff relevant \<le> 1"
proof -
  let ?hits = "take cutoff hits" and ?ideal = "(\<Sum>rank\<leftarrow>[0..<min relevant cutoff]. discount rank)"
  let ?dcg = "(\<Sum>(rank, h)\<leftarrow>enumerate 0 ?hits. real h * discount rank)"
  have h: "list_all (\<lambda>h. h \<le> 1) ?hits" using assms(1) by (auto simp: list_all_iff dest: in_set_takeD)
  then have "sum_list ?hits \<le> length ?hits" by (rule sum_hits_le)
  moreover have "sum_list ?hits \<le> sum_list hits" by (metis append_take_drop_id le_add1 sum_list_append)
  ultimately have "sum_list ?hits \<le> min relevant cutoff" using assms(2) by simp
  then have "?dcg \<le> ?ideal" using gain_le_ideal[OF h] ideal_mono by (meson order_trans)
  moreover have "0 \<le> ?dcg" by (rule gain_nonneg)
  moreover have "ndcg hits cutoff relevant = (if ?ideal \<noteq> 0 then ?dcg / ?ideal else 0)"
    by (simp add: ndcg_def Let_def discount_def case_prod_unfold)
  ultimately show ?thesis by (simp add: divide_le_eq_1)
qed

section \<open>The metrics of a report\<close>

definition unit_range :: "real \<Rightarrow> bool" where
  "unit_range x = (0 \<le> x \<and> x \<le> 1)"

lemma sum_unit_range: "list_all unit_range xs \<Longrightarrow> 0 \<le> sum_list xs \<and> sum_list xs \<le> real (length xs)"
  by (induction xs) (auto simp: unit_range_def)

lemma mean_unit_range: "list_all unit_range xs \<Longrightarrow> unit_range (mean_or_0 xs)"
  using sum_unit_range[of xs] by (auto simp: mean_or_0_def unit_range_def divide_le_eq_1)

lemma ratio_unit_range: "m \<le> n \<Longrightarrow> unit_range (real m / real (max n 1))"
  by (auto simp: unit_range_def divide_le_eq_1)

lemma share_unit_range: "share P xs = Inr x \<Longrightarrow> unit_range x"
  by (auto simp: share_def unit_range_def divide_le_eq_1 split: if_splits)

lemma ranked_sources_distinct: "distinct (ranked_sources ranked)"
proof -
  have "distinct acc \<Longrightarrow> distinct (foldl add_new acc ss)" for acc ss
    by (induction ss arbitrary: acc) (auto simp: add_new_def)
  then show ?thesis by (simp add: ranked_sources_def)
qed

lemma hit_list_sum: "sum_list (hit_list expected ranked) \<le> length (remdups expected)"
proof -
  have "sum_list (map (\<lambda>s. if P s then 1 else 0 :: nat) xs) = length (filter P xs)" for P and xs :: "string list"
    by (induction xs) auto
  then have "sum_list (hit_list expected ranked) = length (filter (\<lambda>s. s \<in> set expected) (ranked_sources ranked))"
    by (simp add: hit_list_def)
  also have "\<dots> = card (set (filter (\<lambda>s. s \<in> set expected) (ranked_sources ranked)))"
    by (rule distinct_card[symmetric]) (simp add: ranked_sources_distinct)
  also have "\<dots> \<le> card (set expected)" by (intro card_mono) auto
  also have "\<dots> = length (remdups expected)" by (simp add: length_remdups_card_conv)
  finally show ?thesis .
qed

lemma first_hit_ge: "first_hit n hits = Some r \<Longrightarrow> n \<le> r"
  by (induction n hits rule: first_hit.induct) (auto split: if_splits)

lemma any_hit_take: "m \<le> n \<Longrightarrow> count_if (any_hit (take m hits)) \<le> count_if (any_hit (take n hits))"
  unfolding any_hit_def count_if_def list_ex_iff using set_take_subset_set_take[of m n hits] by auto

text \<open>A tally of \<open>n\<close> answerable and \<open>k\<close> unanswerable questions.\<close>

definition tally_ok :: "nat \<Rightarrow> nat \<Rightarrow> tally \<Rightarrow> bool" where
  "tally_ok n k T = (tl_recall_1 T \<le> tl_recall_3 T \<and> tl_recall_3 T \<le> tl_recall_5 T \<and> tl_recall_5 T \<le> n
     \<and> length (tl_ranks T) = n \<and> list_all unit_range (tl_ranks T) \<and> length (tl_ndcgs T) = n \<and> list_all unit_range (tl_ndcgs T)
     \<and> list_all unit_range (tl_paraphrase T) \<and> tl_answered T \<le> n \<and> tl_abstained T \<le> k \<and> list_all unit_range (tl_precisions T)
     \<and> list_all unit_range (tl_terms T) \<and> length (tl_latencies T) = n + k
     \<and> length (tl_top_answerable T) = n \<and> length (tl_top_unanswerable T) = k)"

lemma tally_ranking_ok:
  assumes "tally_ok n k T"
  shows "tally_ok (n + 1) k (tally_ranking expected ranked paraphrase
      (T\<lparr>tl_latencies := tl_latencies T @ [x], tl_top_answerable := tl_top_answerable T @ [s]\<rparr>))"
proof -
  let ?hits = "hit_list expected ranked"
  have "list_all (\<lambda>h. h \<le> 1) ?hits" by (auto simp: hit_list_def list_all_iff)
  from ndcg_range[OF this hit_list_sum, of 5] have "unit_range (ndcg ?hits 5 (length (remdups expected)))" by (simp add: unit_range_def)
  moreover have "unit_range (case first_hit 1 ?hits of Some rank \<Rightarrow> 1 / real rank | None \<Rightarrow> 0)"
    using first_hit_ge[of 1 ?hits] by (auto simp: unit_range_def split: option.split)
  moreover have "count_if (any_hit (take 5 ?hits)) \<le> 1" "unit_range (real (count_if (any_hit (take 5 ?hits))))"
    by (simp_all add: count_if_def unit_range_def)
  ultimately show ?thesis
    using assms any_hit_take[of 1 3 ?hits] any_hit_take[of 3 5 ?hits]
    by (simp add: tally_ok_def tally_ranking_def Let_def add_mono)
qed

lemma tally_citations_ok:
  assumes "tally_citations expected body T = Inr T'" "tally_ok (n + 1) k T" "tl_answered T \<le> n"
  shows "tally_ok (n + 1) k T'"
  using assms by (auto simp: tally_citations_def tally_ok_def dest: share_unit_range split: if_splits)

lemma tally_terms_ok: "tally_terms ts body T = Inr T' \<Longrightarrow> tally_ok n k T \<Longrightarrow> tally_ok n k T'"
  by (auto simp: tally_terms_def tally_ok_def dest: share_unit_range split: if_splits)

lemma tally_item_ok:
  assumes "tally_item item expected ranked body x T = Inr T'" "tally_ok n k T"
  shows "tally_ok (if expected = [] then n else n + 1) (if expected = [] then k + 1 else k) T'"
proof (cases "expected = []")
  case True
  with assms show ?thesis by (auto simp: tally_item_def tally_ok_def count_if_def Let_def)
next
  case False
  then obtain T2 tags ets where T2: "tally_citations expected (JObj body) (tally_ranking expected ranked (''paraphrase'' \<in> set tags)
      (T\<lparr>tl_latencies := tl_latencies T @ [x], tl_top_answerable := tl_top_answerable T @ [case ranked of [] \<Rightarrow> 0 | (c, s) # _ \<Rightarrow> s]\<rparr>)) = Inr T2"
    "tally_terms ets (JObj body) T2 = Inr T'"
    using assms(1) by (auto simp: tally_item_def Let_def)
  have "tl_answered (tally_ranking expected ranked b (T\<lparr>tl_latencies := l, tl_top_answerable := t\<rparr>)) \<le> n" for b l t
    using assms(2) by (simp add: tally_ranking_def tally_ok_def Let_def)
  from tally_terms_ok[OF T2(2) tally_citations_ok[OF T2(1) tally_ranking_ok[OF assms(2)] this]] False show ?thesis by simp
qed

lemma score_item_ok:
  assumes "score_item E i C p item T S = (Inr T', S')" "tally_ok n k T"
  shows "\<exists>expected. relevant_sources item = Inr expected
    \<and> tally_ok (if expected = [] then n else n + 1) (if expected = [] then k + 1 else k) T'"
proof -
  obtain expected ranked body where "relevant_sources item = Inr expected"
    "tally_item item expected ranked body (ev_latency E i * 1000) T = Inr T'"
    using assms(1) unfolding score_item_def act_Inr by auto
  with tally_item_ok[OF _ assms(2)] show ?thesis by blast
qed

lemma score_items_ok:
  assumes "score_items E i C p items T S = (Inr T', S')" "map_res relevant_sources items = Inr expected" "tally_ok n k T"
  shows "tally_ok (n + length (filter (\<lambda>s. s \<noteq> []) expected)) (k + length (filter (\<lambda>s. s = []) expected)) T'"
  using assms
proof (induction items arbitrary: i T S n k expected)
  case Nil
  then show ?case by (simp add: ret_def)
next
  case (Cons item items)
  obtain T1 S1 where 1: "score_item E i C p item T S = (Inr T1, S1)" "score_items E (i + 1) C p items T1 S1 = (Inr T', S')"
    using Cons.prems(1) by (auto simp: bind_act_Inr)
  obtain e es where e: "relevant_sources item = Inr e" "map_res relevant_sources items = Inr es" "expected = e # es"
    using Cons.prems(2) by auto
  from score_item_ok[OF 1(1) Cons.prems(3)] e(1)
  have "tally_ok (if e = [] then n else n + 1) (if e = [] then k + 1 else k) T1" by auto
  from Cons.IH[OF 1(2) e(2) this] show ?case by (auto simp: e(3) split: if_splits)
qed

lemma score_Inr:
  assumes "score E i C p dataset backend name S = (Inr R, S')"
  shows "\<exists>n k T d. tally_ok n k T \<and> make_report C backend d (n + k) n k T = Inr R"
proof -
  obtain queries expected T S1 d where q: "map_res relevant_sources queries = Inr expected"
    "score_items E i C p queries no_tally S = (Inr T, S1)"
    "make_report C backend d (length queries)
       (length (filter (\<lambda>s. s \<noteq> []) expected)) (length (filter (\<lambda>s. s = []) expected)) T = Inr R"
    using assms by (simp only: score_def act_Inr Let_def) blast
  have "tally_ok 0 0 no_tally" by (simp add: tally_ok_def no_tally_def)
  from score_items_ok[OF q(2,1) this]
  have "tally_ok (length (filter (\<lambda>s. s \<noteq> []) expected)) (length (filter (\<lambda>s. s = []) expected)) T" by simp
  moreover have "length queries = length expected" using q(1) by (induction queries arbitrary: expected) auto
  then have "length queries = length (filter (\<lambda>s. s \<noteq> []) expected) + length (filter (\<lambda>s. s = []) expected)"
    using sum_length_filter_compl[of "\<lambda>s. s \<noteq> []" expected] by simp
  ultimately show ?thesis using q(3) by metis
qed

text \<open>The metrics of a report mean what their names say: whatever the dataset, the application and its answers, in a
  report that is produced every rate lies between 0 and 1, recall does not fall with the cutoff, the mean
  reciprocal rank lies between 0 and 1, and every question is counted as answerable or as unanswerable.\<close>

theorem report_metrics_in_range:
  assumes "score E i C p dataset backend name S = (Inr R, S')"
  shows "rp_recall_at_1 R \<le> rp_recall_at_3 R \<and> rp_recall_at_3 R \<le> rp_recall_at_5 R
    \<and> list_all unit_range [rp_recall_at_1 R, rp_recall_at_5 R, rp_mrr R, rp_ndcg_at_5 R, rp_paraphrase_recall_at_5 R, rp_answer_rate R,
        rp_abstention_accuracy R, rp_citation_precision R, rp_expected_term_recall R]
    \<and> rp_queries R = rp_answerable R + rp_unanswerable R"
proof -
  obtain n k T d where T: "tally_ok n k T" "make_report C backend d (n + k) n k T = Inr R"
    using score_Inr[OF assms] by blast
  have sums: "unit_range (sum_list xs / real (max n 1))" if "list_all unit_range xs" "length xs = n" for xs
    using sum_unit_range[OF that(1)] that(2) by (auto simp: unit_range_def divide_le_eq_1)
  let ?m = "real (max n 1)"
  have R: "rp_recall_at_1 R = real (tl_recall_1 T) / ?m" "rp_recall_at_3 R = real (tl_recall_3 T) / ?m"
    "rp_recall_at_5 R = real (tl_recall_5 T) / ?m" "rp_mrr R = sum_list (tl_ranks T) / ?m" "rp_ndcg_at_5 R = sum_list (tl_ndcgs T) / ?m"
    "rp_paraphrase_recall_at_5 R = mean_or_0 (tl_paraphrase T)" "rp_answer_rate R = real (tl_answered T) / ?m"
    "rp_abstention_accuracy R = real (tl_abstained T) / real (max k 1)" "rp_citation_precision R = mean_or_0 (tl_precisions T)"
    "rp_expected_term_recall R = mean_or_0 (tl_terms T)" "rp_queries R = n + k" "rp_answerable R = n" "rp_unanswerable R = k"
    using T(2) by (auto simp: make_report_def Let_def)
  have t: "tl_recall_1 T \<le> tl_recall_3 T" "tl_recall_3 T \<le> tl_recall_5 T" "tl_recall_5 T \<le> n" "tl_answered T \<le> n" "tl_abstained T \<le> k"
    "list_all unit_range (tl_ranks T)" "length (tl_ranks T) = n" "list_all unit_range (tl_ndcgs T)" "length (tl_ndcgs T) = n"
    "list_all unit_range (tl_paraphrase T)" "list_all unit_range (tl_precisions T)" "list_all unit_range (tl_terms T)"
    using T(1) by (simp_all add: tally_ok_def)
  have "tl_recall_1 T \<le> n" using t(1-3) by simp
  then have "unit_range (rp_recall_at_1 R)" "unit_range (rp_recall_at_5 R)" "unit_range (rp_answer_rate R)" "unit_range (rp_abstention_accuracy R)"
    unfolding R using t(3-5) by (simp_all only: ratio_unit_range)
  moreover have "unit_range (rp_mrr R)" "unit_range (rp_ndcg_at_5 R)" unfolding R using t(6-9) by (simp_all only: sums)
  moreover have "unit_range (rp_paraphrase_recall_at_5 R)" "unit_range (rp_citation_precision R)" "unit_range (rp_expected_term_recall R)"
    unfolding R using t(10-12) by (simp_all only: mean_unit_range)
  moreover have "rp_recall_at_1 R \<le> rp_recall_at_3 R" "rp_recall_at_3 R \<le> rp_recall_at_5 R"
    unfolding R using t(1,2) by (simp_all add: divide_right_mono)
  ultimately show ?thesis by (simp add: R)
qed

text \<open>One question about the sample document, scored.\<close>

definition scored_config :: "app_config \<Rightarrow> app_config" where
  "scored_config C = sample_config (C\<lparr>cf_keys := [(''d'', rq_caller (ask_request sample_q))], cf_max_body_bytes := 100\<rparr>)"

definition scored_world :: "world \<Rightarrow> world" where
  "scored_world W = W\<lparr>w_sha256 := \<lambda>_. ''d'', w_json_loads := \<lambda>_. Inr (JObj [(''question'', JStr sample_q)]), w_request_uuid := ''r''\<rparr>"

definition scored_state :: "app_state \<Rightarrow> app_state" where
  "scored_state S = sample_state (S\<lparr>ap_limiter := mk_rate_limiter 0 None\<rparr>)"

lemma query_route: "find_endpoint W ''POST'' ''/v1/query'' = Inr (Ask, [], True, [])"
  by (simp add: find_endpoint_def target_def urlsplit_def partition_at_def rstrip_char_def routes_def)

lemma scored_handle:
  "\<exists>resp S'. handle (scored_config C) (scored_world W) ''POST'' ''/v1/query'' [(''x-api-key'', EVAL_KEY)] ''{}'' (scored_state S)
     = (Inr (200, resp), S') \<and> jget resp ''grounded'' = JBool True"
proof -
  let ?C = "scored_config C" and ?W = "scored_world W" and ?S = "scored_state S" and ?hs = "[(''x-api-key'', EVAL_KEY)]"
  obtain resp S' where a: "answer ?C ?W False (ask_request sample_q) ?S = (Inr (200, resp), S')" "jget resp ''grounded'' = JBool True"
    using sample_answered[of "C\<lparr>cf_keys := [(''d'', rq_caller (ask_request sample_q))], cf_max_body_bytes := 100\<rparr>" ?W
        "S\<lparr>ap_limiter := mk_rate_limiter 0 None\<rparr>"] by (auto simp: scored_config_def scored_state_def)
  have h: "header ?hs ''x-api-key'' = Some EVAL_KEY" "header ?hs ''x-request-id'' = None"
  proof -
    have "lower ''x-api-key'' = ''x-api-key''" by code_simp
    then show "header ?hs ''x-api-key'' = Some EVAL_KEY" "header ?hs ''x-request-id'' = None" by (simp_all add: header_def)
  qed
  have auth: "authenticate_request ?C ?W ?hs = Inr (rq_caller (ask_request sample_q))"
    unfolding authenticate_request_def h(1)
    by (simp add: authenticate_def hash_key_def scored_config_def sample_config_def scored_world_def EVAL_KEY_def)
  have slot: "acquire_slot ?W (rq_caller (ask_request sample_q)) ?S = (Inr (), ?S)"
    by (simp add: acquire_slot_def acquire_def scored_state_def sample_state_def mk_rate_limiter_def)
  have rid: "request_id_of ?W ?hs = ''r''" by (simp add: request_id_of_def h scored_world_def py_truthy_def)
  have body: "json_body ?W ''{}'' = Inr [(''question'', JStr sample_q)]" by (simp add: json_body_def scored_world_def is_bytes_space_def)
  have "run_handler ?C ?W Ask (Some (rq_caller (ask_request sample_q))) [] [(''question'', JStr sample_q)] ''r'' [] = answer ?C ?W False (ask_request sample_q)"
    by (simp add: run_handler_def with_caller_def ask_request_def)
  then have "after_admission ?C ?W Ask (Some (rq_caller (ask_request sample_q))) [] [] ?hs ''{}'' ?S
      = (Inr (200, AList.update ''request_id'' (JStr ''r'') resp), S')"
    using a(1) by (simp add: after_admission_def body rid bind_act_def lift_res_def ret_def scored_config_def sample_config_def)
  then have "route_request ?C ?W ''POST'' ''/v1/query'' ?hs ''{}'' ?S = (Inr (200, AList.update ''request_id'' (JStr ''r'') resp), S')"
    by (simp add: route_request_def query_route serve_authenticated auth bind_act_def slot lift_res_def)
  moreover have "jget (AList.update ''request_id'' (JStr ''r'') resp) ''grounded'' = JBool True" using a(2) by (simp add: jget_def update_conv')
  ultimately show ?thesis by (simp add: handle_def)
qed

lemma sample_retrieve_ungated:
  "\<exists>found. retrieve (scored_config C) (scored_world W) (rq_caller (ask_request sample_q)) sample_q False (scored_state S) = (Inr found, scored_state S)"
proof -
  let ?p = "rq_caller (ask_request sample_q)" and ?M = "mem_run [sample_upload ''a'' ''d1'' (Some [''staff''])]"
  have "readable_list ?M ?p = [upload_chunk ''a'' ''d1'']" unfolding ask_request_def request.simps by (rule sample_readable)
  then have r: "readable_chunks ?M ?p = Inr [upload_chunk ''a'' ''d1'']" by (auto simp: readable_list_def split: sum.splits)
  have "validate_query Q sample_q ''a'' = Inr sample_q" if "max_query_length Q = 2000" for Q using that by (rule sample_valid)
  with r show ?thesis
    by (simp add: retrieve_def scored_state_def sample_state_def mk_query_pipeline_def ask_request_def evidence_def)
qed

definition one_question :: jobj where
  "one_question = [(''queries'', JList [JObj [(''relevant_sources'', JList []), (''question'', JStr sample_q)]])]"

theorem report_metrics_in_range_witness:
  "\<forall>C W S. \<exists>R S'. score \<lparr>ev_world = \<lambda>_. scored_world W, ev_latency = \<lambda>_. 1, ev_dumps = \<lambda>_. ''{}''\<rparr> 0 (scored_config C)
       (rq_caller (ask_request sample_q)) one_question ''memory'' ''d'' (scored_state S) = (Inr R, S')
     \<and> rp_unanswerable R = 1 \<and> rp_queries R = rp_answerable R + 1"
proof (intro allI)
  fix C :: app_config and W :: world and S
  let ?E = "\<lparr>ev_world = \<lambda>_. scored_world W, ev_latency = \<lambda>_. 1, ev_dumps = \<lambda>_. ''{}''\<rparr>"
  let ?p = "rq_caller (ask_request sample_q)" and ?C = "scored_config C" and ?S = "scored_state S"
  obtain resp S' where h: "handle ?C (scored_world W) ''POST'' ''/v1/query'' [(''x-api-key'', EVAL_KEY)] ''{}'' ?S = (Inr (200, resp), S')"
    "jget resp ''grounded'' = JBool True" using scored_handle by blast
  have g: "map_of resp ''grounded'' = Some (JBool True)" using h(2) by (auto simp: jget_def split: option.splits)
  have r: "\<exists>found. retrieve ?C (scored_world W) ?p sample_q False ?S = (Inr found, ?S)"
    by (rule sample_retrieve_ungated)
  obtain R where R: "score ?E 0 ?C ?p one_question ''memory'' ''d'' ?S = (Inr R, S')" "rp_unanswerable R = 1"
  proof -
    obtain found where f: "retrieve ?C (scored_world W) ?p sample_q False ?S = (Inr found, ?S)" using r by blast
    let ?item = "JObj [(''relevant_sources'', JList []), (''question'', JStr sample_q)]"
    have e: "relevant_sources ?item = Inr []" by (simp add: relevant_sources_def as_strings_def)
    obtain T where T: "score_items ?E 0 ?C ?p [?item] no_tally ?S = (Inr T, S')" "tl_latencies T = [1000]"
      using f h(1) g by (auto simp: score_item_def bind_act_def lift_res_def ret_def e post_def tally_item_def no_tally_def)
    have "percentile [1000] (1/2) = Inr 1000" "percentile [1000] (19/20) = Inr 1000"
      by (simp_all add: percentile_def py_index_def round_half_even_def Let_def)
    then obtain R where "make_report ?C ''memory'' (JStr ''d'') 1 0 1 T = Inr R" "rp_unanswerable R = 1" by (auto simp: make_report_def T(2) Let_def)
    then show thesis using T(1) that by (simp add: score_def one_question_def e bind_act_def lift_res_def)
  qed
  with report_metrics_in_range[OF R(1)] show "\<exists>R S'. score ?E 0 ?C ?p one_question ''memory'' ''d'' ?S = (Inr R, S')
     \<and> rp_unanswerable R = 1 \<and> rp_queries R = rp_answerable R + 1" by auto
qed

section \<open>The regression check\<close>

text \<open>A metric meets a limit when its reported value, rounded to four places, does.\<close>

definition meets :: "jobj \<Rightarrow> bool \<Rightarrow> string \<times> json \<Rightarrow> bool" where
  "meets values is_min = (\<lambda>(metric, bound). \<exists>v x b. map_of values metric = Some v \<and> as_number v = Inr x \<and> as_number bound = Inr b
     \<and> (if is_min then b \<le> x else x \<le> b))"

lemma violation_Nil: "violation rep values is_min l = Inr [] \<longleftrightarrow> meets values is_min l"
proof -
  obtain m bound where l: "l = (m, bound)" by (cases l)
  show ?thesis
  proof (cases "map_of values m")
    case (Some v)
    then show ?thesis by (cases "as_number v"; cases "as_number bound") (simp_all add: l violation_def meets_def not_less)
  qed (simp add: l violation_def meets_def)
qed

lemma violations_Nil:
  "(\<exists>vs. map_res (violation rep values is_min) lims = Inr vs \<and> concat vs = []) \<longleftrightarrow> list_all (meets values is_min) lims"
proof (induction lims)
  case (Cons l ls)
  have "(\<exists>vs. map_res (violation rep values is_min) (l # ls) = Inr vs \<and> concat vs = [])
    \<longleftrightarrow> violation rep values is_min l = Inr [] \<and> (\<exists>vs. map_res (violation rep values is_min) ls = Inr vs \<and> concat vs = [])"
    by auto
  with Cons violation_Nil show ?case by simp
qed simp

text \<open>The regression check passes exactly when it should: it reports no failure if and only if the backend has limits
  of the right shape and each metric named there, taken from the rounded report, is a number that is not below
  its minimum and not above its maximum; a misspelt metric never passes silently.\<close>

theorem check_report_passes:
  "check_report rep R thresholds = Inr [] \<longleftrightarrow>
    (\<exists>limits mins maxs. jget_or thresholds (rp_backend R) (JObj []) = JObj limits
      \<and> jget_or limits ''min'' (JObj []) = JObj mins \<and> jget_or limits ''max'' (JObj []) = JObj maxs
      \<and> list_all (meets (report_dict R) True) mins \<and> list_all (meets (report_dict R) False) maxs)"
proof -
  have lim: "limits_of l k = Inr d \<longleftrightarrow> jget_or l k (JObj []) = JObj d" for l k d by (auto simp: limits_of_def split: json.splits)
  have "check_report rep R thresholds = Inr [] \<longleftrightarrow>
    (\<exists>limits mins maxs below above. jget_or thresholds (rp_backend R) (JObj []) = JObj limits \<and> limits_of limits ''min'' = Inr mins
      \<and> limits_of limits ''max'' = Inr maxs \<and> map_res (violation rep (report_dict R) True) mins = Inr below
      \<and> map_res (violation rep (report_dict R) False) maxs = Inr above \<and> concat below = [] \<and> concat above = [])"
    by (auto simp: check_report_def split: json.splits)
  then show ?thesis unfolding lim using violations_Nil[of rep "report_dict R"] by metis
qed

end
