(* ===== verification/Migrate.thy ===== *)
theory Migrate
  imports Ingestion
begin

text \<open>
  The migrations (\<open>migrate.py\<close>). The schema of the database is a value of any type: what a migration script does to it,
  and what setting a password does, are parameters, as are the directory and the text of its files. The table
  \<open>applied_migrations\<close> is the list of its names, in the order of their insertion, or \<open>None\<close> while it does not exist.
  Migration scripts do not touch that table. A transaction is one step: it happens as a whole or not at all.
\<close>

section \<open>The files\<close>

definition APP_ROLE :: string where
  "APP_ROLE = ''rag_app''"

text \<open>The pattern \<open>[0-9][0-9][0-9]_*.sql\<close>.\<close>

definition is_migration_name :: "string \<Rightarrow> bool" where
  "is_migration_name name = (case name of
     a # b # c # d # rest \<Rightarrow> is_decimal a \<and> is_decimal b \<and> is_decimal c \<and> d = CHR ''_'' \<and> suffix ''.sql'' rest
   | _ \<Rightarrow> False)"

record migration_dir =
  md_names :: "string list"
  md_text :: "string \<Rightarrow> string res"

definition migration_files :: "migration_dir \<Rightarrow> string list res" where
  "migration_files dir =
     (let names = sort (filter is_migration_name (md_names dir)); numbers = map (take 3) names in
      if distinct numbers then Inr names else Inl (RuntimeError ''migration numbers must be unique''))"

section \<open>Applying\<close>

record 's migration_db =
  db_applied :: "string list option"
  db_schema :: 's

record 's sql_ops =
  so_execute :: "string \<Rightarrow> 's \<Rightarrow> 's res"
  so_set_password :: "string \<Rightarrow> string \<Rightarrow> 's \<Rightarrow> 's res"

text \<open>The first transaction: the names that are recorded, in a table that now exists.\<close>

definition read_applied :: "'s migration_db \<Rightarrow> string list \<times> 's migration_db" where
  "read_applied db = (case db_applied db of None \<Rightarrow> ([], db\<lparr>db_applied := Some []\<rparr>) | Some names \<Rightarrow> (names, db))"

text \<open>The transaction of one migration. The name is the primary key.\<close>

definition insert_name :: "string \<Rightarrow> string list option \<Rightarrow> string list res" where
  "insert_name name applied = (case applied of
     None \<Rightarrow> Inl (OtherError ''UndefinedTable'')
   | Some names \<Rightarrow> if name \<in> set names then Inl (OtherError ''UniqueViolation'') else Inr (names @ [name]))"

definition apply_one :: "'s sql_ops \<Rightarrow> migration_dir \<Rightarrow> string \<Rightarrow> 's migration_db \<Rightarrow> 's migration_db res" where
  "apply_one Q dir name db =
     bind_res (md_text dir name) (\<lambda>sql.
     bind_res (so_execute Q sql (db_schema db)) (\<lambda>schema.
     bind_res (insert_name name (db_applied db)) (\<lambda>names.
     Inr (db\<lparr>db_applied := Some names, db_schema := schema\<rparr>))))"

fun apply_loop :: "'s sql_ops \<Rightarrow> migration_dir \<Rightarrow> string list \<Rightarrow> string list \<Rightarrow> string list \<Rightarrow> 's migration_db \<Rightarrow> string list res \<times> 's migration_db" where
  "apply_loop Q dir applied [] newly_applied db = (Inr newly_applied, db)"
| "apply_loop Q dir applied (name # names) newly_applied db =
     (if name \<in> set applied then apply_loop Q dir applied names newly_applied db
      else case apply_one Q dir name db of
        Inl e \<Rightarrow> (Inl e, db)
      | Inr db' \<Rightarrow> apply_loop Q dir applied names (newly_applied @ [name]) db')"

definition apply_migrations :: "'s sql_ops \<Rightarrow> migration_dir \<Rightarrow> 's migration_db \<Rightarrow> string list res \<times> 's migration_db" where
  "apply_migrations Q dir db = (case read_applied db of (applied, db1) \<Rightarrow>
     case migration_files dir of Inl e \<Rightarrow> (Inl e, db1) | Inr names \<Rightarrow> apply_loop Q dir applied names [] db1)"

definition set_app_password :: "'s sql_ops \<Rightarrow> string \<Rightarrow> 's migration_db \<Rightarrow> 's migration_db res" where
  "set_app_password Q password db =
     bind_res (so_set_password Q APP_ROLE password (db_schema db)) (\<lambda>schema. Inr (db\<lparr>db_schema := schema\<rparr>))"

text \<open>\<open>main\<close>: the exit status and the line printed; \<open>dbs\<close> are the databases behind the URLs.\<close>

definition migrate_main ::
  "'s sql_ops \<Rightarrow> migration_dir \<Rightarrow> environ \<Rightarrow> (string \<Rightarrow> 's migration_db) \<Rightarrow> (int \<times> string) res \<times> (string \<Rightarrow> 's migration_db)" where
  "migrate_main Q dir env dbs =
     (if \<not> py_truthy (env ''RAG_OWNER_DATABASE_URL'') then (Inr (2, ''RAG_OWNER_DATABASE_URL is required''), dbs)
      else let dsn = the (env ''RAG_OWNER_DATABASE_URL''); password = env ''RAG_APP_DB_PASSWORD'' in
        case apply_migrations Q dir (dbs dsn) of
          (Inl e, db) \<Rightarrow> (Inl e, dbs(dsn := db))
        | (Inr applied, db) \<Rightarrow>
            (case (if py_truthy password then set_app_password Q (the password) db else Inr db) of
               Inl e \<Rightarrow> (Inl e, dbs(dsn := db))
             | Inr db' \<Rightarrow> (Inr (0, ''applied '' @ show_nat (length applied) @ '' migration(s): '' @
                 (if applied = [] then ''none pending'' else join '', '' applied)), dbs(dsn := db'))))"

section \<open>One deploy\<close>

text \<open>The migrations \<open>names\<close>, one transaction each.\<close>

fun apply_all :: "'s sql_ops \<Rightarrow> migration_dir \<Rightarrow> string list \<Rightarrow> 's migration_db \<Rightarrow> 's migration_db res" where
  "apply_all Q dir [] db = Inr db"
| "apply_all Q dir (name # names) db = bind_res (apply_one Q dir name db) (apply_all Q dir names)"

lemma apply_all_append: "apply_all Q dir (xs @ ys) db = bind_res (apply_all Q dir xs db) (apply_all Q dir ys)"
proof (induction xs arbitrary: db)
  case (Cons x xs)
  then show ?case by (cases "apply_one Q dir x db") simp_all
qed simp

lemma apply_one_applied: "apply_one Q dir name db = Inr db' \<Longrightarrow> \<exists>names. db_applied db = Some names \<and> name \<notin> set names \<and> db_applied db' = Some (names @ [name])"
  by (auto simp: apply_one_def insert_name_def split: option.splits if_splits)

lemma apply_all_applied:
  "apply_all Q dir names db = Inr db' \<Longrightarrow> db_applied db = Some old \<Longrightarrow> db_applied db' = Some (old @ names)"
  by (induction names arbitrary: db old) (auto dest!: apply_one_applied)

lemma apply_all_cong:
  "(\<And>name. name \<in> set names \<Longrightarrow> md_text dir name = md_text dir' name) \<Longrightarrow> apply_all Q dir names db = apply_all Q dir' names db"
proof (induction names arbitrary: db)
  case (Cons name names)
  then have "apply_one Q dir name db = apply_one Q dir' name db" by (simp add: apply_one_def)
  with Cons show ?case by (cases "apply_one Q dir' name db") simp_all
qed simp

text \<open>The loop applies the pending migrations in order, up to the first that fails.\<close>

lemma apply_loop_Inr_iff:
  "apply_loop Q dir applied names newly db = (Inr out, db') \<longleftrightarrow>
    (let pending = filter (\<lambda>n. n \<notin> set applied) names in out = newly @ pending \<and> apply_all Q dir pending db = Inr db')"
proof (induction names arbitrary: newly db)
  case (Cons name names)
  then show ?case by (cases "apply_one Q dir name db") (auto split: if_splits)
qed auto

lemma apply_loop_Inl:
  "apply_loop Q dir applied names newly db = (Inl e, db') \<Longrightarrow>
    \<exists>before name rest. filter (\<lambda>n. n \<notin> set applied) names = before @ name # rest
      \<and> apply_all Q dir before db = Inr db' \<and> apply_one Q dir name db' = Inl e"
proof (induction names arbitrary: newly db)
  case (Cons name names)
  show ?case
  proof (cases "name \<in> set applied")
    case False
    show ?thesis
    proof (cases "apply_one Q dir name db")
      case (Inl e')
      with False Cons.prems have "filter (\<lambda>n. n \<notin> set applied) (name # names) = [] @ name # filter (\<lambda>n. n \<notin> set applied) names
        \<and> apply_all Q dir [] db = Inr db' \<and> apply_one Q dir name db' = Inl e" by simp
      then show ?thesis by blast
    next
      case (Inr db1)
      with False Cons.prems have "apply_loop Q dir applied names (newly @ [name]) db1 = (Inl e, db')" by simp
      from Cons.IH[OF this] obtain before name' rest where
        "filter (\<lambda>n. n \<notin> set applied) names = before @ name' # rest" "apply_all Q dir before db1 = Inr db'" "apply_one Q dir name' db' = Inl e"
        by blast
      then have "filter (\<lambda>n. n \<notin> set applied) (name # names) = (name # before) @ name' # rest
        \<and> apply_all Q dir (name # before) db = Inr db' \<and> apply_one Q dir name' db' = Inl e" using False Inr by simp
      then show ?thesis by blast
    qed
  qed (use Cons in simp)
qed simp

lemma read_applied_fst: "db_applied (snd (read_applied db)) = Some (fst (read_applied db))"
  by (simp add: read_applied_def split: option.split)

lemma read_applied_Some: "db_applied db = Some names \<Longrightarrow> read_applied db = (names, db)"
  by (simp add: read_applied_def)

lemma migration_files_distinct: "migration_files dir = Inr names \<Longrightarrow> distinct names"
  by (auto simp: migration_files_def distinct_map split: if_splits)

lemma apply_migrations_Inr_iff:
  assumes "migration_files dir = Inr names"
  shows "apply_migrations Q dir db = (Inr newly, db') \<longleftrightarrow>
    newly = filter (\<lambda>n. n \<notin> set (fst (read_applied db))) names \<and> apply_all Q dir newly (snd (read_applied db)) = Inr db'"
  using assms by (auto simp: apply_migrations_def apply_loop_Inr_iff split: prod.split)

text \<open>C27. Deployment is resumable and idempotent. When a deploy stops at a failing migration, a second deploy of the
  corrected directory leaves the database that one deploy of the corrected directory would have left, and reports
  exactly the migrations the first one did not get to; a third deploy then changes nothing and reports none.\<close>

theorem migrations_resume:
  fixes db :: "'s migration_db"
  assumes "migration_files dir = Inr names" "md_names dir' = md_names dir"
    and "apply_migrations Q dir db = (Inl e, db1)"
    and "\<And>name. name \<in> set (the (db_applied db1)) \<Longrightarrow> md_text dir' name = md_text dir name"
    and "apply_migrations Q dir' db1 = (Inr newly, db2)"
  shows "\<exists>before. apply_migrations Q dir' db = (Inr (before @ newly), db2)
    \<and> db_applied db1 = Some (fst (read_applied db) @ before) \<and> newly \<noteq> []
    \<and> apply_migrations Q dir' db2 = (Inr [], db2)"
proof -
  let ?old = "fst (read_applied db)" and ?db = "snd (read_applied db)"
  have files: "migration_files dir' = Inr names" using assms(1,2) by (simp add: migration_files_def)
  obtain before name rest where b: "filter (\<lambda>n. n \<notin> set ?old) names = before @ name # rest" "apply_all Q dir before ?db = Inr db1"
    using assms(1,3) apply_loop_Inl by (fastforce simp: apply_migrations_def split: prod.splits)
  have applied: "db_applied db1 = Some (?old @ before)" using apply_all_applied[OF b(2) read_applied_fst] .
  have dist: "distinct (before @ name # rest)" using migration_files_distinct[OF assms(1)] b(1) by (metis distinct_filter)
  have "filter (\<lambda>n. n \<notin> set (?old @ before)) names = filter (\<lambda>n. n \<notin> set before) (before @ name # rest)"
    by (simp flip: b(1))
  also have "\<dots> = name # rest" using dist by (auto simp: filter_empty_conv filter_id_conv)
  finally have pending: "filter (\<lambda>n. n \<notin> set (?old @ before)) names = name # rest" .
  note run = assms(5)[unfolded apply_migrations_Inr_iff[OF files] read_applied_Some[OF applied] fst_conv snd_conv]
  have second: "newly = name # rest" using conjunct1[OF run] pending by (rule trans)
  have rest: "apply_all Q dir' (name # rest) db1 = Inr db2" using conjunct2[OF run] unfolding second .
  have "apply_all Q dir' before ?db = Inr db1"
    using b(2) apply_all_cong[of before dir' dir Q ?db] assms(4) applied by simp
  then have whole: "apply_all Q dir' (before @ name # rest) ?db = Inr db2" using rest by (simp add: apply_all_append)
  then have once: "apply_migrations Q dir' db = (Inr (before @ newly), db2)"
    unfolding apply_migrations_Inr_iff[OF files] b(1) second by simp
  have "db_applied db2 = Some (?old @ before @ name # rest)" using apply_all_applied[OF whole read_applied_fst] by simp
  moreover have "set names \<subseteq> set ?old \<union> set (filter (\<lambda>n. n \<notin> set ?old) names)" by auto
  then have "set names \<subseteq> set (?old @ before @ name # rest)" unfolding b(1) by simp
  ultimately have "filter (\<lambda>n. n \<notin> set (fst (read_applied db2))) names = []" "snd (read_applied db2) = db2"
    unfolding filter_empty_conv by (auto simp: read_applied_Some)
  then have "apply_migrations Q dir' db2 = (Inr [], db2)" unfolding apply_migrations_Inr_iff[OF files] by simp
  with once applied second show ?thesis by blast
qed

text \<open>Two migrations, the second of which is broken at first.\<close>

definition sample_dir :: "string \<Rightarrow> migration_dir" where
  "sample_dir second = \<lparr>md_names = [''002_b.sql'', ''README'', ''001_a.sql''],
     md_text = (\<lambda>name. Inr (if name = ''001_a.sql'' then ''A'' else second))\<rparr>"

definition sample_ops :: "string list sql_ops" where
  "sample_ops = \<lparr>so_execute = (\<lambda>sql s. if sql = ''bad'' then Inl (OtherError ''SyntaxError'') else Inr (s @ [sql])),
     so_set_password = (\<lambda>role password s. Inr s)\<rparr>"

lemma sample_files: "migration_files (sample_dir second) = Inr [''001_a.sql'', ''002_b.sql'']"
proof -
  have "migration_files (sample_dir ''B'') = Inr [''001_a.sql'', ''002_b.sql'']" by code_simp
  then show ?thesis by (simp add: migration_files_def sample_dir_def)
qed

theorem migrations_resume_witness:
  "\<exists>before. apply_migrations sample_ops (sample_dir ''B'') \<lparr>db_applied = None, db_schema = []\<rparr>
      = (Inr (before @ [''002_b.sql'']), \<lparr>db_applied = Some [''001_a.sql'', ''002_b.sql''], db_schema = [''A'', ''B'']\<rparr>)"
proof -
  let ?db = "\<lparr>db_applied = None, db_schema = []\<rparr>" and ?db1 = "\<lparr>db_applied = Some [''001_a.sql''], db_schema = [''A'']\<rparr>"
  have "apply_migrations sample_ops (sample_dir ''bad'') ?db = (Inl (OtherError ''SyntaxError''), ?db1)"
    unfolding apply_migrations_def sample_files
    by (simp add: read_applied_def apply_one_def insert_name_def sample_ops_def sample_dir_def)
  moreover have "apply_migrations sample_ops (sample_dir ''B'') ?db1
      = (Inr [''002_b.sql''], \<lparr>db_applied = Some [''001_a.sql'', ''002_b.sql''], db_schema = [''A'', ''B'']\<rparr>)"
    unfolding apply_migrations_def sample_files
    by (simp add: read_applied_def apply_one_def insert_name_def sample_ops_def sample_dir_def)
  ultimately show ?thesis
    using migrations_resume[of "sample_dir ''bad''" "[''001_a.sql'', ''002_b.sql'']" "sample_dir ''B''" sample_ops ?db] sample_files
    by (fastforce simp: sample_dir_def)
qed

section \<open>Concurrent deploys\<close>

text \<open>
  Several processes run \<open>apply_migrations\<close> against one database. Every transaction is one step of one process: reading
  the recorded names, then one migration at a time.
\<close>

datatype deploy =
    Starting
  | Applying "string list" "string list" "string list"
  | Applied "string list"
  | Failed exn

fun advance :: "'s sql_ops \<Rightarrow> migration_dir \<Rightarrow> 's migration_db \<Rightarrow> deploy \<Rightarrow> 's migration_db \<times> deploy" where
  "advance Q dir db Starting = (case read_applied db of (applied, db1) \<Rightarrow>
     (case migration_files dir of Inl e \<Rightarrow> (db1, Failed e) | Inr names \<Rightarrow> (db1, Applying applied names [])))"
| "advance Q dir db (Applying applied [] newly) = (db, Applied newly)"
| "advance Q dir db (Applying applied (name # names) newly) =
     (if name \<in> set applied then (db, Applying applied names newly)
      else case apply_one Q dir name db of Inl e \<Rightarrow> (db, Failed e) | Inr db' \<Rightarrow> (db', Applying applied names (newly @ [name])))"
| "advance Q dir db d = (db, d)"

inductive deploy_step :: "'s sql_ops \<Rightarrow> migration_dir \<Rightarrow> 's migration_db \<times> deploy list \<Rightarrow> 's migration_db \<times> deploy list \<Rightarrow> bool"
  for Q dir where
  deploy_step: "i < length ds \<Longrightarrow> advance Q dir db (ds ! i) = (db', d') \<Longrightarrow> deploy_step Q dir (db, ds) (db', ds[i := d'])"

inductive_cases deploy_stepE: "deploy_step Q dir (db, ds) Y"

text \<open>How far a process can be while the first \<open>k\<close> migrations are recorded.\<close>

fun deploy_ok :: "string list \<Rightarrow> nat \<Rightarrow> deploy \<Rightarrow> bool" where
  "deploy_ok names k (Applying applied rest newly) \<longleftrightarrow> set applied \<subseteq> set (take k names) \<and> (\<exists>m\<le>k. rest = drop m names)"
| "deploy_ok names k (Applied newly) \<longleftrightarrow> length names \<le> k"
| "deploy_ok names k _ \<longleftrightarrow> True"

lemma deploy_ok_mono: "deploy_ok names k d \<Longrightarrow> k \<le> k' \<Longrightarrow> deploy_ok names k' d"
  using set_take_subset_set_take[of k k' names] by (cases "(names, k, d)" rule: deploy_ok.cases) (auto intro: le_trans)

definition deploys_ok :: "'s sql_ops \<Rightarrow> migration_dir \<Rightarrow> string list \<Rightarrow> nat \<Rightarrow> 's migration_db \<Rightarrow> 's migration_db \<times> deploy list \<Rightarrow> bool" where
  "deploys_ok Q dir names j db0 X \<longleftrightarrow> (\<exists>k. j \<le> k \<and> k \<le> length names \<and> fst (read_applied (fst X)) = take k names
     \<and> apply_all Q dir (drop j (take k names)) (snd (read_applied db0)) = Inr (snd (read_applied (fst X)))
     \<and> list_all (deploy_ok names k) (snd X))"

lemma list_all_update: "list_all P xs \<Longrightarrow> P x \<Longrightarrow> list_all P (xs[i := x])"
  using set_update_subset_insert[of xs i x] by (auto simp: list_all_iff)

lemma read_applied_twice [simp]: "read_applied (snd (read_applied db)) = read_applied db"
  by (simp add: read_applied_def split: option.split)

text \<open>A process that applies a migration applies the next one.\<close>

lemma apply_next:
  assumes "distinct names" "fst (read_applied db) = take k names" "m \<le> k" "drop m names = name # rest" "apply_one Q dir name db = Inr db'"
  shows "m = k \<and> k < length names \<and> fst (read_applied db') = take (Suc k) names \<and> apply_all Q dir [name] (snd (read_applied db)) = Inr (snd (read_applied db'))"
proof -
  obtain old where old: "db_applied db = Some old" "name \<notin> set old" "db_applied db' = Some (old @ [name])"
    using apply_one_applied[OF assms(5)] by blast
  have m: "m < length names" "names ! m = name" using assms(4) by (metis drop_all linorder_not_less list.distinct(1), metis nth_via_drop)
  have r: "read_applied db = (old, db)" "read_applied db' = (old @ [name], db')" using old by (simp_all add: read_applied_def)
  then have t: "old = take k names" using assms(2) by simp
  have "m = k"
  proof (rule ccontr)
    assume "m \<noteq> k"
    then have "name \<in> set (take k names)" using assms(3) m by (auto simp: in_set_conv_nth intro!: exI[of _ m])
    then show False using old(2) t by simp
  qed
  then show ?thesis using m t assms(5) by (simp add: r take_Suc_conv_app_nth)
qed

lemma drop_nth:
  assumes "drop m xs = x # ys"
  shows "m < length xs \<and> xs ! m = x \<and> ys = drop (Suc m) xs"
proof -
  have "m < length xs" using assms by (metis drop_all linorder_not_less list.distinct(1))
  with assms show ?thesis by (simp add: Cons_nth_drop_Suc[symmetric])
qed

lemma deploys_ok_keep:
  assumes "deploys_ok Q dir names j db0 (db, ds)" "read_applied db' = read_applied db"
    and "\<And>k. fst (read_applied db) = take k names \<Longrightarrow> k \<le> length names \<Longrightarrow> list_all (deploy_ok names k) ds \<Longrightarrow> deploy_ok names k d'"
  shows "deploys_ok Q dir names j db0 (db', ds[i := d'])"
proof -
  obtain k where k: "j \<le> k" "k \<le> length names" "fst (read_applied db) = take k names"
    "apply_all Q dir (drop j (take k names)) (snd (read_applied db0)) = Inr (snd (read_applied db))" "list_all (deploy_ok names k) ds"
    using assms(1) by (auto simp: deploys_ok_def)
  have "list_all (deploy_ok names k) (ds[i := d'])" using assms(3)[OF k(3,2,5)] k(5) by (rule list_all_update[rotated])
  with k show ?thesis unfolding deploys_ok_def by (intro exI[of _ k]) (simp add: assms(2))
qed

lemma deploys_ok_apply:
  assumes "distinct names" "deploys_ok Q dir names j db0 (db, ds)" "i < length ds" "ds ! i = Applying applied (name # rest) newly"
    and "apply_one Q dir name db = Inr db1"
  shows "deploys_ok Q dir names j db0 (db1, ds[i := Applying applied rest (newly @ [name])])"
proof -
  obtain k where k: "j \<le> k" "k \<le> length names" "fst (read_applied db) = take k names"
    "apply_all Q dir (drop j (take k names)) (snd (read_applied db0)) = Inr (snd (read_applied db))" "list_all (deploy_ok names k) ds"
    using assms(2) by (auto simp: deploys_ok_def)
  have "deploy_ok names k (ds ! i)" using k(5) assms(3) by (simp add: list_all_length)
  then obtain m where m: "m \<le> k" "drop m names = name # rest" "set applied \<subseteq> set (take k names)" using assms(4) by auto
  note n = apply_next[OF assms(1) k(3) m(1,2) assms(5)]
  have split: "drop j (take (Suc k) names) = drop j (take k names) @ [name]"
    using n k(1,2) m(2) by (simp add: take_Suc_conv_app_nth nth_via_drop)
  have all: "apply_all Q dir (drop j (take (Suc k) names)) (snd (read_applied db0)) = Inr (snd (read_applied db1))"
    unfolding split apply_all_append k(4) using n by simp
  have "deploy_ok names (Suc k) (Applying applied rest (newly @ [name]))"
    using drop_nth[OF m(2)] n m(3) set_take_subset_set_take[of k "Suc k" names] by auto
  moreover have "list_all (deploy_ok names (Suc k)) ds" using k(5) deploy_ok_mono[of names k _ "Suc k"] by (auto simp: list_all_iff)
  ultimately have "list_all (deploy_ok names (Suc k)) (ds[i := Applying applied rest (newly @ [name])])" by (rule list_all_update[rotated])
  then show ?thesis unfolding deploys_ok_def using all n k(1) by (intro exI[of _ "Suc k"]) simp
qed

lemma deploys_ok_step:
  assumes "distinct names" "migration_files dir = Inr names" "deploys_ok Q dir names j db0 X" "deploy_step Q dir X Y"
  shows "deploys_ok Q dir names j db0 Y"
  using assms(4)
proof cases
  case (deploy_step i ds db db' d')
  note ok = assms(3)[unfolded deploy_step(1)] and adv = deploy_step(4)
  have di: "deploy_ok names k (ds ! i)" if "list_all (deploy_ok names k) ds" for k using that deploy_step(3) by (simp add: list_all_length)
  note keep = deploys_ok_keep[OF ok, of db' d' i, folded deploy_step(2)]
  show ?thesis
  proof (cases "(Q, dir, db, ds ! i)" rule: advance.cases)
    case (1 Q' dir' db'')
    then have "db' = snd (read_applied db)" "d' = Applying (fst (read_applied db)) names []"
      using adv assms(2) by (auto split: prod.splits)
    then show ?thesis by (intro keep) (auto intro: exI[of _ 0])
  next
    case (2 Q' dir' db'' applied newly)
    then show ?thesis using adv di by (intro keep) (fastforce simp: Suc_le_eq)+
  next
    case (3 Q' dir' db'' applied name rest newly)
    show ?thesis
    proof (cases "name \<in> set applied")
      case True
      have "deploy_ok names k (Applying applied rest newly)" if l: "list_all (deploy_ok names k) ds" for k
      proof -
        obtain m where m: "m \<le> k" "drop m names = name # rest" "set applied \<subseteq> set (take k names)" using di[OF l] 3 by auto
        have "name \<in> set (take k names)" using True m(3) by blast
        then have "m \<noteq> k" using drop_nth[OF m(2)] assms(1) by (auto simp: in_set_conv_nth nth_eq_iff_index_eq)
        then show ?thesis using m drop_nth[OF m(2)] by (auto simp: Suc_le_eq intro!: exI[of _ "Suc m"])
      qed
      then show ?thesis using True 3 adv by (intro keep) auto
    next
      case False
      show ?thesis
      proof (cases "apply_one Q dir name db")
        case (Inl e)
        with False 3 adv show ?thesis by (intro keep) auto
      next
        case (Inr db1)
        with False 3 adv deploys_ok_apply[OF assms(1) ok deploy_step(3)] show ?thesis by (auto simp: deploy_step(2))
      qed
    qed
  qed (use adv keep di in auto)
qed

text \<open>C25. Under every interleaving of any number of deploys of one directory, each migration is executed at most once
  and in order: the recorded names are a prefix of the files, the schema is what executing the part of that prefix
  that was new gives, and when some deploy has reported success the prefix is the whole directory.\<close>

theorem concurrent_deploys_apply_once:
  fixes db0 :: "'s migration_db"
  assumes "migration_files dir = Inr names" "fst (read_applied db0) = take j names" "j \<le> length names"
    and "(deploy_step Q dir)\<^sup>*\<^sup>* (db0, replicate n Starting) (db, ds)"
  shows "\<exists>k. fst (read_applied db) = take k names \<and> j \<le> k
    \<and> apply_all Q dir (drop j (take k names)) (snd (read_applied db0)) = Inr (snd (read_applied db))
    \<and> (\<forall>newly. Applied newly \<in> set ds \<longrightarrow> take k names = names)"
proof -
  have "deploys_ok Q dir names j db0 Y" if "(deploy_step Q dir)\<^sup>*\<^sup>* X Y" "deploys_ok Q dir names j db0 X" for X Y
    using that by (induction rule: rtranclp_induct) (auto intro: deploys_ok_step[OF migration_files_distinct[OF assms(1)] assms(1)])
  moreover have "deploys_ok Q dir names j db0 (db0, replicate n Starting)"
    using assms(2,3) by (auto simp: deploys_ok_def list_all_iff intro!: exI[of _ j])
  ultimately have "deploys_ok Q dir names j db0 (db, ds)" using assms(4) by blast
  then show ?thesis by (fastforce simp: deploys_ok_def list_all_iff)
qed

theorem concurrent_deploys_apply_once_witness:
  "\<exists>k. [''001_a.sql''] = take k [''001_a.sql'', ''002_b.sql''] \<and> apply_all sample_ops (sample_dir ''bad'') (take k [''001_a.sql'', ''002_b.sql''])
     \<lparr>db_applied = Some [], db_schema = []\<rparr> = Inr \<lparr>db_applied = Some [''001_a.sql''], db_schema = [''A'']\<rparr>"
proof -
  let ?Q = sample_ops and ?dir = "sample_dir ''bad''" and ?names = "[''001_a.sql'', ''002_b.sql'']"
  let ?db0 = "\<lparr>db_applied = None, db_schema = []\<rparr>" and ?db1 = "\<lparr>db_applied = Some [], db_schema = []\<rparr>"
    and ?db2 = "\<lparr>db_applied = Some [''001_a.sql''], db_schema = [''A'']\<rparr>"
  have "deploy_step ?Q ?dir (?db0, replicate 2 Starting) (?db1, (replicate 2 Starting)[0 := Applying [] ?names []])"
    by (rule deploy_step.intros) (simp_all add: read_applied_def sample_files)
  moreover have "deploy_step ?Q ?dir (?db1, [Applying [] ?names [], Starting]) (?db2, [Applying [] ?names [], Starting][0 := Applying [] [''002_b.sql''] [''001_a.sql'']])"
    by (rule deploy_step.intros) (simp_all add: apply_one_def insert_name_def sample_ops_def sample_dir_def)
  ultimately have "(deploy_step ?Q ?dir)\<^sup>*\<^sup>* (?db0, replicate 2 Starting) (?db2, [Applying [] [''002_b.sql''] [''001_a.sql''], Starting])"
    by (simp add: numeral_2_eq_2)
  from concurrent_deploys_apply_once[OF sample_files _ _ this, of 0]
  show ?thesis by (auto simp: read_applied_def)
qed

text \<open>The advisory lock does not serialize deploys: it is taken in the first transaction and released with it, before
  any migration runs. Two deploys that both start before the first migration is recorded can therefore end with
  a unique violation in one of them, although every migration script is right.\<close>

theorem concurrent_deploy_fails:
  assumes "migration_files dir = Inr (name # names)" "fst (read_applied db) = []"
    and "md_text dir name = Inr sql" "\<And>s. \<exists>s'. so_execute Q sql s = Inr s'"
  shows "\<exists>db' d. (deploy_step Q dir)\<^sup>*\<^sup>* (db, [Starting, Starting]) (db', [d, Failed (OtherError ''UniqueViolation'')])"
proof -
  obtain db1 where r1: "read_applied db = ([], db1)" using assms(2) by (metis prod.collapse)
  let ?db1 = db1 and ?todo = "Applying [] (name # names) []" and ?step = "deploy_step Q dir"
  have r: "read_applied db = ([], db1)" "read_applied db1 = ([], db1)" using r1 read_applied_twice[of db] by simp_all
  obtain s1 where s1: "so_execute Q sql (db_schema ?db1) = Inr s1" using assms(4) by blast
  obtain s2 where s2: "so_execute Q sql s1 = Inr s2" using assms(4) by blast
  let ?db2 = "?db1\<lparr>db_applied := Some [name], db_schema := s1\<rparr>"
  have none: "db_applied ?db1 = Some []" using read_applied_fst[of db] r1 by simp
  have one: "apply_one Q dir name ?db1 = Inr ?db2" by (simp add: apply_one_def insert_name_def assms(3) s1 none)
  have two: "apply_one Q dir name ?db2 = Inl (OtherError ''UniqueViolation'')" by (simp add: apply_one_def insert_name_def assms(3) s2)
  have "?step (db, [Starting, Starting]) (?db1, [Starting, Starting][0 := ?todo])"
    by (rule deploy_step.intros) (use r assms(1) in simp_all)
  then have a: "?step (db, [Starting, Starting]) (?db1, [?todo, Starting])" by simp
  have "?step (?db1, [?todo, Starting]) (?db1, [?todo, Starting][1 := ?todo])"
    by (rule deploy_step.intros) (use r(2) assms(1) in simp_all)
  then have b: "?step (?db1, [?todo, Starting]) (?db1, [?todo, ?todo])" by simp
  have "?step (?db1, [?todo, ?todo]) (?db2, [?todo, ?todo][0 := Applying [] names [name]])"
    by (rule deploy_step.intros) (simp_all add: one)
  then have c: "?step (?db1, [?todo, ?todo]) (?db2, [Applying [] names [name], ?todo])" by simp
  have "?step (?db2, [Applying [] names [name], ?todo]) (?db2, [Applying [] names [name], ?todo][1 := Failed (OtherError ''UniqueViolation'')])"
    by (rule deploy_step.intros) (simp_all add: two)
  then have d: "?step (?db2, [Applying [] names [name], ?todo]) (?db2, [Applying [] names [name], Failed (OtherError ''UniqueViolation'')])" by simp
  from a b c d show ?thesis by (meson converse_rtranclp_into_rtranclp rtranclp.rtrancl_refl)
qed

theorem concurrent_deploy_fails_witness:
  "\<exists>db' d. (deploy_step sample_ops (sample_dir ''B''))\<^sup>*\<^sup>* (\<lparr>db_applied = None, db_schema = []\<rparr>, [Starting, Starting])
     (db', [d, Failed (OtherError ''UniqueViolation'')])"
  by (rule concurrent_deploy_fails[OF sample_files, where sql = "''A''"])
    (simp_all add: read_applied_def sample_dir_def sample_ops_def)

text \<open>One deploy that runs alone does what \<open>apply_migrations\<close> does.\<close>

lemma lone_deploy_loop:
  "\<exists>d db'. (deploy_step Q dir)\<^sup>*\<^sup>* (db, [Applying applied names newly]) (db', [d]) \<and> db' = snd (apply_loop Q dir applied names newly db)
     \<and> d = (case fst (apply_loop Q dir applied names newly db) of Inl e \<Rightarrow> Failed e | Inr out \<Rightarrow> Applied out)"
proof (induction names arbitrary: newly db)
  case Nil
  have "deploy_step Q dir (db, [Applying applied [] newly]) (db, [Applying applied [] newly][0 := Applied newly])"
    by (rule deploy_step.intros) simp_all
  then show ?case by auto
next
  case (Cons name names)
  obtain db' d where s: "advance Q dir db (Applying applied (name # names) newly) = (db', d)" by fastforce
  have step: "deploy_step Q dir (db, [Applying applied (name # names) newly]) (db', [d])"
    using deploy_step.intros[of 0 "[Applying applied (name # names) newly]" Q dir db db' d] s by (simp del: advance.simps)
  show ?case
  proof (cases "d = Applying applied names (if name \<in> set applied then newly else newly @ [name])")
    case True
    with s have "apply_loop Q dir applied (name # names) newly db = apply_loop Q dir applied names (if name \<in> set applied then newly else newly @ [name]) db'"
      by (auto split: if_splits sum.splits)
    with Cons.IH[of db' "if name \<in> set applied then newly else newly @ [name]"] step True show ?thesis
      by (metis (no_types, lifting) converse_rtranclp_into_rtranclp)
  next
    case False
    with s obtain e where "apply_one Q dir name db = Inl e" "name \<notin> set applied" "d = Failed e" "db' = db"
      by (auto split: if_splits sum.splits)
    with step show ?thesis by auto
  qed
qed

theorem lone_deploy:
  "\<exists>db' d. (deploy_step Q dir)\<^sup>*\<^sup>* (db, [Starting]) (db', [d]) \<and> apply_migrations Q dir db =
     (case d of Applied newly \<Rightarrow> Inr newly | Failed e \<Rightarrow> Inl e | _ \<Rightarrow> Inl (OtherError []), db')"
proof -
  obtain db1 d1 where s: "advance Q dir db Starting = (db1, d1)" by fastforce
  have step: "deploy_step Q dir (db, [Starting]) (db1, [d1])"
    using deploy_step.intros[of 0 "[Starting]" Q dir db db1 d1] s by (simp del: advance.simps)
  show ?thesis
  proof (cases "migration_files dir")
    case (Inl e)
    with s have "d1 = Failed e" "apply_migrations Q dir db = (Inl e, db1)" by (auto simp: apply_migrations_def split: prod.splits)
    with step show ?thesis by (intro exI[of _ db1] exI[of _ "Failed e"]) auto
  next
    case (Inr names)
    obtain applied where a: "d1 = Applying applied names []" "apply_migrations Q dir db = apply_loop Q dir applied names [] db1"
      using s Inr by (auto simp: apply_migrations_def split: prod.splits)
    obtain out db2 where o: "apply_loop Q dir applied names [] db1 = (out, db2)" by fastforce
    have run: "(deploy_step Q dir)\<^sup>*\<^sup>* (db, [Starting]) (db2, [case out of Inl e \<Rightarrow> Failed e | Inr out \<Rightarrow> Applied out])"
      using lone_deploy_loop[of Q dir db1 applied names "[]"] step a(1) o by (auto intro: converse_rtranclp_into_rtranclp)
    show ?thesis by (intro exI conjI, rule run) (simp add: a(2) o split: sum.split)
  qed
qed

end
