(* ===== verification/Scripts.thy ===== *)
theory Scripts
  imports Auth Ingestion
begin

text \<open>
  The operator's scripts: \<open>scripts/create_api_key.py\<close>, which makes a key and its entry of the key file, and
  \<open>scripts/deploy_render.py\<close>, which creates or updates the hosted service. Files hold JSON values, the random token is a
  parameter, and so is the hosting service: a function from a request and its state to a response and the next state.
  \<open>sys.exit(message)\<close> is an error with that message.
\<close>

section \<open>Creating an API key\<close>

record key_args =
  ka_tenant :: string
  ka_user :: string
  ka_groups :: string
  ka_name :: string
  ka_keys_file :: "string option"

definition parse_groups :: "string \<Rightarrow> string list" where
  "parse_groups s = filter (\<lambda>g. g \<noteq> []) (map strip (split_on CHR '','' s))"

definition key_entry :: "(bytes \<Rightarrow> string) \<Rightarrow> string \<Rightarrow> key_args \<Rightarrow> jobj" where
  "key_entry sha256 key A =
     [(''name'', JStr (if ka_name A \<noteq> [] then ka_name A else ka_tenant A @ ''/'' @ ka_user A)),
      (''key_sha256'', JStr (sha256 (utf8_encode key))),
      (''tenant_id'', JStr (ka_tenant A)), (''user_id'', JStr (ka_user A)),
      (''groups'', JList (map JStr (parse_groups (ka_groups A))))]"

text \<open>\<open>entries.append(entry)\<close>\<close>

fun append_entry :: "json \<Rightarrow> json \<Rightarrow> json list res" where
  "append_entry e (JList es) = Inr (es @ [e])"
| "append_entry e _ = Inl (OtherError ''AttributeError'')"

text \<open>\<open>files\<close> are the JSON files; a file that is there may fail to parse. The result is the key, the JSON printed and the
  files afterwards.\<close>

definition create_api_key ::
  "(bytes \<Rightarrow> string) \<Rightarrow> string \<Rightarrow> key_args \<Rightarrow> (string \<rightharpoonup> json res) \<Rightarrow> (string \<times> json \<times> (string \<rightharpoonup> json res)) res" where
  "create_api_key sha256 token A files =
     (let key = ''rag_'' @ token; e = JObj (key_entry sha256 key A) in
      case ka_keys_file A of
        None \<Rightarrow> Inr (key, e, files)
      | Some path \<Rightarrow>
          bind_res (case files path of None \<Rightarrow> Inr (JList []) | Some r \<Rightarrow> r) (\<lambda>entries.
          bind_res (append_entry e entries) (\<lambda>es. Inr (key, JList es, files(path \<mapsto> Inr (JList es))))))"

section \<open>What the key opens\<close>

lemma append_entry_Inr: "append_entry e j = Inr es \<longleftrightarrow> (\<exists>js. j = JList js \<and> es = js @ [e])"
  by (cases j) auto

lemma add_entries_append: "add_entries rep ps (js @ js') = bind_res (add_entries rep ps js) (\<lambda>qs. add_entries rep qs js')"
proof (induction js arbitrary: ps)
  case (Cons j js)
  then show ?case by (cases "add_entry rep ps j") simp_all
qed simp

text \<open>The accepted list before the script ran.\<close>

definition accepted :: "(json \<Rightarrow> string) \<Rightarrow> json res option \<Rightarrow> key_store \<Rightarrow> bool" where
  "accepted rep content ks \<longleftrightarrow> (content = None \<and> ks = []) \<or> (\<exists>js. content = Some (Inr (JList js)) \<and> add_entries rep [] js = Inr ks)"

lemma lower_hex: "is_hex_digest d \<Longrightarrow> lower d = d"
proof -
  have "lower_char c = c" if "c \<in> set ''0123456789abcdef''" for c using that by (auto simp: lower_char_def)
  then show "is_hex_digest d \<Longrightarrow> lower d = d" unfolding is_hex_digest_def lower_def list_all_iff by (metis map_idI)
qed

lemma str_list_strings: "str_list (JList (map JStr gs)) = Some gs"
  by (simp add: list_all_iff comp_def)

lemma add_key_entry:
  assumes "is_hex_digest (hash_key sha256 key)" "strip (ka_tenant A) \<noteq> []" "strip (ka_user A) \<noteq> []" "map_of ks (hash_key sha256 key) = None"
  shows "add_entry rep ks (JObj (key_entry sha256 key A)) = Inr (ks @ [(hash_key sha256 key,
    \<lparr>p_tenant_id = strip (ka_tenant A), p_user_id = strip (ka_user A), p_groups = fset_of_list (parse_groups (ka_groups A))\<rparr>)])"
proof -
  have "entry_key rep (key_entry sha256 key A) = hash_key sha256 key"
    using lower_hex[OF assms(1)] by (simp add: entry_key_def key_entry_def jget_or_def hash_key_def)
  moreover have "entry_field rep (key_entry sha256 key A) ''tenant_id'' = strip (ka_tenant A)"
    "entry_field rep (key_entry sha256 key A) ''user_id'' = strip (ka_user A)"
    by (simp_all add: entry_field_def key_entry_def jget_or_def)
  moreover have "str_list (jget_or (key_entry sha256 key A) ''groups'' (JList [])) = Some (parse_groups (ka_groups A))"
    using str_list_strings by (simp add: key_entry_def jget_or_def del: str_list.simps)
  ultimately show ?thesis using assms by (simp add: add_entry_def)
qed


definition sample_key_args :: key_args where
  "sample_key_args = \<lparr>ka_tenant = ''acme'', ka_user = ''alice'', ka_groups = ''hr, ,finance'', ka_name = [], ka_keys_file = Some ''keys.json''\<rparr>"


text \<open>The script does not look at the tenant and the user: with a blank one it writes a file the server refuses as a whole.\<close>

lemma blank_tenant_breaks_key_file:
  assumes "create_api_key sha256 token A files = Inr (key, printed, files')" "ka_keys_file A = Some path"
    and "strip (ka_tenant A) = [] \<or> strip (ka_user A) = []"
  shows "\<exists>v e. files' path = Some (Inr v) \<and> from_entries rep v = Inl e"
proof -
  obtain js where js: "files' path = Some (Inr (JList (js @ [JObj (key_entry sha256 key A)])))"
    using assms(1,2) by (auto simp: create_api_key_def append_entry_Inr)
  have "entry_field rep (key_entry sha256 key A) ''tenant_id'' = strip (ka_tenant A)"
    "entry_field rep (key_entry sha256 key A) ''user_id'' = strip (ka_user A)"
    by (simp_all add: entry_field_def key_entry_def jget_or_def)
  then have no: "add_entry rep ks (JObj (key_entry sha256 key A)) \<noteq> Inr qs" for ks qs using assms(3) by (auto simp: add_entry_def)
  then have "from_entries rep (JList (js @ [JObj (key_entry sha256 key A)])) \<noteq> Inr ks" for ks
    by (auto simp: from_entries_def add_entries_append)
  then have "\<exists>e. from_entries rep (JList (js @ [JObj (key_entry sha256 key A)])) = Inl e"
    by (cases "from_entries rep (JList (js @ [JObj (key_entry sha256 key A)]))") auto
  with js show ?thesis by blast
qed

section \<open>Deploying to Render\<close>

definition RENDER_NAME :: string where
  "RENDER_NAME = ''production-rag''"

definition REPO :: string where
  "REPO = ''https://github.com/sidAndroid01/production-rag''"

definition REGION :: string where
  "REGION = ''ohio''"

definition RENDER_SETTINGS :: "(string \<times> string) list" where
  "RENDER_SETTINGS = [(''APP_ENV'', ''production''), (''PORT'', ''8000''), (''RAG_DB_POOL_MAX'', ''5''), (''RAG_RATE_LIMIT_PER_MINUTE'', ''30''),
     (''RAG_ALLOW_CUSTOM_LLM_URL'', ''1''), (''RAG_EMBED_BATCH_SIZE'', ''4''), (''RAG_EMBED_THREADS'', ''1'')]"

definition SECRETS :: "string list" where
  "SECRETS = [''DATABASE_URL'', ''RAG_METRICS_TOKEN'']"

text \<open>A request: method, path below the API, body. The response to it is an HTTP error (status and text), or the body as
  JSON, \<open>None\<close> when it is empty. A run keeps the state of the service, the requests sent and the lines printed.\<close>

type_synonym request_sent = "string \<times> string \<times> json option"

record 's render_run =
  rr_service :: 's
  rr_sent :: "request_sent list"
  rr_printed :: "string list"

type_synonym 's render_api = "request_sent \<Rightarrow> 's \<Rightarrow> ((int \<times> string) + json option) \<times> 's"
type_synonym ('s, 'a) script = "'s render_run \<Rightarrow> 'a res \<times> 's render_run"

definition sys_exit :: "string \<Rightarrow> exn" where
  "sys_exit m = OtherError (''SystemExit: '' @ m)"

definition then_do :: "('s, 'a) script \<Rightarrow> ('a \<Rightarrow> ('s, 'b) script) \<Rightarrow> ('s, 'b) script" where
  "then_do m f = (\<lambda>R. case m R of (Inl e, R') \<Rightarrow> (Inl e, R') | (Inr x, R') \<Rightarrow> f x R')"

definition pure_res :: "'a res \<Rightarrow> ('s, 'a) script" where
  "pure_res r = (\<lambda>R. (r, R))"

definition print_line :: "string \<Rightarrow> ('s, unit) script" where
  "print_line l = (\<lambda>R. (Inr (), R\<lparr>rr_printed := rr_printed R @ [l]\<rparr>))"

definition call :: "'s render_api \<Rightarrow> string \<Rightarrow> string \<Rightarrow> json option \<Rightarrow> ('s, json) script" where
  "call api verb path body = (\<lambda>R. case api (verb, path, body) (rr_service R) of (r, s) \<Rightarrow>
     (case r of
        Inl (code, msg) \<Rightarrow> Inl (sys_exit (''Render API '' @ verb @ '' '' @ path @ '': HTTP '' @ show_int code @ '' '' @ take 300 msg))
      | Inr None \<Rightarrow> Inr JNull
      | Inr (Some j) \<Rightarrow> Inr j,
      R\<lparr>rr_service := s, rr_sent := rr_sent R @ [(verb, path, body)]\<rparr>))"

text \<open>\<open>dumps\<close> is \<open>json.dumps\<close> with compact separators, \<open>keys\<close> the key file (\<open>None\<close> when it is missing).\<close>

definition environment :: "(json \<Rightarrow> string) \<Rightarrow> environ \<Rightarrow> json res option \<Rightarrow> json list res" where
  "environment dumps env keys =
     (let missing = filter (\<lambda>n. \<not> py_truthy (env n)) (''RENDER_API_KEY'' # SECRETS) in
      if missing \<noteq> [] then Inl (sys_exit (''missing from the environment: '' @ join '', '' missing @ '' (see secrets/deploy.env)''))
      else case keys of
        None \<Rightarrow> Inl (sys_exit ''secrets/api-keys.json not found; create keys with scripts/create_api_key.py --keys-file'')
      | Some r \<Rightarrow> bind_res r (\<lambda>j.
          let values = RENDER_SETTINGS @ map (\<lambda>n. (n, the (env n))) SECRETS @ [(''RAG_API_KEYS_JSON'', dumps j)] in
          Inr (map (\<lambda>(k, v). JObj [(''key'', JStr k), (''value'', JStr v)]) values)))"

fun find_named :: "json list \<Rightarrow> json option res" where
  "find_named [] = Inr None"
| "find_named (item # items) =
     bind_res (jsub_key item ''service'') (\<lambda>service.
     bind_res (jsub_key service ''name'') (\<lambda>name.
     if name = JStr RENDER_NAME then Inr (Some service) else find_named items))"

fun items_of :: "json \<Rightarrow> json list res" where
  "items_of (JList js) = Inr js"
| "items_of _ = Inl (OtherError ''TypeError'')"

definition find_service :: "'s render_api \<Rightarrow> ('s, json option) script" where
  "find_service api = then_do (call api ''GET'' (''/services?name='' @ RENDER_NAME @ ''&limit=20'') None) (\<lambda>j.
     pure_res (bind_res (items_of j) find_named))"

definition service_path :: "(json \<Rightarrow> string) \<Rightarrow> json \<Rightarrow> string \<Rightarrow> string res" where
  "service_path rep service rest = bind_res (jsub_key service ''id'') (\<lambda>i. Inr (''/services/'' @ json_str rep i @ rest))"

definition latest_status :: "json \<Rightarrow> json res" where
  "latest_status deploys = (if \<not> jtruthy deploys then Inr (JStr ''no deploys yet'')
     else bind_res (jsub_0 deploys) (\<lambda>d. bind_res (jsub_key d ''deploy'') (\<lambda>d. jsub_key d ''status'')))"

definition show_status :: "(json \<Rightarrow> string) \<Rightarrow> 's render_api \<Rightarrow> json \<Rightarrow> ('s, unit) script" where
  "show_status rep api service =
     then_do (pure_res (service_path rep service ''/deploys?limit=1'')) (\<lambda>path.
     then_do (call api ''GET'' path None) (\<lambda>deploys.
     then_do (pure_res (latest_status deploys)) (\<lambda>status.
     then_do (pure_res (jsub_key service ''id'')) (\<lambda>i.
     then_do (print_line (''service '' @ json_str rep i @ '': latest deploy '' @ json_str rep status)) (\<lambda>_.
     then_do (pure_res (bind_res (jsub_key service ''serviceDetails'') (\<lambda>d. case d of
       JObj o1 \<Rightarrow> Inr (jget_or o1 ''url'' (JStr ''(assigned after the first deploy)'')) | _ \<Rightarrow> Inl (OtherError ''AttributeError'')))) (\<lambda>url.
     print_line (''URL: '' @ json_str rep url)))))))"

definition new_service :: "json \<Rightarrow> json list \<Rightarrow> json" where
  "new_service owner env_vars = JObj
     [(''type'', JStr ''web_service''), (''name'', JStr RENDER_NAME), (''ownerId'', owner), (''repo'', JStr REPO), (''branch'', JStr ''main''),
      (''autoDeploy'', JStr ''yes''), (''envVars'', JList env_vars),
      (''serviceDetails'', JObj [(''runtime'', JStr ''docker''), (''plan'', JStr ''free''), (''region'', JStr REGION),
        (''healthCheckPath'', JStr ''/health/ready''),
        (''envSpecificDetails'', JObj [(''dockerfilePath'', JStr ''./Dockerfile''), (''dockerContext'', JStr ''.'')])])]"

definition create_service :: "'s render_api \<Rightarrow> json list \<Rightarrow> ('s, json) script" where
  "create_service api env_vars =
     then_do (call api ''GET'' ''/owners?limit=20'' None) (\<lambda>owners.
     if \<not> jtruthy owners then pure_res (Inl (sys_exit ''this Render API key has no workspace''))
     else
       then_do (pure_res (bind_res (jsub_0 owners) (\<lambda>o1. bind_res (jsub_key o1 ''owner'') (\<lambda>o2. jsub_key o2 ''id'')))) (\<lambda>owner.
       then_do (call api ''POST'' ''/services'' (Some (new_service owner env_vars))) (\<lambda>r.
       then_do (pure_res (jsub_key r ''service'')) (\<lambda>service.
       then_do (print_line (''created '' @ RENDER_NAME @ ''; the first build takes about 5-10 minutes'')) (\<lambda>_. pure_res (Inr service))))))"

definition update_service :: "(json \<Rightarrow> string) \<Rightarrow> 's render_api \<Rightarrow> json list \<Rightarrow> json \<Rightarrow> ('s, unit) script" where
  "update_service rep api env_vars service =
     then_do (pure_res (service_path rep service ''/env-vars'')) (\<lambda>path.
     then_do (call api ''PUT'' path (Some (JList env_vars))) (\<lambda>_.
     then_do (pure_res (service_path rep service ''/deploys'')) (\<lambda>path.
     then_do (call api ''POST'' path (Some (JObj []))) (\<lambda>_.
     print_line (''updated '' @ show_nat (length env_vars) @ '' settings on '' @ RENDER_NAME @ '' and started a deploy'')))))"

definition deploy_main :: "(json \<Rightarrow> string) \<Rightarrow> (json \<Rightarrow> string) \<Rightarrow> 's render_api \<Rightarrow> bool \<Rightarrow> environ \<Rightarrow> json res option \<Rightarrow> ('s, unit) script" where
  "deploy_main rep dumps api status env keys =
     (if status
      then if \<not> py_truthy (env ''RENDER_API_KEY'') then pure_res (Inl (sys_exit ''missing from the environment: RENDER_API_KEY''))
        else then_do (find_service api) (\<lambda>service. case service of
               None \<Rightarrow> pure_res (Inl (sys_exit (''no service named '' @ RENDER_NAME)))
             | Some s \<Rightarrow> show_status rep api s)
      else
        then_do (pure_res (environment dumps env keys)) (\<lambda>env_vars.
        then_do (find_service api) (\<lambda>service.
        then_do (case service of
            None \<Rightarrow> create_service api env_vars
          | Some s \<Rightarrow> then_do (update_service rep api env_vars s) (\<lambda>_. pure_res (Inr s))) (\<lambda>s.
        show_status rep api s))))"

section \<open>What a deploy prints\<close>

text \<open>Two runs that agree on the service and on what was printed.\<close>

definition same_view :: "'s render_run \<Rightarrow> 's render_run \<Rightarrow> bool" where
  "same_view R1 R2 \<longleftrightarrow> rr_service R1 = rr_service R2 \<and> rr_printed R1 = rr_printed R2"

definition same_script :: "('s, 'a) script \<Rightarrow> ('s, 'a) script \<Rightarrow> bool" where
  "same_script m1 m2 \<longleftrightarrow> (\<forall>R1 R2. same_view R1 R2 \<longrightarrow> fst (m1 R1) = fst (m2 R2) \<and> same_view (snd (m1 R1)) (snd (m2 R2)))"

text \<open>A service whose answers do not depend on the bodies it is sent.\<close>

definition body_blind :: "'s render_api \<Rightarrow> bool" where
  "body_blind api \<longleftrightarrow> (\<forall>v p b b' s. api (v, p, b) s = api (v, p, b') s)"

lemma same_then_do:
  assumes "same_script m1 m2" "\<And>x. same_script (f1 x) (f2 x)"
  shows "same_script (then_do m1 f1) (then_do m2 f2)"
  unfolding same_script_def
proof (intro allI impI)
  fix R1 R2 :: "'a render_run" assume "same_view R1 R2"
  then have "fst (m1 R1) = fst (m2 R2)" "same_view (snd (m1 R1)) (snd (m2 R2))" using assms(1) by (auto simp: same_script_def)
  then show "fst (then_do m1 f1 R1) = fst (then_do m2 f2 R2) \<and> same_view (snd (then_do m1 f1 R1)) (snd (then_do m2 f2 R2))"
    using assms(2) by (auto simp: then_do_def same_script_def split: prod.splits sum.splits)
qed

lemma then_do_pure: "then_do (pure_res (Inr x)) f = f x"
  by (simp add: then_do_def pure_res_def)

lemma same_basic: "same_script (pure_res r) (pure_res r)" "same_script (print_line l) (print_line l)"
  by (simp_all add: same_script_def same_view_def pure_res_def print_line_def)

lemma same_call:
  assumes "body_blind api"
  shows "same_script (call api v p b1) (call api v p b2)"
proof -
  have "api (v, p, b1) s = api (v, p, b2) s" for s using assms unfolding body_blind_def by blast
  then show ?thesis by (auto simp: same_script_def same_view_def call_def split: prod.split)
qed

lemmas same_intros = same_then_do same_basic

lemma same_find_service:
  "body_blind api \<Longrightarrow> same_script (find_service api) (find_service api)"
  unfolding find_service_def by (intro same_intros same_call)

lemma same_show_status:
  "body_blind api \<Longrightarrow> same_script (show_status rep api service) (show_status rep api service)"
  unfolding show_status_def by (intro same_intros same_call)

lemma same_create:
  "body_blind api \<Longrightarrow> same_script (create_service api env1) (create_service api env2)"
  unfolding create_service_def by (intro same_intros same_call) (auto intro!: same_intros same_call)

lemma same_update:
  "body_blind api \<Longrightarrow> length env1 = length env2 \<Longrightarrow>
    same_script (update_service rep api env1 service) (update_service rep api env2 service)"
  unfolding update_service_def by (simp only:) (intro same_intros same_call)

lemma environment_length: "environment dumps env keys = Inr vs \<Longrightarrow> length vs = 10"
  by (auto simp: environment_def RENDER_SETTINGS_def SECRETS_def split: if_splits option.splits)

text \<open>Secrets are sent and never printed: as long as the hosting service does not answer with what it was sent, two
  deploys with different database URLs, metrics tokens and key files print the same lines and end the same way.\<close>

theorem deploy_prints_no_secrets:
  assumes "body_blind api"
    and "environment dumps env1 keys1 = Inr vs1" "environment dumps env2 keys2 = Inr vs2"
    and "deploy_main rep dumps api False env1 keys1 R = (r1, R1)" "deploy_main rep dumps api False env2 keys2 R = (r2, R2)"
  shows "r1 = r2 \<and> rr_printed R1 = rr_printed R2"
proof -
  have l: "length vs1 = length vs2" using environment_length assms(2,3) by metis
  have "same_script (deploy_main rep dumps api False env1 keys1) (deploy_main rep dumps api False env2 keys2)"
    unfolding deploy_main_def assms(2,3) if_False
    then_do_pure
  proof (intro same_then_do same_show_status assms(1) same_find_service)
    fix service :: "json option"
    show "same_script (case service of None \<Rightarrow> create_service api vs1 | Some s \<Rightarrow> then_do (update_service rep api vs1 s) (\<lambda>_. pure_res (Inr s)))
      (case service of None \<Rightarrow> create_service api vs2 | Some s \<Rightarrow> then_do (update_service rep api vs2 s) (\<lambda>_. pure_res (Inr s)))"
    proof (cases service)
      case None
      then show ?thesis using same_create[OF assms(1)] by simp
    next
      case (Some s)
      have "same_script (then_do (update_service rep api vs1 s) (\<lambda>_. pure_res (Inr s))) (then_do (update_service rep api vs2 s) (\<lambda>_. pure_res (Inr s)))"
        by (intro same_intros same_update assms(1) l)
      then show ?thesis using Some by simp
    qed
  qed
  then have "fst (deploy_main rep dumps api False env1 keys1 R) = fst (deploy_main rep dumps api False env2 keys2 R)
    \<and> same_view (snd (deploy_main rep dumps api False env1 keys1 R)) (snd (deploy_main rep dumps api False env2 keys2 R))"
    unfolding same_script_def by (simp add: same_view_def)
  then show ?thesis using assms(4,5) by (simp add: same_view_def)
qed

definition silent_api :: "nat render_api" where
  "silent_api = (\<lambda>(v, p, b) n. (Inr (if n = 0 then Some (JList [JObj [(''service'', JObj [(''name'', JStr RENDER_NAME), (''id'', JStr ''srv'')])]]) else None), n + 1))"

definition sample_env :: "string \<Rightarrow> environ" where
  "sample_env secret = [''RENDER_API_KEY'' \<mapsto> ''k'', ''DATABASE_URL'' \<mapsto> secret, ''RAG_METRICS_TOKEN'' \<mapsto> secret]"

theorem deploy_prints_no_secrets_witness:
  "rr_printed (snd (deploy_main (\<lambda>_. []) (\<lambda>_. []) silent_api False (sample_env ''a'') (Some (Inr JNull)) \<lparr>rr_service = 0, rr_sent = [], rr_printed = []\<rparr>))
   = rr_printed (snd (deploy_main (\<lambda>_. []) (\<lambda>_. []) silent_api False (sample_env ''b'') (Some (Inr JNull)) \<lparr>rr_service = 0, rr_sent = [], rr_printed = []\<rparr>))"
proof -
  have "\<exists>vs. environment (\<lambda>_. []) (sample_env (c # cs)) (Some (Inr JNull)) = Inr vs" for c cs
    by (simp add: environment_def sample_env_def SECRETS_def py_truthy_def)
  then obtain vs1 vs2 where vs: "environment (\<lambda>_. []) (sample_env ''a'') (Some (Inr JNull)) = Inr vs1"
    "environment (\<lambda>_. []) (sample_env ''b'') (Some (Inr JNull)) = Inr vs2" by blast
  have "body_blind silent_api" by (simp add: body_blind_def silent_api_def)
  from deploy_prints_no_secrets[OF this vs, of "\<lambda>_. []" "\<lparr>rr_service = 0, rr_sent = [], rr_printed = []\<rparr>"] show ?thesis
    by (metis prod.collapse)
qed

section \<open>What a deploy asks for\<close>

definition creations :: "'s render_run \<Rightarrow> nat" where
  "creations R = length (filter (\<lambda>(v, p, b). v = ''POST'' \<and> p = ''/services'') (rr_sent R))"

definition creates_none :: "('s, 'a) script \<Rightarrow> bool" where
  "creates_none m \<longleftrightarrow> (\<forall>R. creations (snd (m R)) = creations R)"

lemma creates_none_then_do: "creates_none m \<Longrightarrow> (\<And>x. creates_none (f x)) \<Longrightarrow> creates_none (then_do m f)"
  unfolding creates_none_def then_do_def by (auto split: prod.split sum.split) (metis snd_conv)+

lemma creates_none_basic: "creates_none (pure_res r)" "creates_none (print_line l)"
  by (simp_all add: creates_none_def pure_res_def print_line_def creations_def)

lemma creates_none_call: "v \<noteq> ''POST'' \<or> p \<noteq> ''/services'' \<Longrightarrow> creates_none (call api v p b)"
  by (auto simp: creates_none_def call_def creations_def split: prod.split)

lemma service_path_other: "service_path rep service (c # rest) = Inr path \<Longrightarrow> path \<noteq> ''/services''"
  by (auto simp: service_path_def)

lemma then_do_pure_res: "then_do (pure_res r) f = (case r of Inl e \<Rightarrow> pure_res (Inl e) | Inr x \<Rightarrow> f x)"
  by (auto simp: then_do_def pure_res_def split: sum.split)

lemmas creates_none_intros = creates_none_then_do creates_none_basic creates_none_call

lemma show_status_creates_none: "creates_none (show_status rep api service)"
  unfolding show_status_def by (intro creates_none_intros) auto

lemma find_service_creates_none: "creates_none (find_service api)"
  unfolding find_service_def by (intro creates_none_intros) auto

lemma update_service_creates_none: "creates_none (update_service rep api env_vars service)"
proof (cases "service_path rep service ''/deploys''")
  case (Inl e)
  show ?thesis unfolding update_service_def Inl then_do_pure_res[of "Inl e"] sum.case by (intro creates_none_intros) auto
next
  case (Inr path)
  show ?thesis unfolding update_service_def Inr then_do_pure
    by (intro creates_none_intros) (use service_path_other[OF Inr] in auto)
qed

lemma create_service_creates: "creations (snd (create_service api env_vars R)) \<le> creations R + 1"
proof -
  have post: "creations (snd (call api ''POST'' ''/services'' b R)) = creations R + 1" for b R
    by (simp add: call_def creations_def split: prod.split)
  have then_none: "creations (snd (then_do m f R)) = creations (snd (m R))" if "\<And>x. creates_none (f x)" for m :: "('a, json) script" and f :: "json \<Rightarrow> ('a, json) script" and R
    using that by (auto simp: then_do_def creates_none_def split: prod.split sum.split)
  have owners: "creations (snd (call api ''GET'' ''/owners?limit=20'' None R)) = creations R"
    using creates_none_call[of "''GET''" "''/owners?limit=20''" api None] by (simp add: creates_none_def)
  obtain r R1 where c: "call api ''GET'' ''/owners?limit=20'' None R = (r, R1)" by fastforce
  let ?rest = "\<lambda>owner. then_do (call api ''POST'' ''/services'' (Some (new_service owner env_vars))) (\<lambda>r.
       then_do (pure_res (jsub_key r ''service'')) (\<lambda>service.
       then_do (print_line (''created '' @ RENDER_NAME @ ''; the first build takes about 5-10 minutes'')) (\<lambda>_. pure_res (Inr service))))"
  have rest: "creations (snd (?rest owner R1)) = creations R1 + 1" for owner
    by (subst then_none) (intro creates_none_intros, rule post)
  have pick: "creations (snd (then_do (pure_res x) ?rest R1)) \<le> creations R1 + 1" for x
  proof (cases x)
    case (Inr owner)
    show ?thesis unfolding Inr then_do_pure using rest[of owner] by simp
  qed (simp add: then_do_def pure_res_def)
  show ?thesis
  proof (cases r)
    case (Inl e)
    then show ?thesis using c owners by (simp add: create_service_def then_do_def[of "call api ''GET'' ''/owners?limit=20'' None"])
  next
    case (Inr owners')
    then have "snd (create_service api env_vars R) = R1 \<or> (\<exists>x. snd (create_service api env_vars R) = snd (then_do (pure_res x) ?rest R1))"
      using c unfolding create_service_def then_do_def[of "call api ''GET'' ''/owners?limit=20'' None"] by (auto simp: pure_res_def[of "Inl e" for e])
    then show ?thesis using pick c owners by (metis add.commute le_add2 snd_conv)
  qed
qed

text \<open>A deploy never creates a second service and sends nothing it cannot complete: when a setting or the key file is
  missing it ends without a request; otherwise it asks to create a service at most once, and only after a lookup
  that found none of that name.\<close>

theorem deploy_creates_once:
  assumes "deploy_main rep dumps api False env keys R = (r, R')"
  shows "(\<forall>e. environment dumps env keys = Inl e \<longrightarrow> R' = R \<and> r = Inl e) \<and> creations R' \<le> creations R + 1
    \<and> (creations R' \<noteq> creations R \<longrightarrow> fst (find_service api R) = Inr None)"
proof (cases "environment dumps env keys")
  case (Inl e)
  then show ?thesis using assms by (simp add: deploy_main_def then_do_pure_res) (simp add: pure_res_def)
next
  case (Inr vs)
  obtain f R1 where f: "find_service api R = (f, R1)" by fastforce
  have R1: "creations R1 = creations R" using find_service_creates_none[of api] f unfolding creates_none_def by (metis snd_conv)
  let ?act = "\<lambda>service. case service of None \<Rightarrow> create_service api vs | Some s \<Rightarrow> then_do (update_service rep api vs s) (\<lambda>_. pure_res (Inr s))"
  have main: "deploy_main rep dumps api False env keys R = (case f of Inl e \<Rightarrow> (Inl e, R1) | Inr service \<Rightarrow> then_do (?act service) (show_status rep api) R1)"
    using f by (simp add: deploy_main_def Inr then_do_pure then_do_def[of "find_service api"])
  have last: "creations (snd (then_do m (show_status rep api) R1)) = creations (snd (m R1))" for m
    using show_status_creates_none[of rep api] by (auto simp: then_do_def creates_none_def split: prod.split sum.split)
  show ?thesis
  proof (cases f)
    case (Inr service)
    have R': "creations R' = creations (snd (?act service R1))" using assms main last[of "?act service"] Inr by simp
    show ?thesis
    proof (cases service)
      case None
      then show ?thesis using R' R1 f \<open>f = Inr service\<close> \<open>environment dumps env keys = Inr vs\<close> create_service_creates[of api vs R1] by simp
    next
      case (Some s)
      have "creates_none (then_do (update_service rep api vs s) (\<lambda>_. pure_res (Inr s)))"
        by (intro creates_none_intros update_service_creates_none)
      then show ?thesis using R' R1 Some \<open>environment dumps env keys = Inr vs\<close> by (simp add: creates_none_def)
    qed
  qed (use assms main R1 \<open>environment dumps env keys = Inr vs\<close> in simp)
qed

theorem deploy_creates_once_witness:
  "creations (snd (deploy_main (\<lambda>_. []) (\<lambda>_. []) silent_api False (sample_env ''a'') (Some (Inr JNull)) \<lparr>rr_service = 0, rr_sent = [], rr_printed = []\<rparr>)) \<le> 1"
proof -
  let ?R = "\<lparr>rr_service = 0, rr_sent = [], rr_printed = []\<rparr>"
  obtain r R' where d: "deploy_main (\<lambda>_. []) (\<lambda>_. []) silent_api False (sample_env ''a'') (Some (Inr JNull)) ?R = (r, R')" by fastforce
  show ?thesis using deploy_creates_once[OF d] d by (simp add: creations_def)
qed

end
