(* ===== verification/Legacy.thy ===== *)
theory Legacy
  imports Query
begin

text \<open>
  The first version of the service (\<open>legacy/rag_api\<close>): the character chunker, the input guardrail, the in-memory
  repository and generator, the service and its two HTTP handlers. The chunker's loop does not always end: it is a
  partial function, and a request that never returns is the value \<open>None\<close>. SHA-256, the clock and the UUID source are
  parameters; FastAPI's routing and body parsing are left out.
\<close>

section \<open>Models (domain/models.py)\<close>

record legacy_chunk =
  lc_text :: string
  lc_document_id :: string
  lc_index :: nat
  lc_tenant_id :: string
  lc_source :: string
  lc_id :: string
  lc_created_at :: int

record search_hit =
  sh_chunk :: legacy_chunk
  sh_score :: real

record legacy_citation =
  ct_document_id :: string
  ct_source :: string
  ct_chunk_index :: nat
  ct_score :: real
  ct_excerpt :: string

record query_response =
  qr2_answer :: string
  qr2_citations :: "legacy_citation list"
  qr2_request_id :: string
  qr2_grounded :: bool

record ingest_response =
  ig_document_id :: string
  ig_chunks_created :: nat
  ig_content_sha256 :: string

section \<open>Chunking (services/chunking.py)\<close>

record text_chunker =
  tc_chunk_size :: int
  tc_overlap :: int

definition mk_text_chunker :: "int \<Rightarrow> int \<Rightarrow> text_chunker res" where
  "mk_text_chunker sz ov = (if ov \<ge> sz then Inl (ValueError ''overlap must be smaller than chunk_size'')
     else Inr \<lparr>tc_chunk_size = sz, tc_overlap = ov\<rparr>)"

definition default_chunker :: text_chunker where
  "default_chunker = \<lparr>tc_chunk_size = 900, tc_overlap = 120\<rparr>"

text \<open>An index of a slice or of \<open>str.rfind\<close>: negative ones count from the end, and all are clamped.\<close>

definition py_pos :: "nat \<Rightarrow> int \<Rightarrow> nat" where
  "py_pos n i = nat (if i < 0 then max 0 (i + int n) else min i (int n))"

definition py_slice :: "'a list \<Rightarrow> int \<Rightarrow> int \<Rightarrow> 'a list" where
  "py_slice xs i j = slice (py_pos (length xs) i) (py_pos (length xs) j) xs"

text \<open>\<open>s.rfind(c, i, j)\<close>\<close>

definition rfind :: "string \<Rightarrow> char \<Rightarrow> int \<Rightarrow> int \<Rightarrow> int" where
  "rfind s c i j = (case filter (\<lambda>k. s ! k = c) [py_pos (length s) i..<py_pos (length s) j] of
     [] \<Rightarrow> -1 | ks \<Rightarrow> int (last ks))"

definition window_stop :: "text_chunker \<Rightarrow> string \<Rightarrow> int \<Rightarrow> int" where
  "window_stop C s start =
     (let stop = min (start + tc_chunk_size C) (int (length s)) in
      if stop < int (length s)
      then (let boundary = rfind s CHR '' '' start stop in if boundary > start then boundary else stop)
      else stop)"

partial_function (option) legacy_loop :: "text_chunker \<Rightarrow> string \<Rightarrow> int \<Rightarrow> string list option" where
  "legacy_loop C s start =
     (if start < int (length s)
      then (let stop = window_stop C s start; piece = py_slice s start stop in
            if stop = int (length s) then Some [piece]
            else Option.bind (legacy_loop C s (stop - tc_overlap C)) (\<lambda>rest. Some (piece # rest)))
      else Some [])"

definition squeeze :: "string \<Rightarrow> string" where
  "squeeze t = strip (re_sub (Plus (Cls is_space)) (\<lambda>_. '' '') (None, t))"

definition legacy_split :: "text_chunker \<Rightarrow> string \<Rightarrow> string list option" where
  "legacy_split C t = (let normalized = squeeze t in if normalized = [] then Some [] else legacy_loop C normalized 0)"

section \<open>Guardrail (services/guardrails.py)\<close>

text \<open>The patterns of the guardrail are those of \<open>query.py\<close>, and its rewriting of role labels is that of \<open>rag.py\<close>.\<close>

definition guard_query :: "string \<Rightarrow> nat \<Rightarrow> string res" where
  "guard_query q max_length = (let q = strip q in
     if q = [] \<or> length q > max_length then Inl (UnsafeQueryError ''Query is empty or exceeds the configured length limit'')
     else if list_ex (\<lambda>p. re_search p None q) INJECTION_PATTERNS then Inl (UnsafeQueryError ''Query matched a prompt-injection policy'')
     else Inr q)"

definition guard_document :: "string \<Rightarrow> string" where
  "guard_document t = re_sub LABEL_RE (\<lambda>_. untrusted_label) (None, t)"

section \<open>Adapters (adapters/memory.py)\<close>

definition legacy_terms :: "string \<Rightarrow> string multiset" where
  "legacy_terms t = mset (tokens_of (lower t))"

definition legacy_cosine :: "string multiset \<Rightarrow> string multiset \<Rightarrow> real" where
  "legacy_cosine l r =
     (let numerator = (\<Sum>w\<in>set_mset l \<inter> set_mset r. count l w * count r w);
          left_norm = sqrt (real (\<Sum>w\<in>set_mset l. count l w * count l w));
          right_norm = sqrt (real (\<Sum>w\<in>set_mset r. count r w * count r w)) in
      if left_norm \<noteq> 0 \<and> right_norm \<noteq> 0 then real numerator / (left_norm * right_norm) else 0)"

definition repo_add :: "legacy_chunk list \<Rightarrow> legacy_chunk list \<Rightarrow> legacy_chunk list" where
  "repo_add stored new_chunks = stored @ filter (\<lambda>c. lc_id c \<notin> lc_id ` set stored) new_chunks"

definition repo_search :: "legacy_chunk list \<Rightarrow> string \<Rightarrow> string \<Rightarrow> nat \<Rightarrow> search_hit list" where
  "repo_search stored q tenant limit =
     take limit (sort_key (\<lambda>h. - sh_score h)
       (map (\<lambda>c. \<lparr>sh_chunk = c, sh_score = legacy_cosine (legacy_terms q) (legacy_terms (lc_text c))\<rparr>)
         (filter (\<lambda>c. lc_tenant_id c = tenant) stored)))"

definition legacy_generate :: "search_hit list \<Rightarrow> string" where
  "legacy_generate hits = (if hits = [] then ''I do not have enough evidence in the indexed documents to answer that.''
     else ''Based on the indexed sources: '' @ join '' '' (map (\<lambda>h. strip (lc_text (sh_chunk h))) (take 3 hits)))"

section \<open>Service (services/rag.py)\<close>

record rag_service =
  rs_chunks :: "legacy_chunk list"
  rs_chunker :: text_chunker
  rs_min_score :: real
  rs_top_k :: nat
  rs_max_query_length :: nat

record legacy_world =
  lw_sha256 :: "bytes \<Rightarrow> string"
  lw_uuid :: "nat \<Rightarrow> string"
  lw_now :: "nat \<Rightarrow> int"
  lw_request_uuid :: string

definition legacy_chunks :: "legacy_world \<Rightarrow> string \<Rightarrow> string \<Rightarrow> string \<Rightarrow> string list \<Rightarrow> legacy_chunk list" where
  "legacy_chunks W doc tenant filename pieces =
     map (\<lambda>(i, piece). \<lparr>lc_text = piece, lc_document_id = doc, lc_index = i, lc_tenant_id = tenant, lc_source = filename,
       lc_id = lw_uuid W i, lc_created_at = lw_now W i\<rparr>) (enumerate 0 pieces)"

definition service_ingest :: "legacy_world \<Rightarrow> rag_service \<Rightarrow> bytes \<Rightarrow> string \<Rightarrow> string \<Rightarrow> (ingest_response res \<times> rag_service) option" where
  "service_ingest W S data filename tenant = (case utf8_decode data of
     Inl e \<Rightarrow> Some (Inl e, S)
   | Inr t \<Rightarrow>
       let digest = lw_sha256 W data; doc = take 24 digest in
       Option.bind (legacy_split (rs_chunker S) (guard_document t)) (\<lambda>pieces.
       let cs = legacy_chunks W doc tenant filename pieces in
       Some (Inr \<lparr>ig_document_id = doc, ig_chunks_created = length cs, ig_content_sha256 = digest\<rparr>,
         S\<lparr>rs_chunks := repo_add (rs_chunks S) cs\<rparr>)))"

definition cite_hit :: "search_hit \<Rightarrow> legacy_citation" where
  "cite_hit h = \<lparr>ct_document_id = lc_document_id (sh_chunk h), ct_source = lc_source (sh_chunk h), ct_chunk_index = lc_index (sh_chunk h),
     ct_score = round4 (sh_score h), ct_excerpt = take 240 (lc_text (sh_chunk h))\<rparr>"

definition service_query :: "legacy_world \<Rightarrow> rag_service \<Rightarrow> string \<Rightarrow> string \<Rightarrow> string option \<Rightarrow> query_response res" where
  "service_query W S question tenant request_id =
     bind_res (guard_query question (rs_max_query_length S)) (\<lambda>safe.
     let hits = repo_search (rs_chunks S) safe tenant (rs_top_k S);
         grounded = filter (\<lambda>h. sh_score h \<ge> rs_min_score S) hits in
     Inr \<lparr>qr2_answer = legacy_generate grounded, qr2_citations = map cite_hit grounded,
       qr2_request_id = (if py_truthy request_id then the request_id else lw_request_uuid W), qr2_grounded = (grounded \<noteq> [])\<rparr>)"

section \<open>Settings, dependencies and routes (core/config.py, api, main.py)\<close>

record legacy_settings =
  ls_api_key :: string
  ls_max_upload_bytes :: nat
  ls_max_query_length :: nat
  ls_top_k :: nat
  ls_min_relevance_score :: real

definition default_settings :: legacy_settings where
  "default_settings = \<lparr>ls_api_key = ''local-development-key'', ls_max_upload_bytes = 5000000, ls_max_query_length = 2000, ls_top_k = 5,
     ls_min_relevance_score = 1/10\<rparr>"

text \<open>The constraints of the fields.\<close>

definition settings_valid :: "legacy_settings \<Rightarrow> bool" where
  "settings_valid G \<longleftrightarrow> 1024 \<le> ls_max_upload_bytes G \<and> 32 \<le> ls_max_query_length G \<and> 1 \<le> ls_top_k G \<and> ls_top_k G \<le> 20
     \<and> 0 \<le> ls_min_relevance_score G \<and> ls_min_relevance_score G \<le> 1"

definition lifespan :: "legacy_settings \<Rightarrow> rag_service" where
  "lifespan G = \<lparr>rs_chunks = [], rs_chunker = default_chunker, rs_min_score = ls_min_relevance_score G, rs_top_k = ls_top_k G,
     rs_max_query_length = ls_max_query_length G\<rparr>"

definition legacy_authenticate :: "legacy_settings \<Rightarrow> string option \<Rightarrow> string res" where
  "legacy_authenticate G x_api_key =
     (if \<not> py_truthy x_api_key \<or> the x_api_key \<noteq> ls_api_key G then Inl (ApiError 401 ''Invalid API key'' []) else Inr ''default'')"

record upload =
  uf_data :: bytes
  uf_content_type :: "string option"
  uf_filename :: "string option"

definition TEXT_TYPES :: "string list" where
  "TEXT_TYPES = [''text/plain'', ''text/markdown'', ''application/octet-stream'']"

definition legacy_ingest_document ::
  "legacy_world \<Rightarrow> legacy_settings \<Rightarrow> string option \<Rightarrow> upload \<Rightarrow> rag_service \<Rightarrow> (ingest_response res \<times> rag_service) option" where
  "legacy_ingest_document W G x_api_key u S = (case legacy_authenticate G x_api_key of
     Inl e \<Rightarrow> Some (Inl e, S)
   | Inr tenant \<Rightarrow>
       let data = take (ls_max_upload_bytes G + 1) (uf_data u) in
       if length data > ls_max_upload_bytes G then Some (Inl (ApiError 413 ''File is too large'' []), S)
       else if uf_content_type u = None \<or> the (uf_content_type u) \<notin> set TEXT_TYPES
       then Some (Inl (ApiError 415 ''Only text files are supported'' []), S)
       else Option.bind (service_ingest W S data (if py_truthy (uf_filename u) then the (uf_filename u) else ''document.txt'') tenant) (\<lambda>(r, S').
         Some (case r of Inl (UnicodeError m) \<Rightarrow> Inl (ApiError 422 ''File must be UTF-8'' []) | _ \<Rightarrow> r, S')))"

definition legacy_query :: "legacy_world \<Rightarrow> legacy_settings \<Rightarrow> string option \<Rightarrow> string \<Rightarrow> string option \<Rightarrow> rag_service \<Rightarrow> query_response res" where
  "legacy_query W G x_api_key question x_request_id S =
     bind_res (legacy_authenticate G x_api_key) (\<lambda>tenant.
     case service_query W S question tenant x_request_id of
       Inl (UnsafeQueryError m) \<Rightarrow> Inl (ApiError 400 m [])
     | r \<Rightarrow> r)"

section \<open>Searching backwards\<close>

lemma sorted_le_last: "sorted xs \<Longrightarrow> x \<in> set xs \<Longrightarrow> x \<le> last xs" for xs :: "nat list"
  by (induction xs) auto

lemma last_filter_upt:
  assumes "filter P [a..<b] \<noteq> []"
  shows "P (last (filter P [a..<b])) \<and> a \<le> last (filter P [a..<b]) \<and> last (filter P [a..<b]) < b
    \<and> (\<forall>k. last (filter P [a..<b]) < k \<longrightarrow> k < b \<longrightarrow> \<not> P k)"
proof -
  define xs where "xs = filter P [a..<b]"
  have l: "last xs \<in> set xs" using assms xs_def by (metis last_in_set)
  have s: "sorted xs" unfolding xs_def by (simp add: sorted_wrt_filter)
  have m: "x \<in> set xs \<longleftrightarrow> P x \<and> a \<le> x \<and> x < b" for x unfolding xs_def by auto
  have "\<not> P k" if "last xs < k" "k < b" for k
  proof
    assume "P k"
    with that m[of k] m[of "last xs"] l have "k \<in> set xs" by linarith
    then have "k \<le> last xs" using sorted_le_last s by blast
    with that show False by linarith
  qed
  then show ?thesis unfolding xs_def[symmetric] using l m by blast
qed

lemma rfind_eqI:
  assumes "py_pos (length s) i \<le> k" "k < py_pos (length s) j" "s ! k = c"
    and "\<And>k'. k < k' \<Longrightarrow> k' < py_pos (length s) j \<Longrightarrow> s ! k' \<noteq> c"
  shows "rfind s c i j = int k"
proof -
  let ?ks = "filter (\<lambda>k. s ! k = c) [py_pos (length s) i..<py_pos (length s) j]"
  have ne: "?ks \<noteq> []" using assms(1-3) by (auto simp: filter_empty_conv)
  have "last ?ks = k" using last_filter_upt[OF ne] assms by (metis linorder_neqE_nat)
  then show ?thesis using ne by (auto simp: rfind_def split: list.split)
qed

lemma rfind_none: "py_pos (length s) j \<le> py_pos (length s) i \<Longrightarrow> rfind s c i j = -1"
  by (simp add: rfind_def)

lemma rfind_cases:
  assumes "rfind s c i j = b"
  shows "b = -1 \<and> (\<forall>k. py_pos (length s) i \<le> k \<longrightarrow> k < py_pos (length s) j \<longrightarrow> s ! k \<noteq> c)
    \<or> (\<exists>k. b = int k \<and> py_pos (length s) i \<le> k \<and> k < py_pos (length s) j \<and> s ! k = c
         \<and> (\<forall>k'. k < k' \<longrightarrow> k' < py_pos (length s) j \<longrightarrow> s ! k' \<noteq> c))"
proof (cases "filter (\<lambda>k. s ! k = c) [py_pos (length s) i..<py_pos (length s) j] = []")
  case True
  then show ?thesis using assms by (auto simp: rfind_def filter_empty_conv)
next
  case False
  then have "rfind s c i j = int (last (filter (\<lambda>k. s ! k = c) [py_pos (length s) i..<py_pos (length s) j]))"
    by (simp add: rfind_def split: list.split)
  then show ?thesis using last_filter_upt[OF False] assms by blast
qed

lemma py_pos_nonneg [simp]: "0 \<le> i \<Longrightarrow> i \<le> int n \<Longrightarrow> py_pos n i = nat i"
  by (simp add: py_pos_def)

section \<open>The loop that does not end\<close>

text \<open>A window that is followed by itself.\<close>

lemma repeated_window_diverges:
  assumes "start < int (length s)" "window_stop C s start \<noteq> int (length s)" "window_stop C s start - tc_overlap C = start"
  shows "legacy_loop C s start = None"
proof -
  have "C' = C \<longrightarrow> s' = s \<longrightarrow> x \<noteq> start" if "legacy_loop C' s' x = Some out" for C' s' x out
  proof (rule legacy_loop.raw_induct[OF _ that, where P = "\<lambda>C' s' x out. C' = C \<longrightarrow> s' = s \<longrightarrow> x \<noteq> start"])
    fix f :: "text_chunker \<Rightarrow> string \<Rightarrow> int \<Rightarrow> string list option" and C1 s1 x1 out1
    assume IH: "\<And>C2 s2 x2 out2. f C2 s2 x2 = Some out2 \<Longrightarrow> C2 = C \<longrightarrow> s2 = s \<longrightarrow> x2 \<noteq> start"
      and body: "(if x1 < int (length s1)
        then let stop = window_stop C1 s1 x1; piece = py_slice s1 x1 stop in
          if stop = int (length s1) then Some [piece] else Option.bind (f C1 s1 (stop - tc_overlap C1)) (\<lambda>rest. Some (piece # rest))
        else Some []) = Some out1"
    show "C1 = C \<longrightarrow> s1 = s \<longrightarrow> x1 \<noteq> start"
    proof (intro impI notI)
      assume "C1 = C" "s1 = s" "x1 = start"
      with body assms have "\<exists>rest. f C s start = Some rest" by (cases "f C s start") auto
      with IH show False by blast
    qed
  qed
  then show ?thesis by (cases "legacy_loop C s start") auto
qed

lemma loop_continues:
  assumes "start < int (length s)" "window_stop C s start \<noteq> int (length s)" "legacy_loop C s (window_stop C s start - tc_overlap C) = None"
  shows "legacy_loop C s start = None"
  using assms by (subst legacy_loop.simps) simp

text \<open>Before the text, the loop stays where it is.\<close>

lemma window_before_text:
  assumes "m < -1" "0 \<le> m + tc_chunk_size C" "tc_chunk_size C < int (length s)"
  shows "window_stop C s m = -1"
proof -
  have "rfind s CHR '' '' m (m + tc_chunk_size C) = -1" using assms by (intro rfind_none) (simp add: py_pos_def nat_le_iff)
  with assms show ?thesis by (simp add: window_stop_def)
qed

lemma diverges_before_text:
  assumes "m < -1" "0 \<le> m + tc_chunk_size C" "tc_chunk_size C < int (length s)" "0 < tc_overlap C" "tc_overlap C < tc_chunk_size C"
  shows "legacy_loop C s m = None"
proof (rule loop_continues)
  have stop: "window_stop C s m = -1" using assms by (intro window_before_text)
  let ?m = "-1 - tc_overlap C"
  have "window_stop C s ?m = -1" using assms by (intro window_before_text) auto
  then have "legacy_loop C s ?m = None" using assms by (intro repeated_window_diverges) auto
  then show "legacy_loop C s (window_stop C s m - tc_overlap C) = None" by (simp add: stop)
  show "window_stop C s m \<noteq> int (length s)" "m < int (length s)" using stop assms by auto
qed

text \<open>
  The last space of the window lies within the overlap: the next window starts no later than this one, has the same
  last space, and so repeats itself; when it would start before the text, it repeats there. The one exception is
  the position just before the text, which Python reads as the last character.
\<close>

lemma short_window_diverges:
  assumes "0 \<le> start" "start + tc_chunk_size C < int (length s)" "tc_overlap C < tc_chunk_size C"
    and b: "rfind s CHR '' '' start (start + tc_chunk_size C) = b" "start < b" "b \<le> start + tc_overlap C" "b \<noteq> tc_overlap C - 1"
  shows "legacy_loop C s start = None"
proof (rule loop_continues)
  let ?n = "b - tc_overlap C"
  have stop: "window_stop C s start = b" using assms by (simp add: window_stop_def)
  obtain k where k: "b = int k" "nat start \<le> k" "k < nat (start + tc_chunk_size C)" "s ! k = CHR '' ''"
    "\<And>k'. k < k' \<Longrightarrow> k' < nat (start + tc_chunk_size C) \<Longrightarrow> s ! k' \<noteq> CHR '' ''"
    using rfind_cases[OF b(1)] assms by auto
  have "legacy_loop C s ?n = None"
  proof (cases "0 \<le> ?n")
    case True
    have "rfind s CHR '' '' ?n (?n + tc_chunk_size C) = int k"
      using True k assms by (intro rfind_eqI) (simp_all add: nat_le_iff zless_nat_eq_int_zless)
    then have "window_stop C s ?n = b" using k True assms by (simp add: window_stop_def)
    then show ?thesis using k assms by (intro repeated_window_diverges) auto
  next
    case False
    then show ?thesis using k assms by (intro diverges_before_text) auto
  qed
  then show "legacy_loop C s (window_stop C s start - tc_overlap C) = None" by (simp add: stop)
  show "window_stop C s start \<noteq> int (length s)" "start < int (length s)" using stop k assms by auto
qed

text \<open>Text that is already normalised.\<close>

lemma squeeze_two_words:
  assumes "list_all visible w" "list_all visible v" "w \<noteq> []" "v \<noteq> []"
  shows "squeeze (w @ CHR '' '' # v) = w @ CHR '' '' # v"
proof -
  have sp: "is_space CHR '' ''" by (simp add: is_space_def)
  have v: "re_sub (Plus (Cls is_space)) (\<lambda>_. '' '') (pv, v) = v" for pv
    using assms(2) by (subst re_sub_plus_cls) (simp add: list_all_iff takeWhile_eq_all_conv[THEN iffD2] dropWhile_eq_Nil_conv[THEN iffD2])
  have tv: "takeWhile is_space v = []" "dropWhile is_space v = v" using assms(2,4) by (cases v; simp)+
  have "takeWhile visible (w @ CHR '' '' # v) = w" "dropWhile visible (w @ CHR '' '' # v) = CHR '' '' # v"
    using assms(1) sp by (simp_all add: takeWhile_append2 dropWhile_append2 list_all_iff)
  then have "re_sub (Plus (Cls is_space)) (\<lambda>_. '' '') (None, w @ CHR '' '' # v) = w @ CHR '' '' # v"
    by (subst re_sub_plus_cls) (simp add: tv v)
  moreover have "strip (w @ CHR '' '' # v) = w @ CHR '' '' # v"
  proof -
    have "lstrip (w @ CHR '' '' # v) = w @ CHR '' '' # v" using assms(1,3) by (cases w) (simp_all add: lstrip_def)
    moreover have "rstrip (w @ CHR '' '' # v) = w @ CHR '' '' # v"
      using assms(2,4) by (cases v rule: rev_cases) (simp_all add: rstrip_def)
    ultimately show ?thesis by (simp add: strip_def)
  qed
  ultimately show ?thesis by (simp add: squeeze_def)
qed

lemma two_words_diverge:
  assumes "list_all visible w" "list_all visible v" "w \<noteq> []"
    and "int (length w) \<le> tc_overlap C" "int (length w) \<noteq> tc_overlap C - 1" "tc_overlap C < tc_chunk_size C"
    and "tc_chunk_size C \<le> int (length w + length v)"
  shows "legacy_split C (w @ CHR '' '' # v) = None"
proof -
  let ?s = "w @ CHR '' '' # v"
  have v: "v \<noteq> []" using assms by auto
  have n: "?s ! k \<noteq> CHR '' ''" if "length w < k" "k < length ?s" for k
  proof -
    have "?s ! k = v ! (k - length w - 1)" using that by (simp add: nth_append nth_Cons' )
    moreover have "v ! (k - length w - 1) \<in> set v" using that by simp
    ultimately show ?thesis using assms(2) by (auto simp: list_all_iff is_space_def)
  qed
  have "rfind ?s CHR '' '' 0 (0 + tc_chunk_size C) = int (length w)"
    using assms n by (intro rfind_eqI) (auto simp: zless_nat_eq_int_zless)
  then have "legacy_loop C ?s 0 = None" using assms by (intro short_window_diverges) auto
  then show ?thesis using squeeze_two_words[OF assms(1,2,3) v] by (simp add: legacy_split_def)
qed

text \<open>The chunker does not always end. A document of two words hangs an authenticated upload: the handler never returns
  when the first word has at most 120 characters (other than 119) and the two together at least 900. The window
  is cut at the only space, the overlap of 120 characters leads back to the same window, and so for ever.\<close>

theorem legacy_upload_hangs:
  assumes "rs_chunker S = default_chunker" "py_truthy x_api_key" "the x_api_key = ls_api_key G"
    and "uf_content_type u = Some mime" "mime \<in> set TEXT_TYPES" "length (uf_data u) \<le> ls_max_upload_bytes G"
    and "utf8_decode (uf_data u) = Inr t" "guard_document t = w @ CHR '' '' # v"
    and "list_all visible w" "list_all visible v" "w \<noteq> []"
    and "length w \<le> 120" "length w \<noteq> 119" "900 \<le> length w + length v"
  shows "legacy_ingest_document W G x_api_key u S = None"
proof -
  have "legacy_split default_chunker (w @ CHR '' '' # v) = None"
    using assms by (intro two_words_diverge) (auto simp: default_chunker_def)
  then have "service_ingest W S (uf_data u) filename tenant = None" for filename tenant
    using assms by (simp add: service_ingest_def)
  then show ?thesis using assms by (simp add: legacy_ingest_document_def legacy_authenticate_def)
qed

definition hanging_text :: string where
  "hanging_text = ''See'' @ CHR '' '' # replicate 900 CHR ''a''"

lemma label_has_colon: "den LABEL_RE pv w k \<Longrightarrow> CHR '':'' \<in> set w"
  by (auto simp: LABEL_RE_def LABEL_TAIL_RE_def den_seq_iff)

lemma guard_document_plain: "CHR '':'' \<notin> set t \<Longrightarrow> guard_document t = t"
  unfolding guard_document_def by (rule re_sub_no_match) (auto simp: re_search_iff dest: label_has_colon)

lemma length_utf8_encode: "length (utf8_encode s) \<le> 2 * length s"
  by (induction s) auto

theorem legacy_upload_hangs_witness:
  "\<forall>W. legacy_ingest_document W default_settings (Some ''local-development-key'')
     \<lparr>uf_data = utf8_encode hanging_text, uf_content_type = Some ''text/plain'', uf_filename = None\<rparr> (lifespan default_settings) = None"
proof
  fix W
  have t: "guard_document hanging_text = ''See'' @ CHR '' '' # replicate 900 CHR ''a''"
    using guard_document_plain[of hanging_text] by (simp add: hanging_text_def)
  have l: "length (utf8_encode hanging_text) \<le> ls_max_upload_bytes default_settings"
    using length_utf8_encode[of hanging_text] by (simp add: hanging_text_def default_settings_def)
  show "legacy_ingest_document W default_settings (Some ''local-development-key'')
     \<lparr>uf_data = utf8_encode hanging_text, uf_content_type = Some ''text/plain'', uf_filename = None\<rparr> (lifespan default_settings) = None"
    by (rule legacy_upload_hangs[OF _ _ _ _ _ _ _ t, where mime = "''text/plain''"])
      (use l in \<open>simp_all add: lifespan_def py_truthy_def default_settings_def TEXT_TYPES_def utf8_roundtrip is_space_def list_all_iff\<close>)
qed

section \<open>Documents that are chunked\<close>

text \<open>Windows that cover a text of \<open>n\<close> characters from \<open>i\<close> on: each at most \<open>c\<close> long, each the last or ending at a space
  and followed by one that starts exactly \<open>v\<close> characters before its end and later than it.\<close>

fun windows :: "nat \<Rightarrow> nat \<Rightarrow> string \<Rightarrow> nat \<Rightarrow> (nat \<times> nat) list \<Rightarrow> bool" where
  "windows c v s i [] \<longleftrightarrow> False"
| "windows c v s i [(a, b)] \<longleftrightarrow> a = i \<and> a < b \<and> b \<le> a + c \<and> b = length s"
| "windows c v s i ((a, b) # x # xs) \<longleftrightarrow>
     a = i \<and> a + v < b \<and> b \<le> a + c \<and> b < length s \<and> s ! b = CHR '' '' \<and> windows c v s (b - v) (x # xs)"

lemma runs_contain:
  "x \<noteq> [] \<Longrightarrow> list_all p x \<Longrightarrow> \<exists>w\<in>set (runs p (u @ x @ y)). length x \<le> length w"
proof (induction u rule: length_induct)
  case (1 u)
  show ?case
  proof (cases u)
    case Nil
    obtain c cs where x: "x = c # cs" using 1(2) by (cases x) auto
    then have "takeWhile p (cs @ y) = cs @ takeWhile p y" using 1(3) by (simp add: list_all_iff)
    then show ?thesis using Nil x 1(3) by simp
  next
    case (Cons c u')
    show ?thesis
    proof (cases "p c")
      case True
      show ?thesis
      proof (cases "\<forall>d\<in>set u'. p d")
        case all: True
        then have "takeWhile p (u' @ x @ y) = u' @ x @ takeWhile p y" using 1(3) by (simp add: list_all_iff takeWhile_append2)
        with True Cons show ?thesis by simp
      next
        case False
        then have "dropWhile p (u' @ x @ y) = dropWhile p u' @ x @ y" by (auto simp: dropWhile_append1)
        moreover have "length (dropWhile p u') < length u" using Cons length_dropWhile_le[of p u'] by simp
        ultimately show ?thesis using 1 True Cons by simp
      qed
    qed (use 1 Cons in simp)
  qed
qed

lemma squeezed_space: "c \<in> set (re_sub (Plus (Cls is_space)) (\<lambda>_. '' '') (pv, s)) \<Longrightarrow> is_space c \<Longrightarrow> c = CHR '' ''"
proof (induction s arbitrary: pv rule: length_induct)
  case (1 s)
  show ?case
  proof (cases "dropWhile (\<lambda>c. \<not> is_space c) s")
    case Nil
    then have "re_sub (Plus (Cls is_space)) (\<lambda>_. '' '') (pv, s) = takeWhile visible s"
      by (subst re_sub_plus_cls) (simp only: list.case append_Nil2)
    then show ?thesis using 1(2,3) by (auto dest: set_takeWhileD)
  next
    case (Cons d ds)
    have "length (dropWhile is_space ds) < length s"
      using Cons length_dropWhile_le[of is_space ds] length_dropWhile_le[of "\<lambda>c. \<not> is_space c" s] by simp
    with 1(1) have "c \<in> set (re_sub (Plus (Cls is_space)) (\<lambda>_. '' '') (pv', dropWhile is_space ds)) \<Longrightarrow> c = CHR '' ''" for pv'
      using 1(3) by blast
    then show ?thesis using 1(2,3) Cons by (subst (asm) re_sub_plus_cls) (auto dest: set_takeWhileD)
  qed
qed

lemma squeeze_space: "c \<in> set (squeeze t) \<Longrightarrow> is_space c \<Longrightarrow> c = CHR '' ''"
proof -
  have "set (strip x) \<subseteq> set x" for x by (auto simp: strip_def lstrip_def rstrip_def dest!: set_dropWhileD)
  then show "c \<in> set (squeeze t) \<Longrightarrow> is_space c \<Longrightarrow> c = CHR '' ''" using squeezed_space unfolding squeeze_def by blast
qed

lemma words_of_squeeze: "split_ws (squeeze t) = split_ws t"
  by (simp add: squeeze_def split_ws_def runs_strip runs_collapse)

text \<open>In a text of short words every window has its last space beyond the overlap.\<close>

lemma space_in_window:
  assumes "\<forall>w\<in>set (split_ws s). length w < m" "\<And>c. c \<in> set s \<Longrightarrow> is_space c \<Longrightarrow> c = CHR '' ''" "a + m \<le> length s" "0 < m"
  shows "\<exists>k. a \<le> k \<and> k < a + m \<and> s ! k = CHR '' ''"
proof (rule ccontr)
  assume no: "\<not> ?thesis"
  let ?x = "take m (drop a s)"
  have "visible (s ! k)" if "a \<le> k" "k < a + m" for k using no assms(2)[of "s ! k"] assms(3) that by auto
  then have "list_all visible ?x" using assms(3) by (auto simp: list_all_length)
  moreover have "s = take a s @ ?x @ drop (a + m) s" by (metis append_take_drop_id drop_drop add.commute)
  moreover have "length ?x = m" using assms(3) by simp
  ultimately obtain w where "w \<in> set (split_ws s)" "m \<le> length w"
    using runs_contain[of ?x visible "take a s" "drop (a + m) s"] assms(4) by (metis length_0_conv less_numeral_extra(3) split_ws_def)
  then show False using assms(1) by fastforce
qed

lemma loop_windows:
  assumes "C = \<lparr>tc_chunk_size = int c, tc_overlap = int v\<rparr>" "v + 1 < c"
    and "\<forall>w\<in>set (split_ws s). length w < c - v - 1" "\<And>d. d \<in> set s \<Longrightarrow> is_space d \<Longrightarrow> d = CHR '' ''"
    and "i < length s"
  shows "\<exists>ps. legacy_loop C s (int i) = Some (map (\<lambda>(a, b). slice a b s) ps) \<and> windows c v s i ps"
  using assms(5)
proof (induction "length s - i" arbitrary: i rule: less_induct)
  case less
  show ?case
  proof (cases "i + c < length s")
    case False
    then have "window_stop C s (int i) = int (length s)" by (simp add: window_stop_def assms(1))
    then have "legacy_loop C s (int i) = Some (map (\<lambda>(a, b). slice a b s) [(i, length s)])"
      using less.prems by (subst legacy_loop.simps) (simp add: py_slice_def)
    then show ?thesis using False less.prems by (intro exI[of _ "[(i, length s)]"]) simp
  next
    case True
    obtain k where k: "i + v + 1 \<le> k" "k < i + v + 1 + (c - v - 1)" "s ! k = CHR '' ''"
      using space_in_window[OF assms(3,4), of "i + v + 1"] True assms(2) by auto
    have pos: "py_pos (length s) (int i) = i" "py_pos (length s) (int (i + c)) = i + c" using True by simp_all
    obtain b where b: "rfind s CHR '' '' (int i) (int (i + c)) = int b" "i + v < b" "b < i + c" "s ! b = CHR '' ''"
    proof -
      have k': "i \<le> k" "k < i + c" "i + v < k" using k(1,2) assms(2) by linarith+
      then obtain b where r: "rfind s CHR '' '' (int i) (int (i + c)) = int b" "b < i + c" "s ! b = CHR '' ''"
        "\<And>j. b < j \<Longrightarrow> j < i + c \<Longrightarrow> s ! j \<noteq> CHR '' ''"
        using rfind_cases[OF refl, of s "CHR '' ''" "int i" "int (i + c)"] k(3) unfolding pos by blast
      have "\<not> b < k" using r(4) k' k(3) by blast
      then show thesis using that r k' by (meson linorder_not_less order_less_le_trans)
    qed
    have ov: "tc_overlap C = int v" by (simp add: assms(1))
    have stop: "window_stop C s (int i) = int b" using b True by (simp add: window_stop_def assms(1))
    have "legacy_loop C s (int i) = Option.bind (legacy_loop C s (int (b - v))) (\<lambda>rest. Some (slice i b s # rest))"
      using less.prems b(2,3) True by (subst legacy_loop.simps) (simp add: stop ov py_slice_def of_nat_diff)
    moreover obtain ps where "legacy_loop C s (int (b - v)) = Some (map (\<lambda>(a, b). slice a b s) ps)" "windows c v s (b - v) ps"
      using less.hyps[of "b - v"] less.prems b True by fastforce
    ultimately have "legacy_loop C s (int i) = Some (map (\<lambda>(a, b). slice a b s) ((i, b) # ps))" "windows c v s i ((i, b) # ps)"
      using b True by (simp, cases ps) auto
    then show ?thesis by blast
  qed
qed

text \<open>C39. On text of ordinary words the chunker returns, and its chunks are overlapping windows: when every word is
  shorter than the chunk size less the overlap less one, the chunks of the normalised text cover it from the first
  character to the last, none is longer than the chunk size, each but the last ends at a space, and the next one
  starts exactly the overlap before that end.\<close>

theorem legacy_split_windows:
  assumes "mk_text_chunker (int c) (int v) = Inr C" "v + 1 < c" "\<forall>w\<in>set (split_ws t). length w < c - v - 1" "squeeze t \<noteq> []"
  shows "\<exists>ps. legacy_split C t = Some (map (\<lambda>(a, b). slice a b (squeeze t)) ps) \<and> windows c v (squeeze t) 0 ps"
proof -
  have "C = \<lparr>tc_chunk_size = int c, tc_overlap = int v\<rparr>" using assms(1) by (auto simp: mk_text_chunker_def split: if_splits)
  from loop_windows[OF this assms(2), of "squeeze t" 0] assms(3,4) show ?thesis
    by (simp add: words_of_squeeze legacy_split_def squeeze_space)
qed

theorem legacy_split_windows_witness:
  "\<exists>ps. legacy_split \<lparr>tc_chunk_size = 8, tc_overlap = 2\<rparr> ''ab cd ef gh'' = Some (map (\<lambda>(a, b). slice a b (squeeze ''ab cd ef gh'')) ps)
     \<and> windows 8 2 (squeeze ''ab cd ef gh'') 0 ps"
proof -
  have "list_all (\<lambda>w. length w < 8 - 2 - 1) (split_ws ''ab cd ef gh'')" "squeeze ''ab cd ef gh'' \<noteq> []" by code_simp+
  then show ?thesis using legacy_split_windows[of 8 2 "\<lparr>tc_chunk_size = 8, tc_overlap = 2\<rparr>" "''ab cd ef gh''"]
    by (simp add: mk_text_chunker_def list_all_iff)
qed

section \<open>The repository\<close>

lemma legacy_cosine_eq: "legacy_cosine l r = cosine l r"
  by (simp add: legacy_cosine_def cosine_def norm2_def)

text \<open>Every hit belongs to the tenant of the query and its score lies between 0 and 1.\<close>

lemma repo_search_hits:
  "h \<in> set (repo_search stored q tenant limit) \<Longrightarrow>
    lc_tenant_id (sh_chunk h) = tenant \<and> sh_chunk h \<in> set stored \<and> 0 \<le> sh_score h \<and> sh_score h \<le> 1"
  using cosine_bounds by (auto simp: repo_search_def legacy_cosine_eq dest!: in_set_takeD)

text \<open>The repository skips chunks whose identifier it holds; identifiers are random, so the same document ingested again is
  stored again.\<close>

lemma reingest_duplicates:
  assumes "utf8_decode data = Inr t" "legacy_split (rs_chunker S) (guard_document t) = Some pieces"
    and "\<And>i. lw_uuid W i \<notin> lc_id ` set (rs_chunks S)"
  shows "\<exists>r. service_ingest W S data filename tenant = Some (Inr r, S\<lparr>rs_chunks := rs_chunks S @ legacy_chunks W (take 24 (lw_sha256 W data)) tenant filename pieces\<rparr>)"
proof -
  have "filter (\<lambda>c. lc_id c \<notin> lc_id ` set (rs_chunks S)) (legacy_chunks W d tenant filename pieces) = legacy_chunks W d tenant filename pieces" for d
    using assms(3) by (auto simp: filter_id_conv legacy_chunks_def) (metis image_eqI)
  then show ?thesis using assms(1,2) by (simp add: service_ingest_def repo_add_def)
qed

end
