(* ===== verification/Guides.thy ===== *)
theory Guides
  imports Py_Regex Py_Codec
begin

text \<open>
  The study guides (\<open>docs/interview-prep/build_guides.py\<close>): two Markdown documents are assembled from a bank of
  questions and turned into self-contained HTML by a small Markdown generator. The generator, with its regular
  expressions, escaping and loops, is modelled in full. The authored prose, the style sheet and the files are
  parameters. The lemmas show that the generator returns on every text, that the only tags in a page are the
  generator's own, and that the references name every linked page once.
\<close>

section \<open>Inline markup\<close>

text \<open>\<open>html.escape\<close> with its default \<open>quote=True\<close>; the ampersand is replaced first.\<close>

definition html_char :: "char \<Rightarrow> string" where
  "html_char c = (if c = CHR ''&'' then ''&amp;'' else if c = CHR ''<'' then ''&lt;'' else if c = CHR ''>'' then ''&gt;''
     else if c = CHR 0x22 then ''&quot;'' else if c = CHR 0x27 then ''&#x27;'' else [c])"

definition html_escape :: "string \<Rightarrow> string" where
  "html_escape s = concat (map html_char s)"

abbreviation Except :: "char \<Rightarrow> rx" where
  "Except d \<equiv> Plus (Cls (\<lambda>c. c \<noteq> d))"

definition code_rx :: rx where
  "code_rx = Seqs [Cls (\<lambda>c. c = CHR 0x60), Except (CHR 0x60), Cls (\<lambda>c. c = CHR 0x60)]"

definition strong_rx :: rx where
  "strong_rx = Seqs [Lit ''**'', Except (CHR ''*''), Lit ''**'']"

definition link_rx :: rx where
  "link_rx = Seqs [Lit ''['', Except (CHR '']''), Lit ''](''  , Except (CHR '')''), Lit '')'']"

text \<open>The groups of a match: a group cannot contain the character that ends it.\<close>

definition group_of :: "nat \<Rightarrow> string \<Rightarrow> string" where
  "group_of n m = take (length m - 2 * n) (drop n m)"

definition link_label :: "string \<Rightarrow> string" where
  "link_label m = takeWhile (\<lambda>c. c \<noteq> CHR '']'') (drop 1 m)"

definition link_target :: "string \<Rightarrow> string" where
  "link_target m = butlast (drop (length (link_label m) + 3) m)"

definition inline_code :: "string \<Rightarrow> string" where
  "inline_code m = ''<code>'' @ group_of 1 m @ ''</code>''"

definition inline_strong :: "string \<Rightarrow> string" where
  "inline_strong m = ''<strong>'' @ group_of 2 m @ ''</strong>''"

definition inline_link :: "string \<Rightarrow> string" where
  "inline_link m = ''<a href=\"'' @ link_target m @ ''\">'' @ link_label m @ ''</a>''"

definition inline_html :: "string \<Rightarrow> string" where
  "inline_html s =
     (let t = html_escape s;
          t = re_sub code_rx inline_code (None, t);
          t = re_sub strong_rx inline_strong (None, t) in
      re_sub link_rx inline_link (None, t))"

section \<open>Blocks\<close>

text \<open>\<open>re.match\<close>: a match at the start of the line.\<close>

definition re_match :: "rx \<Rightarrow> string \<Rightarrow> bool" where
  "re_match r s = (mt r (None, s) \<noteq> [])"

fun at_most :: "nat \<Rightarrow> rx \<Rightarrow> rx" where
  "at_most 0 r = Eps"
| "at_most (Suc n) r = Opt (Seq r (at_most n r))"

abbreviation Hash :: rx where
  "Hash \<equiv> Cls (\<lambda>c. c = CHR ''#'')"

abbreviation Digit :: rx where
  "Digit \<equiv> Cls is_decimal"

definition image_rx :: rx where
  "image_rx = Seqs [Lit ''!['', Star (Cls (\<lambda>c. c \<noteq> CHR '']'')), Lit ''](''  , Except (CHR '')''), Lit '')'']"

definition heading_rx :: rx where
  "heading_rx = Seqs [Hash, at_most 5 Hash, Lit '' '']"

definition anchor_rx :: rx where
  "anchor_rx = Seqs [Lit ''Q'', Digit, Digit, Digit, WordB]"

definition delim_rx :: rx where
  "delim_rx = Seqs [Opt (Lit '':''), Plus (Cls (\<lambda>c. c = CHR ''-'')), Opt (Lit '':'')]"

definition bullet_rx :: rx where
  "bullet_rx = Lit ''- ''"

definition ordered_rx :: rx where
  "ordered_rx = Seqs [Plus Digit, Lit ''. '']"

definition list_rx :: rx where
  "list_rx = Alt bullet_rx ordered_rx"

definition block_rx :: rx where
  "block_rx = Alts [Hash, Lit ''|'', Lit [CHR 0x60, CHR 0x60, CHR 0x60], Lit ''!['', bullet_rx, ordered_rx]"

definition fence :: "string \<Rightarrow> bool" where
  "fence l = prefix [CHR 0x60, CHR 0x60, CHR 0x60] l"

definition newline :: string where
  "newline = [CHR 0x0A]"

definition code_block :: "string list \<Rightarrow> string" where
  "code_block code = ''<pre><code>'' @ html_escape (join newline code) @ ''</code></pre>''"

definition image_alt :: "string \<Rightarrow> string" where
  "image_alt l = takeWhile (\<lambda>c. c \<noteq> CHR '']'') (drop 2 l)"

definition image_path :: "string \<Rightarrow> string" where
  "image_path l = butlast (drop (length (image_alt l) + 4) l)"

definition image_block :: "string \<Rightarrow> bytes \<Rightarrow> string" where
  "image_block alt data = ''<figure><img alt=\"'' @ html_escape alt @ ''\" src=\"data:image/png;base64,'' @ b64_encode data
     @ ''\"></figure>''"

definition heading_block :: "string \<Rightarrow> string" where
  "heading_block l =
     (let level = length (takeWhile (\<lambda>c. c = CHR ''#'') l); label = drop (level + 1) l;
          ident = (if re_match anchor_rx label then '' id=\"'' @ take 4 label @ ''\"'' else []) in
      ''<h'' @ show_nat level @ ident @ ''>'' @ inline_html label @ ''</h'' @ show_nat level @ ''>'')"

text \<open>A table: \<open>rows[0]\<close> raises \<open>IndexError\<close> when every line is a delimiter row.\<close>

definition strip_bars :: "string \<Rightarrow> string" where
  "strip_bars l = rev (dropWhile (\<lambda>c. c = CHR ''|'') (rev (dropWhile (\<lambda>c. c = CHR ''|'') l)))"

definition cells_of :: "string \<Rightarrow> string list" where
  "cells_of l = map strip (split_on (CHR ''|'') (strip_bars l))"

definition delimiter_row :: "string list \<Rightarrow> bool" where
  "delimiter_row cells = list_all (re_fullmatch delim_rx) cells"

definition index_error :: exn where
  "index_error = OtherError ''list index out of range''"

definition table_row :: "string \<Rightarrow> string list \<Rightarrow> string" where
  "table_row tag row = concat (map (\<lambda>c. ''<'' @ tag @ ''>'' @ inline_html c @ ''</'' @ tag @ ''>'') row)"

definition table_block :: "string list \<Rightarrow> string res" where
  "table_block ls = (case filter (\<lambda>r. \<not> delimiter_row r) (map cells_of ls) of
     [] \<Rightarrow> Inl index_error
   | header # rows \<Rightarrow> Inr (''<table><thead><tr>'' @ table_row ''th'' header @ ''</tr></thead><tbody>''
       @ concat (map (\<lambda>r. ''<tr>'' @ table_row ''td'' r @ ''</tr>'') rows) @ ''</tbody></table>''))"

text \<open>The items of a list and the lines after it; a blank line between two items is skipped.\<close>

fun list_items :: "rx \<Rightarrow> string list \<Rightarrow> string list \<times> string list" where
  "list_items r [] = ([], [])"
| "list_items r (l # ls) =
     (if strip l = [] \<and> (case ls of [] \<Rightarrow> False | n # _ \<Rightarrow> re_match r n) then list_items r ls
      else if \<not> re_match r l then ([], l # ls)
      else case list_items r ls of (is, rest) \<Rightarrow>
        ((''<li>'' @ inline_html (re_sub (Seq Bos r) (\<lambda>_. []) (None, l)) @ ''</li>'') # is, rest))"

definition list_block :: "bool \<Rightarrow> string list \<Rightarrow> string" where
  "list_block ordered items = (let tag = (if ordered then ''ol'' else ''ul'') in
     ''<'' @ tag @ ''>'' @ concat items @ ''</'' @ tag @ ''>'')"

definition item_rx :: "string \<Rightarrow> rx" where
  "item_rx l = (if prefix ''- '' l then bullet_rx else ordered_rx)"

definition in_paragraph :: "string \<Rightarrow> bool" where
  "in_paragraph l = (strip l \<noteq> [] \<and> \<not> re_match block_rx l)"

definition add_block :: "string res \<Rightarrow> string list res \<Rightarrow> string list res" where
  "add_block b bs = bind_res b (\<lambda>x. bind_res bs (\<lambda>xs. Inr (x # xs)))"

text \<open>A line that opens a list is its first item, so the loop over a list makes progress.\<close>

lemma re_match_Alt: "re_match (Alt a b) s \<longleftrightarrow> re_match a s \<or> re_match b s"
  by (simp add: re_match_def)

lemma bullet_iff: "re_match bullet_rx l \<longleftrightarrow> prefix ''- '' l"
  unfolding re_match_def mt_empty_iff by (auto simp: bullet_rx_def den_seq_iff prefix_def)

lemma opens_list: "re_match list_rx l \<Longrightarrow> re_match (item_rx l) l"
  by (auto simp: list_rx_def re_match_Alt item_rx_def bullet_iff)

lemma list_items_rest: "length (snd (list_items r ls)) \<le> length ls"
  by (induction r ls rule: list_items.induct) (auto split: prod.splits)

lemma list_items_progress: "re_match r l \<Longrightarrow> strip l \<noteq> [] \<Longrightarrow> length (snd (list_items r (l # ls))) \<le> length ls"
  using list_items_rest[of r ls] by (auto split: prod.splits)

text \<open>\<open>markdown_to_html\<close>: one block after the other; \<open>read\<close> is \<open>(ROOT / path).resolve().read_bytes()\<close>.\<close>

function blocks :: "(string \<Rightarrow> bytes res) \<Rightarrow> string list \<Rightarrow> string list res" where
  "blocks read [] = Inr []"
| "blocks read (l # ls) =
     (if strip l = [] then blocks read ls
      else if fence l
      then add_block (Inr (code_block (takeWhile (\<lambda>c. \<not> fence c) ls))) (blocks read (drop 1 (dropWhile (\<lambda>c. \<not> fence c) ls)))
      else if re_fullmatch image_rx l
      then add_block (bind_res (read (image_path l)) (\<lambda>data. Inr (image_block (image_alt l) data))) (blocks read ls)
      else if re_match heading_rx l then add_block (Inr (heading_block l)) (blocks read ls)
      else if prefix ''|'' l
      then add_block (table_block (l # takeWhile (prefix ''|'') ls)) (blocks read (dropWhile (prefix ''|'') ls))
      else if re_match list_rx l
      then add_block (Inr (list_block (\<not> prefix ''- '' l) (fst (list_items (item_rx l) (l # ls)))))
        (blocks read (snd (list_items (item_rx l) (l # ls))))
      else add_block (Inr (''<p>'' @ inline_html (join '' '' (l # takeWhile in_paragraph ls)) @ ''</p>''))
        (blocks read (dropWhile in_paragraph ls)))"
  by pat_completeness auto
termination
proof (relation "measure (\<lambda>(read, ls). length ls)", goal_cases)
  case (3 read l ls)
  have "length (dropWhile (\<lambda>c. \<not> fence c) ls) \<le> length ls" by (rule length_dropWhile_le)
  then show ?case by simp
next
  case (7 read l ls)
  with list_items_progress[OF opens_list, of l ls] show ?case by (simp del: list_items.simps)
qed (auto simp: le_imp_less_Suc length_dropWhile_le)

declare blocks.simps(2) [simp del]

definition markdown_to_html :: "(string \<Rightarrow> bytes res) \<Rightarrow> string \<Rightarrow> string res" where
  "markdown_to_html read text = bind_res (blocks read (splitlines text)) (\<lambda>bs. Inr (join newline bs))"

section \<open>The two guides\<close>

record qa =
  qa_id :: string
  qa_question :: string
  qa_quick :: string
  qa_detail :: string
  qa_follow :: string

record topic =
  tp_title :: string
  tp_overview :: string
  tp_questions :: "qa list"

text \<open>The authored prose of the script and of \<open>detailed-introduction.md\<close>.\<close>

record prose =
  quick_intro :: "string list"
  quick_reminders :: string
  detail_intro :: string
  detail_references :: string
  detail_checklist :: string

definition all_questions :: "topic list \<Rightarrow> qa list" where
  "all_questions topics = concat (map tp_questions topics)"

definition question_id :: "nat \<Rightarrow> string" where
  "question_id i = ''Q'' @ replicate (3 - length (show_nat i)) (CHR ''0'') @ show_nat i"

definition check_bank :: "topic list \<Rightarrow> unit res" where
  "check_bank topics = (let qs = all_questions topics in
     if length qs = 220 \<and> map qa_id qs = map question_id [1..<221] then Inr () else Inl (OtherError ''AssertionError''))"

definition topic_heading :: "nat \<Rightarrow> topic \<Rightarrow> string" where
  "topic_heading i tp = ''## '' @ show_nat i @ '' '' @ tp_title tp"

definition quick_topic :: "nat \<times> topic \<Rightarrow> string list" where
  "quick_topic = (\<lambda>(i, tp). topic_heading i tp #
     map (\<lambda>q. ''- **'' @ qa_id q @ '' '' @ qa_question q @ ''** '' @ qa_quick q) (tp_questions tp))"

definition detail_topic :: "nat \<times> topic \<Rightarrow> string list" where
  "detail_topic = (\<lambda>(i, tp). topic_heading i tp # tp_overview tp #
     concat (map (\<lambda>q. [''### '' @ qa_id q @ '' '' @ qa_question q, ''**Short answer:** '' @ qa_quick q, qa_detail q,
       ''**Self-test follow-up:** '' @ qa_follow q]) (tp_questions tp)))"

definition source_rx :: rx where
  "source_rx = Seqs [Lit ''['', Except (CHR '']''), Lit ''](http'', Opt (Lit ''s''), Lit ''://'', Except (CHR '')''), Lit '')'']"

text \<open>\<open>if url not in [u for _, u in source_links]\<close>: a page is listed under its first label.\<close>

definition add_source :: "(string \<times> string) list \<Rightarrow> string \<Rightarrow> (string \<times> string) list" where
  "add_source links m = (if link_target m \<in> set (map snd links) then links else links @ [(link_label m, link_target m)])"

definition source_links :: "qa list \<Rightarrow> (string \<times> string) list" where
  "source_links qs = foldl add_source [] (concat (map (\<lambda>q. re_findall source_rx (None, qa_detail q)) qs))"

definition blank_line :: string where
  "blank_line = newline @ newline"

definition quick_guide :: "prose \<Rightarrow> topic list \<Rightarrow> string" where
  "quick_guide p topics = join blank_line (quick_intro p @ concat (map quick_topic (enumerate 1 topics))
     @ [''## Final interview reminders'', quick_reminders p]) @ newline"

definition detail_guide :: "prose \<Rightarrow> topic list \<Rightarrow> string" where
  "detail_guide p topics = join blank_line ([rstrip (detail_intro p)] @ concat (map detail_topic (enumerate 1 topics))
     @ [''## Primary references'', detail_references p]
     @ map (\<lambda>(label, url). ''- ['' @ label @ ''](''  @ url @ '')'') (source_links (all_questions topics))
     @ [''## Completion checklist for your preparation'', detail_checklist p]) @ newline"

section \<open>The pages\<close>

text \<open>\<open>Path.read_text\<close> turns every line ending into a line feed.\<close>

fun universal_newlines :: "string \<Rightarrow> string" where
  "universal_newlines [] = []"
| "universal_newlines [c] = [if c = CHR 0x0D then CHR 0x0A else c]"
| "universal_newlines (c # d # cs) =
     (if c = CHR 0x0D \<and> d = CHR 0x0A then CHR 0x0A # universal_newlines cs
      else (if c = CHR 0x0D then CHR 0x0A else c) # universal_newlines (d # cs))"

definition page :: "string \<Rightarrow> (string \<Rightarrow> bytes res) \<Rightarrow> string \<Rightarrow> string res" where
  "page css read md = (case splitlines md of
     [] \<Rightarrow> Inl index_error
   | l # _ \<Rightarrow> let title = (if prefix ''# '' l then drop 2 l else l) in
       bind_res (markdown_to_html read md) (\<lambda>body. Inr (
         ''<!doctype html>'' @ newline @ ''<html lang=\"en\"><head><meta charset=\"utf-8\"><meta name=\"viewport\" ''
         @ ''content=\"width=device-width, initial-scale=1\"><title>'' @ html_escape title @ ''</title><style>'' @ css
         @ ''</style></head><body><main>'' @ newline @ body @ newline @ ''</main></body></html>'' @ newline)))"

text \<open>The files the script writes, in order, and how it ends.\<close>

definition build_guides :: "prose \<Rightarrow> string \<Rightarrow> (string \<Rightarrow> bytes res) \<Rightarrow> string \<Rightarrow> topic list \<Rightarrow> (string \<times> string) list \<times> unit res" where
  "build_guides p css read status topics = (case check_bank topics of
     Inl e \<Rightarrow> ([], Inl e)
   | Inr _ \<Rightarrow>
       let quick = quick_guide p topics; detail = detail_guide p topics;
           texts = [(''quick-revision.md'', quick), (''detailed-explanation.md'', detail)] in
       case page css read (universal_newlines quick) of
         Inl e \<Rightarrow> (texts, Inl e)
       | Inr quick_page \<Rightarrow>
           let texts = texts @ [(''quick-revision.html'', quick_page)] in
           (case page css read (universal_newlines detail) of
             Inl e \<Rightarrow> (texts, Inl e)
           | Inr detail_page \<Rightarrow>
               (texts @ [(''detailed-explanation.html'', detail_page), (''delivery-status.json'', status)], Inr ())))"

section \<open>The tags of a page\<close>

definition inline_tags :: "string list" where
  "inline_tags = [''<code>'', ''</code>'', ''<strong>'', ''</strong>'']"

definition own_tags :: "string list" where
  "own_tags = inline_tags @ [''</a>'', ''<pre><code>'', ''</pre>'', ''<figure>'', ''</figure>'', ''<table>'', ''<thead>'', ''<tr>'',
     ''<th>'', ''</th>'', ''</tr>'', ''</thead>'', ''<tbody>'', ''<td>'', ''</td>'', ''</tbody>'', ''</table>'', ''<ol>'', ''</ol>'',
     ''<ul>'', ''</ul>'', ''<li>'', ''</li>'', ''<p>'', ''</p>'']
     @ concat (map (\<lambda>i. [''<h'' @ show_nat i @ ''>'', ''<h'' @ show_nat i @ '' id=\"Q'', ''</h'' @ show_nat i @ ''>'']) [1..<7])"

text \<open>A link and an image carry text of the document in an attribute, which ends at the next quotation mark.\<close>

definition attribute :: "string \<Rightarrow> string \<Rightarrow> string \<Rightarrow> bool" where
  "attribute before behind w = (prefix before w \<and> prefix behind (dropWhile (\<lambda>c. c \<noteq> CHR 0x22) (drop (length before) w)))"

definition opens_link :: "string \<Rightarrow> bool" where
  "opens_link = attribute ''<a href=\"'' ''\">''"

definition opens_image :: "string \<Rightarrow> bool" where
  "opens_image = attribute ''<img alt=\"'' ''\" src=\"data:image/png;base64,''"

definition starts :: "string list \<Rightarrow> string \<Rightarrow> bool" where
  "starts ts w = list_ex (\<lambda>t. prefix t w) ts"

definition own_tag :: "string \<Rightarrow> bool" where
  "own_tag w = (starts own_tags w \<or> opens_link w \<or> opens_image w)"

text \<open>Every \<open><\<close> of a text starts a tag that \<open>T\<close> admits.\<close>

fun tags_ok :: "(string \<Rightarrow> bool) \<Rightarrow> string \<Rightarrow> bool" where
  "tags_ok T [] = True"
| "tags_ok T (c # cs) = ((c = CHR ''<'' \<longrightarrow> T (c # cs)) \<and> tags_ok T cs)"

definition grows :: "(string \<Rightarrow> bool) \<Rightarrow> bool" where
  "grows T = (\<forall>w k. T w \<longrightarrow> T (w @ k))"

lemma growsD: "grows T \<Longrightarrow> T w \<Longrightarrow> T (w @ k)"
  by (simp add: grows_def)

lemma tags_ok_iff: "tags_ok T s \<longleftrightarrow> (\<forall>u v. s = u @ CHR ''<'' # v \<longrightarrow> T (CHR ''<'' # v))"
proof (induction s)
  case (Cons c cs)
  have "(\<forall>u v. c # cs = u @ CHR ''<'' # v \<longrightarrow> T (CHR ''<'' # v)) \<longleftrightarrow>
      (c = CHR ''<'' \<longrightarrow> T (c # cs)) \<and> (\<forall>u v. cs = u @ CHR ''<'' # v \<longrightarrow> T (CHR ''<'' # v))"
    by (auto simp: Cons_eq_append_conv)
  with Cons show ?case by simp
qed simp

lemma tags_ok_append: "grows T \<Longrightarrow> tags_ok T a \<Longrightarrow> tags_ok T b \<Longrightarrow> tags_ok T (a @ b)"
  by (induction a) (auto dest: growsD[of T "_ # _"])

lemma tags_ok_suffix: "tags_ok T (a @ b) \<Longrightarrow> tags_ok T b"
  by (induction a) auto

lemma tags_ok_mono: "(\<And>w. T w \<Longrightarrow> T' w) \<Longrightarrow> tags_ok T s \<Longrightarrow> tags_ok T' s"
  by (induction s) auto

lemma tags_ok_plain: "CHR ''<'' \<notin> set s \<Longrightarrow> tags_ok T s"
  by (induction s) auto

lemma tags_ok_concat: "grows T \<Longrightarrow> (\<And>s. s \<in> set ss \<Longrightarrow> tags_ok T s) \<Longrightarrow> tags_ok T (concat ss)"
  by (induction ss) (auto intro: tags_ok_append)

lemma tags_ok_join: "grows T \<Longrightarrow> tags_ok T sep \<Longrightarrow> (\<And>s. s \<in> set ss \<Longrightarrow> tags_ok T s) \<Longrightarrow> tags_ok T (join sep ss)"
  by (induction sep ss rule: join.induct) (auto intro!: tags_ok_append)

text \<open>A text may be cut at a character that occurs in no tag.\<close>

lemma starts_cut:
  assumes "starts ts (w @ c # k)" "\<And>t. t \<in> set ts \<Longrightarrow> c \<notin> set t"
  shows "starts ts w"
proof -
  obtain t where t: "t \<in> set ts" "prefix t (w @ c # k)" using assms(1) by (auto simp: starts_def list_ex_iff)
  then have "prefix t w" using assms(2)[OF t(1)] by (auto simp: prefix_append prefix_Cons)
  with t(1) show ?thesis by (auto simp: starts_def list_ex_iff)
qed

lemma tags_ok_cut:
  assumes "tags_ok (starts ts) (w @ c # k)" "\<And>t. t \<in> set ts \<Longrightarrow> c \<notin> set t"
  shows "tags_ok (starts ts) w"
  using assms(1)
proof (induction w)
  case (Cons d ds)
  then show ?case using starts_cut[of ts "d # ds" c k] assms(2) by auto
qed simp

lemma grows_starts: "grows (starts ts)"
  by (auto simp: grows_def starts_def list_ex_iff intro: prefix_prefix)

lemma dropWhile_grows: "dropWhile P x = y # ys \<Longrightarrow> dropWhile P (x @ k) = y # ys @ k"
  by (induction x) (auto split: if_splits)

lemma attribute_grows:
  assumes "attribute a b w" "b \<noteq> []"
  shows "attribute a b (w @ k)"
proof -
  let ?p = "\<lambda>c. c \<noteq> CHR 0x22"
  obtain zs where w: "w = a @ zs" using assms(1) by (auto simp: attribute_def prefix_def)
  then obtain ys where "dropWhile ?p zs = b @ ys" using assms(1) by (auto simp: attribute_def prefix_def)
  then have "dropWhile ?p (zs @ k) = b @ ys @ k" using assms(2) by (cases b) (simp_all add: dropWhile_grows)
  then show ?thesis by (simp add: attribute_def w)
qed

lemma grows_own_tag: "grows own_tag"
  unfolding grows_def own_tag_def opens_link_def opens_image_def
  using growsD[OF grows_starts[of own_tags]] attribute_grows[OF _ list.distinct(2)] by blast

section \<open>Substitution keeps the tags\<close>

text \<open>A text in which no match can begin is copied.\<close>

definition begins_with :: "rx \<Rightarrow> char \<Rightarrow> bool" where
  "begins_with r d = (\<forall>pv w k. den r pv w k \<longrightarrow> (\<exists>v. w = d # v))"

lemma no_match_at: "begins_with r d \<Longrightarrow> c \<noteq> d \<Longrightarrow> first_match r (pv, c # cs) = None"
proof (rule ccontr)
  assume b: "begins_with r d" "c \<noteq> d" "first_match r (pv, c # cs) \<noteq> None"
  then obtain t where "first_match r (pv, c # cs) = Some t" by blast
  from first_match_Some[OF this] obtain w where w: "c # cs = w @ snd t" "den r pv w (snd t)" by blast
  from b(1) w(2) obtain v where "w = d # v" unfolding begins_with_def by blast
  with w(1) b(2) show False by simp
qed

lemma re_sub_copies:
  assumes "begins_with r d" "d \<notin> set t"
  shows "re_sub r f (pv, t @ s) = t @ re_sub r f (after pv t, s)"
  using assms(2) by (induction t arbitrary: pv) (auto simp: re_sub_skip no_match_at[OF assms(1)])

lemma re_sub_tags:
  assumes begins: "begins_with r d" and fresh: "\<And>t. t \<in> set ts \<Longrightarrow> d \<notin> set t"
    and T: "grows T" "\<And>w. starts ts w \<Longrightarrow> T w"
    and f: "\<And>pv w k. den r pv w k \<Longrightarrow> tags_ok (starts ts) (w @ k) \<Longrightarrow> set (w @ k) \<subseteq> C \<Longrightarrow> tags_ok T (f w)"
  shows "tags_ok (starts ts) s \<Longrightarrow> set s \<subseteq> C \<Longrightarrow> tags_ok T (re_sub r f (pv, s))"
proof (induction s arbitrary: pv rule: length_induct)
  case (1 s)
  show ?case
  proof (cases "first_match r (pv, s)")
    case (Some t)
    obtain w where w: "w \<noteq> []" "s = w @ snd t" "den r pv w (snd t)" "consumed (pv, s) t = w"
      using first_match_Some[OF Some] by blast
    have "tags_ok T (f w)" using f[OF w(3)] 1(2,3) w(2) by simp
    moreover have "length (snd t) < length s" using first_match_shorter[OF Some] by simp
    moreover have "tags_ok (starts ts) (snd t)" "set (snd t) \<subseteq> C"
      using 1(2,3) tags_ok_suffix[of "starts ts" w "snd t"] unfolding w(2) by auto
    ultimately have "tags_ok T (re_sub r f (fst t, snd t))" using 1(1) by blast
    then have "tags_ok T (re_sub r f t)" by simp
    with \<open>tags_ok T (f w)\<close> show ?thesis using w(4) by (simp add: re_sub_match[OF Some] tags_ok_append[OF T(1)])
  next
    case None
    show ?thesis
    proof (cases s)
      case (Cons c cs)
      have sub: "re_sub r f (pv, s) = c # re_sub r f (Some c, cs)" using None Cons by (simp add: re_sub_skip)
      have "T (c # re_sub r f (Some c, cs))" if lt: "c = CHR ''<''"
      proof -
        obtain t v where t: "t \<in> set ts" "s = t @ v" using 1(2) Cons lt by (auto simp: starts_def list_ex_iff prefix_def)
        have "re_sub r f (pv, s) = t @ re_sub r f (after pv t, v)"
          unfolding t(2) by (rule re_sub_copies[OF begins fresh[OF t(1)]])
        then have "starts ts (re_sub r f (pv, s))" using t(1) by (auto simp: starts_def list_ex_iff intro: bexI[of _ t])
        then show ?thesis using T(2) sub by simp
      qed
      moreover have "tags_ok T (re_sub r f (Some c, cs))" using 1 Cons by simp
      ultimately show ?thesis unfolding sub by simp
    qed simp
  qed
qed

lemma re_sub_no_char:
  assumes "\<And>m. c \<notin> set m \<Longrightarrow> c \<notin> set (f m)"
  shows "c \<notin> set s \<Longrightarrow> c \<notin> set (re_sub r f (pv, s))"
proof (induction s arbitrary: pv rule: length_induct)
  case (1 s)
  show ?case
  proof (cases "first_match r (pv, s)")
    case (Some t)
    obtain w where w: "w \<noteq> []" "s = w @ snd t" "consumed (pv, s) t = w" using first_match_Some[OF Some] by blast
    then have "c \<notin> set w" "c \<notin> set (snd t)" using 1(2) by (metis Un_iff set_append)+
    moreover have "length (snd t) < length s" using first_match_shorter[OF Some] by simp
    with 1(1) \<open>c \<notin> set (snd t)\<close> have "c \<notin> set (re_sub r f (fst t, snd t))" by blast
    then have "c \<notin> set (re_sub r f t)" by simp
    ultimately show ?thesis using w(3) assms by (simp add: re_sub_match[OF Some])
  next
    case None
    then show ?thesis using 1 by (cases s) (simp_all add: re_sub_skip)
  qed
qed

text \<open>The shape of a match of the three inline patterns.\<close>

lemma den_except: "den (Except d) pv w k \<longleftrightarrow> w \<noteq> [] \<and> d \<notin> set w"
proof
  show "w \<noteq> [] \<and> d \<notin> set w" if "den (Except d) pv w k"
    using that by (auto simp: Plus_def den_seq_iff den_star_cls list_all_iff)
  assume w: "w \<noteq> [] \<and> d \<notin> set w"
  then obtain c v where "w = [c] @ v" "c \<noteq> d" "d \<notin> set v" by (cases w) auto
  then show "den (Except d) pv w k"
    unfolding Plus_def den_seq_iff den_star_cls list_all_iff den_cls_iff by blast
qed

lemma den_code: "den code_rx pv w k \<Longrightarrow> \<exists>g. w = [CHR 0x60] @ g @ [CHR 0x60]"
  by (auto simp: code_rx_def den_seq_iff den_except)

lemma den_strong: "den strong_rx pv w k \<Longrightarrow> \<exists>g. w = ''**'' @ g @ ''**''"
  by (auto simp: strong_rx_def den_seq_iff den_except)

lemma den_link: "den link_rx pv w k \<Longrightarrow> \<exists>a b. w = ''['' @ a @ ''](''  @ b @ '')'' \<and> CHR '']'' \<notin> set a"
  by (auto simp: link_rx_def den_seq_iff den_except)

lemma begins_inline: "begins_with code_rx (CHR 0x60)" "begins_with strong_rx (CHR ''*'')" "begins_with link_rx (CHR ''['')"
  unfolding begins_with_def using den_code den_strong den_link by fastforce+

section \<open>What a page contains\<close>

lemma html_escape_chars: "CHR ''<'' \<notin> set (html_escape s)" "CHR 0x22 \<notin> set (html_escape s)"
  by (auto simp: html_escape_def html_char_def)

lemma code_tags:
  assumes "CHR ''<'' \<notin> set s"
  shows "tags_ok (starts [''<code>'', ''</code>'']) (re_sub code_rx inline_code (None, s))"
proof (rule re_sub_tags[OF begins_inline(1), of "[]" _ UNIV])
  show "tags_ok (starts [''<code>'', ''</code>'']) (inline_code w)"
    if d: "den code_rx pv w k" and t: "tags_ok (starts []) (w @ k)" for pv w k
  proof -
    obtain g where w: "w = [CHR 0x60] @ g @ [CHR 0x60]" using den_code[OF d] by blast
    have "tags_ok (starts []) g" using t tags_ok_cut[of "[]" g "CHR 0x60" k] by (simp add: w)
    then have g: "tags_ok (starts [''<code>'', ''</code>'']) g" by (rule tags_ok_mono[rotated]) (simp add: starts_def)
    show ?thesis unfolding inline_code_def w group_of_def
      by (intro tags_ok_append[OF grows_starts]) (use g in \<open>simp_all add: starts_def\<close>)
  qed
qed (use assms in \<open>auto simp: grows_starts starts_def tags_ok_plain\<close>)

lemma strong_tags:
  assumes "tags_ok (starts [''<code>'', ''</code>'']) s"
  shows "tags_ok (starts inline_tags) (re_sub strong_rx inline_strong (None, s))"
proof (rule re_sub_tags[OF begins_inline(2) _ _ _ _ assms, of _ UNIV])
  show "tags_ok (starts inline_tags) (inline_strong w)"
    if d: "den strong_rx pv w k" and t: "tags_ok (starts [''<code>'', ''</code>'']) (w @ k)" for pv w k
  proof -
    obtain g where w: "w = ''**'' @ g @ ''**''" using den_strong[OF d] by blast
    have "tags_ok (starts [''<code>'', ''</code>'']) (g @ CHR ''*'' # ''*'' @ k)" using t by (simp add: w)
    then have "tags_ok (starts [''<code>'', ''</code>'']) g" by (rule tags_ok_cut) auto
    then have g: "tags_ok (starts inline_tags) g" by (rule tags_ok_mono[rotated]) (auto simp: starts_def inline_tags_def)
    show ?thesis unfolding inline_strong_def w group_of_def
      by (intro tags_ok_append[OF grows_starts]) (use g in \<open>simp_all add: starts_def inline_tags_def\<close>)
  qed
qed (auto simp: grows_starts starts_def inline_tags_def)

lemma own_tag_inline: "starts inline_tags w \<Longrightarrow> own_tag w"
  by (simp add: own_tag_def own_tags_def starts_def)

lemma inline_own: "tags_ok (starts inline_tags) s \<Longrightarrow> tags_ok own_tag s"
  using tags_ok_mono[of "starts inline_tags" own_tag s] own_tag_inline by blast

lemma tags_ok_tag: "own_tag (CHR ''<'' # t) \<Longrightarrow> CHR ''<'' \<notin> set t \<Longrightarrow> tags_ok own_tag (CHR ''<'' # t)"
  by (simp add: tags_ok_plain)

lemma link_opens: "CHR 0x22 \<notin> set b \<Longrightarrow> opens_link (''<a href=\"'' @ b @ ''\">'' @ k)"
proof -
  assume "CHR 0x22 \<notin> set b"
  then have "dropWhile (\<lambda>c. c \<noteq> CHR 0x22) (b @ ''\">'' @ k) = ''\">'' @ k" by (induction b) auto
  then show ?thesis by (simp add: opens_link_def attribute_def)
qed

lemma link_parts:
  assumes "CHR '']'' \<notin> set a"
  shows "link_label (''['' @ a @ ''](''  @ b @ '')'') = a" "link_target (''['' @ a @ ''](''  @ b @ '')'') = b"
proof -
  have "takeWhile (\<lambda>c. c \<noteq> CHR '']'') (a @ ''](''  @ b @ '')'') = a" using assms by (induction a) auto
  then show l: "link_label (''['' @ a @ ''](''  @ b @ '')'') = a" by (simp add: link_label_def)
  show "link_target (''['' @ a @ ''](''  @ b @ '')'') = b" unfolding link_target_def l
    by (simp add: numeral_3_eq_3 butlast_append)
qed

lemma link_tags:
  assumes "tags_ok (starts inline_tags) s" "CHR 0x22 \<notin> set s"
  shows "tags_ok own_tag (re_sub link_rx inline_link (None, s))"
proof (rule re_sub_tags[OF begins_inline(3) _ grows_own_tag own_tag_inline _ assms(1), of "- {CHR 0x22}"])
  show "tags_ok own_tag (inline_link w)"
    if d: "den link_rx pv w k" and t: "tags_ok (starts inline_tags) (w @ k)" and q: "set (w @ k) \<subseteq> - {CHR 0x22}" for pv w k
  proof -
    obtain a b where w: "w = ''['' @ a @ ''](''  @ b @ '')''" and a: "CHR '']'' \<notin> set a" using den_link[OF d] by blast
    have no: "CHR '']'' \<notin> set t" "CHR '')'' \<notin> set t" if "t \<in> set inline_tags" for t
      using that by (auto simp: inline_tags_def)
    have ab: "tags_ok (starts inline_tags) (a @ CHR '']'' # ''(''  @ b @ '')'' @ k)" using t by (simp add: w)
    have "tags_ok (starts inline_tags) a" by (rule tags_ok_cut[OF ab no(1)])
    then have ta: "tags_ok own_tag a" by (rule inline_own)
    have "tags_ok (starts inline_tags) (b @ CHR '')'' # k)"
      using tags_ok_suffix[of _ "a @ ''](''" "b @ CHR '')'' # k"] ab by simp
    from tags_ok_cut[OF this no(2)] have tb: "tags_ok own_tag b" by (rule inline_own)
    have "CHR 0x22 \<notin> set b" using q by (auto simp: w)
    then have "own_tag (''<a href=\"'' @ b @ ''\">'' @ a @ ''</a>'')" using link_opens by (simp add: own_tag_def)
    moreover have "tags_ok own_tag (b @ ''\">'' @ a @ ''</a>'')"
      by (intro tags_ok_append[OF grows_own_tag] ta tb) (simp_all add: own_tag_def own_tags_def starts_def)
    ultimately show ?thesis unfolding inline_link_def w link_parts[OF a] by simp
  qed
qed (use assms(2) in \<open>auto simp: inline_tags_def\<close>)

lemma group_no_char: "c \<notin> set m \<Longrightarrow> c \<notin> set (group_of n m)"
  by (auto simp: group_of_def dest: in_set_takeD in_set_dropD)

lemma inline_html_tags: "tags_ok own_tag (inline_html s)"
  unfolding inline_html_def Let_def
proof (rule link_tags)
  show "tags_ok (starts inline_tags) (re_sub strong_rx inline_strong (None, re_sub code_rx inline_code (None, html_escape s)))"
    by (rule strong_tags[OF code_tags[OF html_escape_chars(1)]])
  show "CHR 0x22 \<notin> set (re_sub strong_rx inline_strong (None, re_sub code_rx inline_code (None, html_escape s)))"
    by (intro re_sub_no_char html_escape_chars(2)) (auto simp: inline_strong_def inline_code_def group_no_char)
qed

lemma own_tags_own: "t \<in> set own_tags \<Longrightarrow> own_tag (t @ k)"
  by (auto simp: own_tag_def starts_def list_ex_iff intro: bexI[of _ t])

text \<open>A text between two tags of the generator.\<close>

lemma enclosed:
  assumes "CHR ''<'' # a \<in> set own_tags" "CHR ''<'' # b \<in> set own_tags" "CHR ''<'' \<notin> set a" "CHR ''<'' \<notin> set b" "tags_ok own_tag s"
  shows "tags_ok own_tag (CHR ''<'' # a @ s @ CHR ''<'' # b)"
proof -
  have "tags_ok own_tag (CHR ''<'' # a)" "tags_ok own_tag (CHR ''<'' # b)"
    using own_tags_own[OF assms(1), of "[]"] own_tags_own[OF assms(2), of "[]"] assms(3,4) by (simp_all add: tags_ok_plain)
  then show ?thesis using tags_ok_append[OF grows_own_tag, of "CHR ''<'' # a" "s @ CHR ''<'' # b"]
      tags_ok_append[OF grows_own_tag assms(5), of "CHR ''<'' # b"] by simp
qed

lemma code_block_tags: "tags_ok own_tag (code_block code)"
proof -
  have "tags_ok own_tag ''<pre><code>''" "tags_ok own_tag ''</code></pre>''"
    by (simp_all add: own_tag_def own_tags_def inline_tags_def starts_def)
  then show ?thesis unfolding code_block_def
    using tags_ok_append[OF grows_own_tag] tags_ok_plain[OF html_escape_chars(1)] by blast
qed

lemma image_opens: "CHR 0x22 \<notin> set b \<Longrightarrow> opens_image (''<img alt=\"'' @ b @ ''\" src=\"data:image/png;base64,'' @ k)"
proof -
  assume "CHR 0x22 \<notin> set b"
  then have "dropWhile (\<lambda>c. c \<noteq> CHR 0x22) (b @ ''\" src=\"data:image/png;base64,'' @ k) = ''\" src=\"data:image/png;base64,'' @ k"
    by (induction b) auto
  then show ?thesis by (simp add: opens_image_def attribute_def)
qed

lemma b64_char_plain: "n < 64 \<Longrightarrow> b64_char n \<noteq> CHR ''<''"
proof
  assume "n < 64" "b64_char n = CHR ''<''"
  then have "b64_val (CHR ''<'') = Some n" using b64_val_char[of n] by metis
  moreover have "b64_val (CHR ''<'') = None" by code_simp
  ultimately show False by simp
qed

lemma b64_plain: "CHR ''<'' \<notin> set (b64_encode bs)"
  by (induction bs rule: b64_encode.induct) (auto simp: b64_char_plain[THEN not_sym])

lemma image_block_tags: "tags_ok own_tag (image_block alt bs)"
proof -
  let ?k = "b64_encode bs @ ''\"></figure>''"
  have "tags_ok own_tag ''\"></figure>''" by (simp add: own_tag_def own_tags_def starts_def)
  then have k: "tags_ok own_tag ?k" using tags_ok_append[OF grows_own_tag] tags_ok_plain[OF b64_plain] by blast
  then have "tags_ok own_tag (''\" src=\"data:image/png;base64,'' @ ?k)" by simp
  then have "tags_ok own_tag (html_escape alt @ ''\" src=\"data:image/png;base64,'' @ ?k)"
    using tags_ok_append[OF grows_own_tag] tags_ok_plain[OF html_escape_chars(1)] by blast
  moreover have "own_tag (''<img alt=\"'' @ html_escape alt @ ''\" src=\"data:image/png;base64,'' @ ?k)"
    using image_opens[OF html_escape_chars(2)] by (simp add: own_tag_def)
  moreover have "own_tag (''<figure>'' @ w)" for w by (rule own_tags_own) (simp add: own_tags_def)
  ultimately show ?thesis by (simp add: image_block_def)
qed

lemma den_at_most: "den (at_most n (Cls p)) pv w k \<Longrightarrow> length w \<le> n \<and> list_all p w"
  by (induction n arbitrary: pv w) (fastforce simp: Opt_def den_seq_iff)+

lemma heading_level:
  assumes "re_match heading_rx l"
  shows "length (takeWhile (\<lambda>c. c = CHR ''#'') l) \<in> {1..<7}"
proof -
  obtain w k where "l = w @ k" "den heading_rx None w k" using assms by (auto simp: re_match_def mt_empty_iff)
  then obtain h pv k' where h: "l = CHR ''#'' # h @ '' '' @ k" "den (at_most 5 Hash) pv h k'"
    unfolding heading_rx_def Seqs.simps den_seq_iff den_cls_iff Lit.simps by force
  from den_at_most[OF h(2)] have "length h \<le> 5" "list_all (\<lambda>c. c = CHR ''#'') h" by auto
  moreover from this(2) have "takeWhile (\<lambda>c. c = CHR ''#'') (h @ '' '' @ k) = h" by (induction h) auto
  ultimately show ?thesis unfolding h(1) by simp
qed

lemma show_nat_plain: "CHR ''<'' \<notin> set (show_nat n)"
proof (induction n rule: show_nat.induct)
  case (1 n)
  have d: "char_of (48 + m) \<noteq> CHR ''<''" if "m < 10" for m :: nat
  proof
    assume "char_of (48 + m) = CHR ''<''"
    then have "ord (char_of (48 + m) :: char) = (60 :: nat)" by simp
    then show False using that by (simp add: take_bit_nat_eq_self)
  qed
  from 1 d[of n, THEN not_sym] d[of "n mod 10", THEN not_sym] show ?case by (subst show_nat.simps) auto
qed

lemma heading_block_tags:
  assumes "re_match heading_rx l"
  shows "tags_ok own_tag (heading_block l)"
proof -
  define n where "n = length (takeWhile (\<lambda>c. c = CHR ''#'') l)"
  define label where "label = drop (n + 1) l"
  define ident where "ident = (if re_match anchor_rx label then '' id=\"'' @ take 4 label @ ''\"'' else [])"
  have "n \<in> set [1..<7]" using heading_level[OF assms] by (simp add: n_def)
  then have tags: "''<h'' @ show_nat n @ ''>'' \<in> set own_tags" "''<h'' @ show_nat n @ '' id=\"Q'' \<in> set own_tags"
    "''</h'' @ show_nat n @ ''>'' \<in> set own_tags" unfolding own_tags_def by auto
  have q: "\<exists>v. take 4 label = CHR ''Q'' # v \<and> CHR ''<'' \<notin> set v" if "re_match anchor_rx label"
  proof -
    obtain w k where w: "label = w @ k" "den anchor_rx None w k" using \<open>re_match anchor_rx label\<close> by (auto simp: re_match_def mt_empty_iff)
    then obtain a b c where "w = [CHR ''Q'', a, b, c]" "is_decimal a" "is_decimal b" "is_decimal c"
      by (auto simp: anchor_rx_def den_seq_iff)
    then show ?thesis using w(1) by (auto simp: is_decimal_def)
  qed
  have "own_tag (''<h'' @ show_nat n @ ident @ ''>'' @ k)" for k
  proof (cases "re_match anchor_rx label")
    case True
    then obtain v where "take 4 label = CHR ''Q'' # v" using q by blast
    then show ?thesis using own_tags_own[OF tags(2), of "v @ ''\">'' @ k"] True by (simp add: ident_def)
  next
    case False
    then show ?thesis using own_tags_own[OF tags(1), of k] by (simp add: ident_def)
  qed
  moreover have "CHR ''<'' \<notin> set ident" using q by (auto simp: ident_def)
  moreover have "tags_ok own_tag (''</h'' @ show_nat n @ ''>'')"
    using own_tags_own[OF tags(3), of "[]"] show_nat_plain by (simp add: tags_ok_plain)
  then have "tags_ok own_tag (inline_html label @ ''</h'' @ show_nat n @ ''>'')"
    using tags_ok_append[OF grows_own_tag inline_html_tags] by blast
  ultimately have "tags_ok own_tag (''<h'' @ (show_nat n @ ident @ ''>'') @ inline_html label @ ''</h'' @ show_nat n @ ''>'')"
    using tags_ok_append[OF grows_own_tag tags_ok_plain, of "show_nat n @ ident @ ''>''"] show_nat_plain by auto
  then show ?thesis unfolding heading_block_def Let_def n_def[symmetric] label_def[symmetric] ident_def[symmetric] by simp
qed

lemma tag_literals:
  "tags_ok own_tag ''<table><thead><tr>''" "tags_ok own_tag ''</tr></thead><tbody>''" "tags_ok own_tag ''</tbody></table>''" "tags_ok own_tag ''<tr>''"
  "tags_ok own_tag ''</tr>''" "tags_ok own_tag ''<th>''" "tags_ok own_tag ''</th>''" "tags_ok own_tag ''<td>''"
  "tags_ok own_tag ''</td>''" "tags_ok own_tag ''<ol>''" "tags_ok own_tag ''</ol>''" "tags_ok own_tag ''<ul>''"
  "tags_ok own_tag ''</ul>''" "tags_ok own_tag ''<li>''" "tags_ok own_tag ''</li>''" "tags_ok own_tag ''<p>''"
  "tags_ok own_tag ''</p>''"
  by (simp_all add: own_tag_def own_tags_def starts_def)

lemmas tag_join = tags_ok_append[OF grows_own_tag]

lemma table_row_tags: "tags_ok own_tag (table_row ''th'' row)" "tags_ok own_tag (table_row ''td'' row)"
proof -
  have "tags_ok own_tag (''<th>'' @ inline_html c @ ''</th>'')" "tags_ok own_tag (''<td>'' @ inline_html c @ ''</td>'')" for c
    by (intro tag_join inline_html_tags tag_literals)+
  then show "tags_ok own_tag (table_row ''th'' row)" "tags_ok own_tag (table_row ''td'' row)"
    unfolding table_row_def by (auto intro!: tags_ok_concat[OF grows_own_tag] simp del: tags_ok.simps)
qed

lemma table_block_tags:
  assumes "table_block ls = Inr b"
  shows "tags_ok own_tag b"
proof (cases "filter (\<lambda>r. \<not> delimiter_row r) (map cells_of ls)")
  case Nil
  then show ?thesis using assms by (simp add: table_block_def)
next
  case (Cons header rows)
  have b: "b = ''<table><thead><tr>'' @ table_row ''th'' header @ ''</tr></thead><tbody>''
       @ concat (map (\<lambda>r. ''<tr>'' @ table_row ''td'' r @ ''</tr>'') rows) @ ''</tbody></table>''"
    using assms unfolding table_block_def Cons list.case sum.inject by (rule sym)
  have "tags_ok own_tag (''<tr>'' @ table_row ''td'' r @ ''</tr>'')" for r
    by (intro tag_join table_row_tags tag_literals)
  then have "tags_ok own_tag (concat (map (\<lambda>r. ''<tr>'' @ table_row ''td'' r @ ''</tr>'') rows))"
    by (intro tags_ok_concat[OF grows_own_tag]) (unfold set_map, erule imageE, simp only:)
  then show ?thesis unfolding b by (intro tag_join table_row_tags tag_literals)
qed

lemma list_items_tags: "i \<in> set (fst (list_items r ls)) \<Longrightarrow> tags_ok own_tag i"
proof (induction r ls arbitrary: i rule: list_items.induct)
  case (2 r l ls)
  have item: "tags_ok own_tag (''<li>'' @ inline_html t @ ''</li>'')" for t
    by (intro tag_join inline_html_tags tag_literals)
  obtain items rest where e: "list_items r ls = (items, rest)" by fastforce
  show ?case
  proof (cases "strip l = [] \<and> (case ls of [] \<Rightarrow> False | n # _ \<Rightarrow> re_match r n)")
    case True
    from "2.prems" have "i \<in> set (fst (list_items r ls))" unfolding list_items.simps(2) if_P[OF True] .
    then show ?thesis by (rule "2.IH"(1)[OF True])
  next
    case False
    show ?thesis
    proof (cases "re_match r l")
      case True
      then have nn: "\<not> \<not> re_match r l" by simp
      from "2.prems" have "i = ''<li>'' @ inline_html (re_sub (Seq Bos r) (\<lambda>_. []) (None, l)) @ ''</li>'' \<or> i \<in> set items"
        unfolding list_items.simps(2) if_not_P[OF False] if_not_P[OF nn] e prod.case fst_conv by (rule set_ConsD)
      then show ?thesis using item "2.IH"(2)[OF False nn, of i] unfolding e fst_conv by metis
    next
      case no: False
      from "2.prems" show ?thesis unfolding list_items.simps(2) if_not_P[OF False] if_P[OF no] by simp
    qed
  qed
qed simp

lemma list_block_tags: "(\<And>i. i \<in> set items \<Longrightarrow> tags_ok own_tag i) \<Longrightarrow> tags_ok own_tag (list_block ordered items)"
proof -
  assume items: "\<And>i. i \<in> set items \<Longrightarrow> tags_ok own_tag i"
  have c: "tags_ok own_tag (concat items)" by (rule tags_ok_concat[OF grows_own_tag items])
  have "tags_ok own_tag (''<ol>'' @ concat items @ ''</ol>'')" "tags_ok own_tag (''<ul>'' @ concat items @ ''</ul>'')"
    by (intro tag_join c tag_literals)+
  then show ?thesis by (cases ordered) (simp_all add: list_block_def del: tags_ok.simps)
qed

lemma add_block_Inr: "add_block b bs = Inr xs \<Longrightarrow> \<exists>y ys. b = Inr y \<and> bs = Inr ys \<and> xs = y # ys"
  by (auto simp: add_block_def)

lemma paragraph_tags: "tags_ok own_tag (''<p>'' @ inline_html t @ ''</p>'')"
  by (intro tag_join inline_html_tags tag_literals)

text \<open>The branch a line takes.\<close>

lemma line_kind:
  obtains (blank) "strip l = []"
    | (code) "strip l \<noteq> []" "fence l"
    | (image) "strip l \<noteq> []" "\<not> fence l" "re_fullmatch image_rx l"
    | (heading) "strip l \<noteq> []" "\<not> fence l" "\<not> re_fullmatch image_rx l" "re_match heading_rx l"
    | (table) "strip l \<noteq> []" "\<not> fence l" "\<not> re_fullmatch image_rx l" "\<not> re_match heading_rx l" "prefix ''|'' l"
    | (list) "strip l \<noteq> []" "\<not> fence l" "\<not> re_fullmatch image_rx l" "\<not> re_match heading_rx l" "\<not> prefix ''|'' l"
        "re_match list_rx l"
    | (para) "strip l \<noteq> []" "\<not> fence l" "\<not> re_fullmatch image_rx l" "\<not> re_match heading_rx l" "\<not> prefix ''|'' l"
        "\<not> re_match list_rx l"
  by blast

lemma blocks_tags: "blocks read ls = Inr bs \<Longrightarrow> b \<in> set bs \<Longrightarrow> tags_ok own_tag b"
proof (induction read ls arbitrary: bs b rule: blocks.induct)
  case (2 read l ls)
  note step = "2.prems"(1)[unfolded blocks.simps(2)]
  show ?case
  proof (cases rule: line_kind[of l])
    case blank
    then show ?thesis using "2.IH"(1) step "2.prems"(2) by simp
  next
    case code
    with step obtain ys where "blocks read (drop 1 (dropWhile (\<lambda>c. \<not> fence c) ls)) = Inr ys"
      "bs = code_block (takeWhile (\<lambda>c. \<not> fence c) ls) # ys" by (auto dest!: add_block_Inr)
    then show ?thesis using "2.IH"(2)[OF code, of ys b] "2.prems"(2) code_block_tags by auto
  next
    case image
    with step obtain d ys where "blocks read ls = Inr ys" "bs = image_block (image_alt l) d # ys"
      by (auto dest!: add_block_Inr)
    then show ?thesis using "2.IH"(3)[OF image, of ys b] "2.prems"(2) image_block_tags by auto
  next
    case heading
    with step obtain ys where "blocks read ls = Inr ys" "bs = heading_block l # ys" by (auto dest!: add_block_Inr)
    then show ?thesis using "2.IH"(4)[OF heading, of ys b] "2.prems"(2) heading_block_tags[OF heading(4)] by auto
  next
    case table
    with step obtain y ys where "blocks read (dropWhile (prefix ''|'') ls) = Inr ys" "bs = y # ys"
      "table_block (l # takeWhile (prefix ''|'') ls) = Inr y" by (auto dest!: add_block_Inr)
    then show ?thesis using "2.IH"(5)[OF table, of ys b] "2.prems"(2) table_block_tags by auto
  next
    case list
    with step obtain ys where "blocks read (snd (list_items (item_rx l) (l # ls))) = Inr ys"
      "bs = list_block (\<not> prefix ''- '' l) (fst (list_items (item_rx l) (l # ls))) # ys"
      by (auto dest!: add_block_Inr simp del: list_items.simps)
    moreover have "tags_ok own_tag (list_block (\<not> prefix ''- '' l) (fst (list_items (item_rx l) (l # ls))))"
      by (rule list_block_tags) (rule list_items_tags)
    ultimately show ?thesis using "2.IH"(6)[OF list, of ys b] "2.prems"(2) by (metis set_ConsD)
  next
    case para
    with step obtain ys where "blocks read (dropWhile in_paragraph ls) = Inr ys"
      "bs = (''<p>'' @ inline_html (join '' '' (l # takeWhile in_paragraph ls)) @ ''</p>'') # ys"
      by (auto dest!: add_block_Inr simp del: join.simps)
    then show ?thesis using "2.IH"(7)[OF para, of ys b] "2.prems"(2) paragraph_tags by auto
  qed
qed simp

text \<open>C40. Whatever the Markdown contains, every \<open><\<close> of the generated HTML starts a tag of the generator: a tag without
  attributes, a heading with its question as anchor, or a link or an image whose attribute ends where the generator
  ends it. Markup in the questions is text, and no link target leaves its attribute.\<close>

theorem only_own_tags:
  assumes "markdown_to_html read text = Inr out" "out = u @ CHR ''<'' # v"
  shows "own_tag (CHR ''<'' # v)"
proof -
  obtain bs where bs: "blocks read (splitlines text) = Inr bs" "out = join newline bs"
    using assms(1) by (auto simp: markdown_to_html_def)
  have "tags_ok own_tag (join newline bs)"
    by (rule tags_ok_join[OF grows_own_tag _ blocks_tags[OF bs(1)]]) (simp add: newline_def)
  then show ?thesis using assms(2) bs(2) by (simp add: tags_ok_iff)
qed

lemma sample_markdown: "markdown_to_html (\<lambda>_. Inl index_error) ''<b>'' = Inr ''<p>&lt;b&gt;</p>''"
  by code_simp

theorem only_own_tags_witness: "own_tag ''<p>&lt;b&gt;</p>''"
  using only_own_tags[OF sample_markdown, of "[]" "''p>&lt;b&gt;</p>''"] by simp

section \<open>How the generator can fail\<close>

lemma add_block_Inl: "add_block b bs = Inl e \<Longrightarrow> b = Inl e \<or> bs = Inl e"
  by (auto simp: add_block_def bind_res_def split: sum.splits)

lemma table_block_Inl: "table_block (l # ls) = Inl e \<Longrightarrow> e = index_error \<and> delimiter_row (cells_of l)"
  by (auto simp: table_block_def split: list.splits if_splits)

lemma list_items_sub: "set (snd (list_items r ls)) \<subseteq> set ls"
  by (induction r ls rule: list_items.induct) (auto split: prod.splits)

lemma blocks_fail:
  "blocks read ls = Inl e \<Longrightarrow> (\<exists>p. read p = Inl e) \<or> (e = index_error \<and> (\<exists>l\<in>set ls. prefix ''|'' l \<and> delimiter_row (cells_of l)))"
proof (induction read ls rule: blocks.induct)
  case (2 read l ls)
  let ?goal = "\<lambda>xs. (\<exists>p. read p = Inl e) \<or> (e = index_error \<and> (\<exists>l\<in>set xs. prefix ''|'' l \<and> delimiter_row (cells_of l)))"
  have mono: "?goal xs \<Longrightarrow> set xs \<subseteq> set (l # ls) \<Longrightarrow> ?goal (l # ls)" for xs by blast
  have sub: "set (drop 1 (dropWhile (\<lambda>c. \<not> fence c) ls)) \<subseteq> set (l # ls)" "set (dropWhile (prefix ''|'') ls) \<subseteq> set (l # ls)"
    "set (dropWhile in_paragraph ls) \<subseteq> set (l # ls)" "set (snd (list_items (item_rx l) (l # ls))) \<subseteq> set (l # ls)" "set ls \<subseteq> set (l # ls)"
    using list_items_sub[of "item_rx l" "l # ls"] by (auto dest: in_set_dropD set_dropWhileD simp del: list_items.simps)
  note IH = "2.IH"(1)[THEN mono[OF _ sub(5)]] "2.IH"(2)[THEN mono[OF _ sub(1)]] "2.IH"(3)[THEN mono[OF _ sub(5)]]
    "2.IH"(4)[THEN mono[OF _ sub(5)]] "2.IH"(5)[THEN mono[OF _ sub(2)]] "2.IH"(6)[THEN mono[OF _ sub(4)]] "2.IH"(7)[THEN mono[OF _ sub(3)]]
  have img: "\<exists>p. read p = Inl e" if "bind_res (read q) (\<lambda>data. Inr (image_block a data)) = Inl e" for q a
    using that by (cases "read q") auto
  note step = "2.prems"[unfolded blocks.simps(2)]
  show ?case
  proof (cases rule: line_kind[of l])
    case blank
    then show ?thesis using step by (intro IH(1)) auto
  next
    case code
    then have "blocks read (drop 1 (dropWhile (\<lambda>c. \<not> fence c) ls)) = Inl e" using step by (auto dest: add_block_Inl)
    then show ?thesis by (rule IH(2)[OF code])
  next
    case image
    then have "(\<exists>p. read p = Inl e) \<or> blocks read ls = Inl e" using step by (auto dest!: add_block_Inl img)
    then show ?thesis using IH(3)[OF image] by blast
  next
    case heading
    then have "blocks read ls = Inl e" using step by (auto dest: add_block_Inl)
    then show ?thesis by (rule IH(4)[OF heading])
  next
    case table
    then have "table_block (l # takeWhile (prefix ''|'') ls) = Inl e \<or> blocks read (dropWhile (prefix ''|'') ls) = Inl e"
      using step by (auto dest: add_block_Inl)
    then show ?thesis using IH(5)[OF table] table_block_Inl table(5) by (meson list.set_intros(1))
  next
    case list
    then have "blocks read (snd (list_items (item_rx l) (l # ls))) = Inl e"
      using step by (auto dest: add_block_Inl simp del: list_items.simps)
    then show ?thesis by (rule IH(6)[OF list])
  next
    case para
    then have "blocks read (dropWhile in_paragraph ls) = Inl e" using step by (auto dest: add_block_Inl simp del: join.simps)
    then show ?thesis by (rule IH(7)[OF para])
  qed
qed simp

text \<open>The generator returns on every text, and the only ways to fail are an image that cannot be read and a table with a
  row of delimiters; with readable images and no such row it returns a page.\<close>

theorem markdown_failures:
  "(markdown_to_html read text = Inl e \<longrightarrow> (\<exists>p. read p = Inl e)
     \<or> (e = index_error \<and> (\<exists>l\<in>set (splitlines text). prefix ''|'' l \<and> delimiter_row (cells_of l))))
   \<and> ((\<forall>p e. read p \<noteq> Inl e) \<and> (\<forall>l\<in>set (splitlines text). prefix ''|'' l \<longrightarrow> \<not> delimiter_row (cells_of l))
     \<longrightarrow> (\<exists>page. markdown_to_html read text = Inr page))"
proof -
  have fail: "(\<exists>p. read p = Inl e) \<or> (e = index_error \<and> (\<exists>l\<in>set (splitlines text). prefix ''|'' l \<and> delimiter_row (cells_of l)))"
    if "markdown_to_html read text = Inl e" for e
    using that blocks_fail[of read "splitlines text" e]
    by (cases "blocks read (splitlines text)") (auto simp: markdown_to_html_def)
  show ?thesis using fail by (cases "markdown_to_html read text") blast+
qed

text \<open>A table whose only line is a row of delimiters does fail.\<close>

theorem delimiter_table_fails: "markdown_to_html read ''|---|'' = Inl index_error"
  by code_simp

theorem markdown_failures_witness:
  "(\<exists>l\<in>set (splitlines ''|---|''). prefix ''|'' l \<and> delimiter_row (cells_of l))
   \<and> (\<exists>page. markdown_to_html (\<lambda>_. Inr []) ''a'' = Inr page)"
proof
  show "\<exists>l\<in>set (splitlines ''|---|''). prefix ''|'' l \<and> delimiter_row (cells_of l)"
    using markdown_failures[of "\<lambda>_. Inr []" "''|---|''" index_error] delimiter_table_fails by simp
  have "splitlines ''a'' = [''a'']" by code_simp
  then show "\<exists>page. markdown_to_html (\<lambda>_. Inr []) ''a'' = Inr page"
    using markdown_failures[of "\<lambda>_. Inr []" "''a''"] by simp
qed

text \<open>Markup inside a code span is formatted, and two spans may overlap.\<close>

theorem code_span_is_formatted:
  "inline_html (CHR 0x60 # ''**x**'' @ [CHR 0x60]) = ''<code><strong>x</strong></code>''"
  by code_simp

theorem spans_overlap:
  "inline_html (''**a '' @ CHR 0x60 # ''b** c'' @ [CHR 0x60]) = ''<strong>a <code>b</strong> c</code>''"
  by code_simp

section \<open>The references\<close>

lemma foldl_add_source:
  "distinct (map snd links) \<Longrightarrow> distinct (map snd (foldl add_source links ms))
     \<and> set (map snd (foldl add_source links ms)) = set (map snd links) \<union> link_target ` set ms"
proof (induction ms arbitrary: links)
  case (Cons m ms)
  have "distinct (map snd (add_source links m))" using Cons.prems by (simp add: add_source_def)
  from Cons.IH[OF this] show ?case by (auto simp: add_source_def)
qed simp

text \<open>The references of the detailed guide name every page a detailed answer links to, and each page once.\<close>

theorem references_complete:
  "distinct (map snd (source_links qs))
   \<and> set (map snd (source_links qs)) = {link_target m | m q. q \<in> set qs \<and> m \<in> set (re_findall source_rx (None, qa_detail q))}"
  using foldl_add_source[of "[]" "concat (map (\<lambda>q. re_findall source_rx (None, qa_detail q)) qs)"]
  by (auto simp: source_links_def)

end
