(* ===== verification/Spec2Isabelle.thy ===== *)
theory Spec2Isabelle
  imports Ingestion Permissions Auth Query Providers Gateway History Observability Document_Store Memory_Store
    Embeddings Postgres_Store Store_Agreement Reranker Workers Parsers Byok Api_Documents Api_Answer Api Background Db_Pool Http
    Server Logging Evals Migrate Scripts Legacy Guides
begin

text \<open>
  A verification development for production-rag, a retrieval-augmented question-answering service in Python.

  \<^bold>\<open>The program and its parts.\<close> A client sends documents and questions over HTTP. \<open>api.py\<close> authenticates the caller (\<open>auth.py\<close>,
  \<open>permissions.py\<close>), limits its rate (\<open>observability.py\<close>) and routes the request. A document is validated, parsed
  (\<open>parsers.py\<close>), cut into chunks (\<open>rag.py\<close>), embedded (\<open>embeddings.py\<close>) and stored (\<open>memory_store.py\<close> or \<open>persistence.py\<close>), directly
  or by a background worker (\<open>workers.py\<close>). A question is validated and matched against the chunks the caller may read
  (\<open>query.py\<close>, \<open>persistence.py\<close>, \<open>reranker.py\<close>), and the evidence goes to a model (\<open>gateway.py\<close>, \<open>providers.py\<close>, \<open>byok.py\<close>) whose answer
  must cite it; a conversation is remembered by \<open>history.py\<close>. Beside the service stand the evaluator (\<open>evals/evaluate.py\<close>),
  the schema migrations (\<open>migrate.py\<close>), the operator's scripts (\<open>scripts\<close>), the first version of the service (\<open>legacy/rag_api\<close>)
  and the generator of the study guides (\<open>docs/interview-prep/build_guides.py\<close>).

  \<^bold>\<open>How code becomes definitions.\<close> A class is a record, an enumeration or tagged value a datatype, a method a function that
  takes the object and returns it updated, an exception a value of \<open>exn\<close> on the left of a sum. A request handler is an
  \<open>act\<close>: a function from the state of the application to an outcome and the next state, so that changes made before an
  exception stay. What the environment contributes (clock, random identifiers, SHA-256, the answers of models and
  services, the JSON reader, the outcome of child processes) is a parameter, collected for a request in the record \<open>world\<close>.
  Threads and processes are step relations whose steps are the atomic operations of the code.

  \<^bold>\<open>The theories.\<close>
  \<^item> \<open>Rag_Prelude\<close>: strings, characters, JSON values, exceptions, rounding; \<open>Py_Regex\<close>: Python's \<open>re\<close> as a backtracking matcher with
    its denotation; \<open>Py_Codec\<close>: UTF-8 and base64; \<open>Py_Url\<close>: \<open>urlsplit\<close> and \<open>parse_qs\<close>.
  \<^item> \<open>Ingestion\<close> (\<open>rag.py\<close>): sanitising, token windows, chunk records. The splitter terminates and its windows are bounded,
    overlap as configured and cover the text; no role label survives sanitising.
  \<^item> \<open>Permissions\<close>, \<open>Auth\<close>: principals, ACLs and key stores. A key authenticates exactly as the principal of its entry.
  \<^item> \<open>Query\<close> (\<open>query.py\<close>): terms, cosine, the evidence gates, the offline answer.
  \<^item> \<open>Providers\<close>, \<open>Gateway\<close>, \<open>Byok\<close>: the citation contract, prompts, the OpenAI-compatible provider; circuit breaker, retries, budgets
    and fallback; user-supplied models. A gateway call always answers, the breaker state is a function of the history of
    outcomes, sources cannot forge tags, custom URLs are checked before every request.
  \<^item> \<open>History\<close> (\<open>history.py\<close>): locale \<open>chat_history\<close>, interpreted by both stores, which are proved equivalent.
  \<^item> \<open>Observability\<close>: counters, histogram, token-bucket limiter, daily budget.
  \<^item> \<open>Document_Store\<close>: locale \<open>document_store\<close>, the contract of a store, with tenant isolation proved from it; \<open>Memory_Store\<close> and
    \<open>Postgres_Store\<close> interpret it, and \<open>Api_Documents\<close> interprets it for the union of the two. \<open>Store_Agreement\<close> proves the two
    interchangeable by a simulation and shows by runs where they are not. \<open>Embeddings\<close>, \<open>Reranker\<close>: validation of
    vectors, ranking. \<open>Db_Pool\<close>: the connection pool and its double-checked lock under every interleaving.
  \<^item> \<open>Workers\<close> (\<open>workers.py\<close> and the claim function of \<open>migrations/004\<close>): locale \<open>job_queue\<close>, interpreted by the in-process worker and by
    the PostgreSQL queue; leases, retries, settling. \<open>Background\<close> composes either queue with the application: an upload
    as a job is the direct upload, and an accepted job is well typed.
  \<^item> \<open>Parsers\<close> (\<open>parsers.py\<close>): content sniffing, HTML and PDF extraction, the child process.
  \<^item> \<open>Api_Documents\<close>, \<open>Api_Answer\<close>, \<open>Api\<close>, \<open>Http\<close> (\<open>api.py\<close>): the handlers of documents, jobs and questions, the boundary \<open>handle\<close>, the HTTP
    request handler. Tenants are isolated in every run of requests, an answer cites only sources its caller may read,
    requests without a key change nothing but metrics, every request ends in a response.
  \<^item> \<open>Server\<close> (\<open>run\<close>, \<open>GracefulHTTPServer\<close>, \<open>close\<close>): the life of the process as a step machine of its threads and signals. A shutdown
    drains the accepted requests before it stops the worker and releases the connections, and it ends.
  \<^item> \<open>Logging\<close> (\<open>JsonFormatter\<close>): a record of the log is one line of printable ASCII, whatever a client puts into it.
  \<^item> \<open>Evals\<close>, \<open>Migrate\<close>, \<open>Scripts\<close>, \<open>Legacy\<close>: the evaluator over the modelled application, with its metrics, calibration and
    regression check; migrations with resumption and concurrent deploys; key creation and deployment; the legacy
    service, whose chunker is partial.
  \<^item> \<open>Guides\<close> (\<open>build_guides.py\<close>): the Markdown generator with its regular expressions. Every \<open><\<close> of a page starts a tag of the
    generator; where it fails and where its tags overlap is shown by runs.

  \<^bold>\<open>Bounds, fuel and termination.\<close> Loops are total functions with termination proofs, except the legacy chunker, which is a
  \<open>partial_function (option)\<close> because its loop can run for ever: one theorem gives the texts on which it returns, another
  texts on which it does not. The iteration of a regular expression is bounded by the length of the remaining text,
  which is enough because an iteration that consumes nothing is not repeated (\<open>mt_iff_den\<close>). No other fuel is used.
  Strings are code points up to U+00FF, on which Python's character classes are modelled exactly; text beyond
  that range is reported as outside the model. Floats are reals, without rounding, infinities or NaN.

  \<^bold>\<open>Not modelled, and why.\<close> Sockets and their timeouts (the operating system's side of \<open>run\<close>); \<open>configure_logging\<close>, the audit and
  usage lines and the logger of the legacy service, which no behaviour depends on; the printing of JSON in responses
  and of floating-point numbers (of the log, where clients could forge lines, the printing is modelled), the HTML tokenizer,
  the PDF reader, the embedding and reranking models, psycopg, pgvector and PostgreSQL's text search, FastAPI and
  pydantic, which are libraries the sources call and appear as parameters; the SQL files except the claim function and
  the row security the statements meet; the browser client under \<open>web\<close> and the tests. The authored prose, the style
  sheet and the images of the study guides are parameters of theory \<open>Guides\<close>.
\<close>

end
